(* ===== verification/Prelude.thy ===== *)
theory Prelude
  imports Main "HOL-Library.Word" "HOL-Library.Char_ord" "HOL-Library.List_Lexorder"
    "HOL-Library.Multiset" "HOL-Library.Sublist"
begin

text \<open>
  The shared vocabulary of the development: the outcomes a C++ call can have, state-passing
  actions with their combinators, the operations of \<^verbatim>\<open>std::string\<close> and of
  \<^verbatim>\<open>std::map\<close> that the compiler uses, decimal printing, the fixed-width integer
  conversions, and the lemma collections the component theories extend.
\<close>

section \<open>Lemma collections\<close>

named_theorems action_simps \<open>unfolding of the action combinators\<close>
named_theorems string_simps \<open>characterisations of the std::string operations\<close>
named_theorems run_simps \<open>running an action from a given state\<close>
named_theorems width_simps \<open>fixed-width integer conversions\<close>

section \<open>Outcomes of a call\<close>

text \<open>
  A call returns, throws a C++ exception (the compiler throws strings), ends the process
  (\<open>Exit\<close>, with the message it prints), runs into behaviour that the language leaves
  undefined (a null or uninitialised pointer is followed), or does not return within the given fuel.
\<close>

datatype 'a outcome =
    Ok 'a
  | Throw string
  | Exit string
  | Undefined
  | Out_of_fuel

fun bind_outcome :: "'a outcome \<Rightarrow> ('a \<Rightarrow> 'b outcome) \<Rightarrow> 'b outcome" where
  "bind_outcome (Ok x) f = f x"
| "bind_outcome (Throw e) f = Throw e"
| "bind_outcome (Exit e) f = Exit e"
| "bind_outcome Undefined f = Undefined"
| "bind_outcome Out_of_fuel f = Out_of_fuel"

lemma bind_outcome_eq_Ok [simp]:
  "bind_outcome m f = Ok y \<longleftrightarrow> (\<exists>x. m = Ok x \<and> f x = Ok y)"
  by (cases m) auto

lemma bind_outcome_cong [fundef_cong]:
  "m = m' \<Longrightarrow> (\<And>x. m' = Ok x \<Longrightarrow> f x = g x) \<Longrightarrow> bind_outcome m f = bind_outcome m' g"
  by (cases m') auto

text \<open>The pointer dereference: a null or dangling pointer is undefined behaviour.\<close>

fun deref :: "'a option \<Rightarrow> 'a outcome" where
  "deref None = Undefined"
| "deref (Some x) = Ok x"

lemma deref_eq_Ok [simp]: "deref p = Ok x \<longleftrightarrow> p = Some x"
  by (cases p) auto

section \<open>Actions\<close>

text \<open>
  A routine that changes state is an action: it takes the state and returns its outcome
  together with the state it leaves, also when it throws.
\<close>

type_synonym ('s, 'a) action = "'s \<Rightarrow> 'a outcome \<times> 's"

definition returnA :: "'a \<Rightarrow> ('s, 'a) action" where
  "returnA x s = (Ok x, s)"

definition bindA :: "('s, 'a) action \<Rightarrow> ('a \<Rightarrow> ('s, 'b) action) \<Rightarrow> ('s, 'b) action" where
  "bindA m f s =
     (case m s of
        (Ok x, s') \<Rightarrow> f x s'
      | (Throw e, s') \<Rightarrow> (Throw e, s')
      | (Exit e, s') \<Rightarrow> (Exit e, s')
      | (Undefined, s') \<Rightarrow> (Undefined, s')
      | (Out_of_fuel, s') \<Rightarrow> (Out_of_fuel, s'))"

definition seqA :: "('s, unit) action \<Rightarrow> ('s, 'b) action \<Rightarrow> ('s, 'b) action" where
  "seqA m n = bindA m (\<lambda>_. n)"

text \<open>A block of statements, and a loop over the elements of a vector.\<close>

fun block :: "('s, unit) action list \<Rightarrow> ('s, unit) action" where
  "block [] = returnA ()"
| "block (m # ms) = seqA m (block ms)"

fun for_each :: "'x list \<Rightarrow> ('x \<Rightarrow> ('s, unit) action) \<Rightarrow> ('s, unit) action" where
  "for_each [] f = returnA ()"
| "for_each (x # xs) f = seqA (f x) (for_each xs f)"

definition whenA :: "bool \<Rightarrow> ('s, unit) action \<Rightarrow> ('s, unit) action" where
  "whenA b m = (if b then m else returnA ())"

definition throwA :: "string \<Rightarrow> ('s, 'a) action" where
  "throwA e s = (Throw e, s)"

definition exitA :: "string \<Rightarrow> ('s, 'a) action" where
  "exitA e s = (Exit e, s)"

definition gets :: "('s \<Rightarrow> 'a) \<Rightarrow> ('s, 'a) action" where
  "gets f s = (Ok (f s), s)"

definition getsO :: "('s \<Rightarrow> 'a outcome) \<Rightarrow> ('s, 'a) action" where
  "getsO f s = (f s, s)"

definition modify :: "('s \<Rightarrow> 's) \<Rightarrow> ('s, unit) action" where
  "modify f s = (Ok (), f s)"

lemma for_each_cong [fundef_cong]:
  "xs = ys \<Longrightarrow> (\<And>x. x \<in> set ys \<Longrightarrow> f x = g x) \<Longrightarrow> for_each xs f = for_each ys g"
  by (induction ys arbitrary: xs) auto

lemma bindA_Ok [simp]: "m s = (Ok x, s') \<Longrightarrow> bindA m f s = f x s'"
  by (simp add: bindA_def)

lemma seqA_Ok [simp]: "m s = (Ok (), s') \<Longrightarrow> seqA m n s = n s'"
  by (simp add: seqA_def)

lemma bindA_eq_Ok:
  "bindA m f s = (Ok y, t) \<longleftrightarrow> (\<exists>x s'. m s = (Ok x, s') \<and> f x s' = (Ok y, t))"
  by (auto simp: bindA_def split: prod.splits outcome.splits)

lemma seqA_eq_Ok:
  "seqA m n s = (Ok y, t) \<longleftrightarrow> (\<exists>s'. m s = (Ok (), s') \<and> n s' = (Ok y, t))"
  by (auto simp: seqA_def bindA_eq_Ok)

lemma bindA_assoc: "bindA (bindA m f) g = bindA m (\<lambda>x. bindA (f x) g)"
  by (rule ext) (auto simp: bindA_def split: prod.splits outcome.splits)

lemma block_append: "block (ms @ ns) = seqA (block ms) (block ns)"
proof (induction ms)
  case Nil
  show ?case by (rule ext) (simp add: seqA_def bindA_def returnA_def)
next
  case (Cons m ms)
  then show ?case by (simp add: seqA_def bindA_assoc)
qed

lemmas [action_simps] =
  returnA_def bindA_def seqA_def whenA_def throwA_def exitA_def gets_def getsO_def modify_def

text \<open>
  An invariant that every iteration of a loop keeps is kept by the loop.
\<close>

definition keeps :: "('s \<Rightarrow> bool) \<Rightarrow> ('s, 'a) action \<Rightarrow> bool" where
  "keeps I m \<longleftrightarrow> (\<forall>s. I s \<longrightarrow> I (snd (m s)))"

lemma keepsI: "(\<And>s. I s \<Longrightarrow> I (snd (m s))) \<Longrightarrow> keeps I m"
  by (simp add: keeps_def)

lemma keepsD: "keeps I m \<Longrightarrow> I s \<Longrightarrow> I (snd (m s))"
  by (simp add: keeps_def)

lemma keeps_return [simp, intro]: "keeps I (returnA x)"
  by (simp add: keeps_def returnA_def)

lemma keeps_bind [intro]: "keeps I m \<Longrightarrow> (\<And>x. keeps I (f x)) \<Longrightarrow> keeps I (bindA m f)"
  unfolding keeps_def bindA_def by (fastforce split: prod.splits outcome.splits)

lemma keeps_seq [intro]: "keeps I m \<Longrightarrow> keeps I n \<Longrightarrow> keeps I (seqA m n)"
  by (simp add: seqA_def keeps_bind)

lemma keeps_block [intro]: "(\<And>m. m \<in> set ms \<Longrightarrow> keeps I m) \<Longrightarrow> keeps I (block ms)"
  by (induction ms) auto

lemma keeps_for_each [intro]: "(\<And>x. x \<in> set xs \<Longrightarrow> keeps I (f x)) \<Longrightarrow> keeps I (for_each xs f)"
  by (induction xs) auto

lemma keeps_when [intro]: "(b \<Longrightarrow> keeps I m) \<Longrightarrow> keeps I (whenA b m)"
  by (simp add: whenA_def)

lemma keeps_pure [simp, intro]:
  "keeps I (throwA e)" "keeps I (exitA e)" "keeps I (gets f)" "keeps I (getsO g)"
  by (simp_all add: keeps_def throwA_def exitA_def gets_def getsO_def)

text \<open>
  An action that returns in a state and, when it returns normally, leaves that state as it was.
\<close>

definition leaves :: "'s \<Rightarrow> ('s, 'a) action \<Rightarrow> bool" where
  "leaves s m \<longleftrightarrow> fst (m s) \<noteq> Out_of_fuel \<and> (\<forall>x. fst (m s) = Ok x \<longrightarrow> snd (m s) = s)"

lemma leaves_return [simp, intro]: "leaves s (returnA x)" "leaves s (throwA e)" "leaves s (exitA e)"
    "leaves s (gets f)"
  by (simp_all add: leaves_def returnA_def throwA_def exitA_def gets_def)

lemma leaves_getsO [intro]: "g s \<noteq> Out_of_fuel \<Longrightarrow> leaves s (getsO g)"
  by (simp add: leaves_def getsO_def)

lemma leaves_bind [intro]:
  assumes "leaves s m" "\<And>x. m s = (Ok x, s) \<Longrightarrow> leaves s (f x)"
  shows "leaves s (bindA m f)"
proof (cases "m s")
  case (Pair out s')
  with assms show ?thesis by (cases out) (auto simp: leaves_def bindA_def)
qed

lemma leaves_seq [intro]: "leaves s m \<Longrightarrow> (m s = (Ok (), s) \<Longrightarrow> leaves s n) \<Longrightarrow> leaves s (seqA m n)"
  by (auto simp: seqA_def)

lemma bindA_getsO: "bindA (getsO g) f s = (case g s of Ok x \<Rightarrow> f x s | Throw e \<Rightarrow> (Throw e, s)
    | Exit e \<Rightarrow> (Exit e, s) | Undefined \<Rightarrow> (Undefined, s) | Out_of_fuel \<Rightarrow> (Out_of_fuel, s))"
  by (simp add: bindA_def getsO_def)

lemma leaves_deref [simp, intro]: "leaves s (getsO (\<lambda>s. deref (g s)))"
proof (rule leaves_getsO)
  show "deref (g s) \<noteq> Out_of_fuel" by (cases "g s") simp_all
qed

lemma getsO_eq_Ok [simp]: "getsO g s = (Ok x, s') \<longleftrightarrow> g s = Ok x \<and> s' = s"
  by (auto simp: getsO_def)

section \<open>Running an action\<close>

text \<open>Rules that execute the first step of an action from a given state, without unfolding the rest.\<close>

lemma run_steps [run_simps]:
  "returnA x s = (Ok x, s)" "throwA e s = (Throw e, s)" "exitA e s = (Exit e, s)"
  "modify g s = (Ok (), g s)" "gets f s = (Ok (f s), s)"
  "whenA True m = m" "whenA False m = returnA ()"
  by (simp_all add: action_simps)

lemma run_bind_return [run_simps]: "bindA (returnA x) f = f x"
  by (simp add: action_simps fun_eq_iff)

lemma run_bind_gets [run_simps]: "bindA (gets g) f s = f (g s) s"
  by (simp add: action_simps)

lemma run_bind_modify [run_simps]: "bindA (modify g) f s = f () (g s)"
  by (simp add: action_simps)

lemma run_bind_fail [run_simps]: "bindA (throwA e) f s = (Throw e, s)" "bindA (exitA e) f s = (Exit e, s)"
  by (simp_all add: action_simps)

lemma run_seq [run_simps]:
  "seqA (returnA ()) n = n" "seqA (modify g) n s = n (g s)"
  "seqA (throwA e) n s = (Throw e, s)" "seqA (exitA e) n s = (Exit e, s)"
  by (simp_all add: action_simps fun_eq_iff)

lemma run_getsO [run_simps]:
  "g s = Ok x \<Longrightarrow> bindA (getsO g) f s = f x s"
  "g s = Throw e \<Longrightarrow> bindA (getsO g) f s = (Throw e, s)"
  "g s = Exit e \<Longrightarrow> bindA (getsO g) f s = (Exit e, s)"
  "g s = Undefined \<Longrightarrow> bindA (getsO g) f s = (Undefined, s)"
  by (simp_all add: action_simps)

lemma run_when [run_simps]: "seqA (whenA b m) n = (if b then seqA m n else n)"
  by (simp add: whenA_def run_seq)

lemma run_seq_bind [run_simps]: "seqA (bindA m f) n = bindA m (\<lambda>x. seqA (f x) n)"
  by (simp add: seqA_def bindA_assoc)

lemma run_bind_bind [run_simps]: "bindA (bindA m f) g = bindA m (\<lambda>x. bindA (f x) g)"
  by (simp add: bindA_assoc)

lemma run_seq_seq [run_simps]: "seqA (seqA m n) k = seqA m (seqA n k)"
  by (simp add: seqA_def bindA_assoc)

lemma run_bind_seq [run_simps]: "bindA (seqA m n) f = seqA m (bindA n f)"
  by (simp add: seqA_def bindA_assoc)

end
