(* ===== verification/Cpp_Library.thy ===== *)
theory Cpp_Library
  imports Prelude
begin

text \<open>
  What the compiler uses of the C++ standard library: searching in \<^verbatim>\<open>std::string\<close>
  (\<^verbatim>\<open>find\<close>, \<^verbatim>\<open>rfind\<close>, \<^verbatim>\<open>find_first_not_of\<close>,
  \<^verbatim>\<open>find_last_not_of\<close>; \<open>None\<close> is \<^verbatim>\<open>npos\<close>), decimal output of
  integers, the ASCII case conversions of \<^verbatim>\<open><cctype>\<close>, the conversions between integer
  widths, and \<^verbatim>\<open>std::map\<close> as an interface (a locale) with the sorted association list
  that implements it.
\<close>

section \<open>Searching in strings\<close>

fun find_char :: "'a \<Rightarrow> 'a list \<Rightarrow> nat option" where
  "find_char c [] = None"
| "find_char c (x # xs) = (if x = c then Some 0 else map_option Suc (find_char c xs))"

definition find_from :: "'a \<Rightarrow> 'a list \<Rightarrow> nat \<Rightarrow> nat option" where
  "find_from c s pos = map_option (\<lambda>i. pos + i) (find_char c (drop pos s))"

definition rfind_char :: "'a \<Rightarrow> 'a list \<Rightarrow> nat option" where
  "rfind_char c s = map_option (\<lambda>i. length s - 1 - i) (find_char c (rev s))"

fun find_first_not_of :: "'a list \<Rightarrow> 'a list \<Rightarrow> nat option" where
  "find_first_not_of ws [] = None"
| "find_first_not_of ws (x # xs) =
     (if x \<in> set ws then map_option Suc (find_first_not_of ws xs) else Some 0)"

definition find_last_not_of :: "'a list \<Rightarrow> 'a list \<Rightarrow> nat option" where
  "find_last_not_of ws s = map_option (\<lambda>i. length s - 1 - i) (find_first_not_of ws (rev s))"

lemma find_char_None [simp, string_simps]: "find_char c s = None \<longleftrightarrow> c \<notin> set s"
  by (induction s) auto

lemma find_char_split:
  "c \<notin> set a \<Longrightarrow> find_char c (a @ c # b) = Some (length a)"
  by (induction a) auto

lemma find_char_Some:
  "find_char c s = Some i \<Longrightarrow> i < length s \<and> s = take i s @ c # drop (Suc i) s \<and> c \<notin> set (take i s)"
proof (induction s arbitrary: i)
  case Nil
  then show ?case by simp
next
  case (Cons x xs)
  then show ?case by (cases "x = c") auto
qed

lemma rfind_char_None [simp, string_simps]: "rfind_char c s = None \<longleftrightarrow> c \<notin> set s"
  by (simp add: rfind_char_def)

lemma rfind_char_split:
  assumes "c \<notin> set b"
  shows "rfind_char c (a @ c # b) = Some (length a)"
proof -
  have "find_char c (rev b @ c # rev a) = Some (length b)"
    using assms find_char_split [of c "rev b" "rev a"] by simp
  then show ?thesis by (simp add: rfind_char_def)
qed

lemma find_first_not_of_None [string_simps]:
  "find_first_not_of ws s = None \<longleftrightarrow> set s \<subseteq> set ws"
  by (induction s) auto

lemma find_first_not_of_Some [string_simps]:
  "find_first_not_of ws s = Some i \<Longrightarrow>
     i < length s \<and> s ! i \<notin> set ws \<and> set (take i s) \<subseteq> set ws"
proof (induction s arbitrary: i)
  case Nil
  then show ?case by simp
next
  case (Cons x xs)
  then show ?case by (cases "x \<in> set ws") auto
qed

lemma find_first_not_of_append:
  "set a \<subseteq> set ws \<Longrightarrow> b \<notin> set ws \<Longrightarrow> find_first_not_of ws (a @ b # r) = Some (length a)"
  by (induction a) auto

lemma find_last_not_of_None [string_simps]:
  "find_last_not_of ws s = None \<longleftrightarrow> set s \<subseteq> set ws"
  by (simp add: find_last_not_of_def find_first_not_of_None)

lemma find_last_not_of_Some:
  assumes "find_last_not_of ws s = Some i"
  shows "i < length s" "s ! i \<notin> set ws" "set (drop (Suc i) s) \<subseteq> set ws"
proof -
  from assms obtain j where j: "find_first_not_of ws (rev s) = Some j" and i: "i = length s - 1 - j"
    by (auto simp: find_last_not_of_def)
  from find_first_not_of_Some [OF j]
  have *: "j < length s" "rev s ! j \<notin> set ws" "set (take j (rev s)) \<subseteq> set ws" by auto
  from * i show "i < length s" by simp
  from * i show "s ! i \<notin> set ws" by (simp add: rev_nth)
  from *(1) i have "take j (rev s) = rev (drop (Suc i) s)"
    by (simp add: take_rev Suc_diff_Suc)
  with *(3) show "set (drop (Suc i) s) \<subseteq> set ws" by simp
qed

section \<open>Decimal output\<close>

definition digit_char :: "nat \<Rightarrow> char" where
  "digit_char d = char_of (48 + d)"

fun show_nat :: "nat \<Rightarrow> string" where
  "show_nat n = (if n < 10 then [digit_char n] else show_nat (n div 10) @ [digit_char (n mod 10)])"

declare show_nat.simps [simp del]

definition show_int :: "int \<Rightarrow> string" where
  "show_int i = (if i < 0 then CHR ''-'' # show_nat (nat (- i)) else show_nat (nat i))"

definition is_digit :: "char \<Rightarrow> bool" where
  "is_digit c \<longleftrightarrow> 48 \<le> (of_char c :: nat) \<and> (of_char c :: nat) \<le> 57"

definition digit_value :: "char \<Rightarrow> nat" where
  "digit_value c = of_char c - 48"

fun read_nat :: "string \<Rightarrow> nat \<Rightarrow> nat" where
  "read_nat [] n = n"
| "read_nat (c # cs) n = read_nat cs (10 * n + digit_value c)"

lemma of_char_digit_char: "d < 10 \<Longrightarrow> (of_char (digit_char d) :: nat) = 48 + d"
  by (simp add: digit_char_def)

lemma is_digit_digit_char [simp]: "d < 10 \<Longrightarrow> is_digit (digit_char d)"
  by (simp add: is_digit_def of_char_digit_char)

lemma digit_value_digit_char [simp]: "d < 10 \<Longrightarrow> digit_value (digit_char d) = d"
  by (simp add: digit_value_def of_char_digit_char)

lemma show_nat_digits: "c \<in> set (show_nat n) \<Longrightarrow> is_digit c"
proof (induction n rule: show_nat.induct)
  case (1 n)
  then show ?case
    by (cases "n < 10") (auto simp: show_nat.simps [of n])
qed

lemma show_nat_nonempty [simp]: "show_nat n \<noteq> []"
  by (subst show_nat.simps) simp

lemma read_nat_append: "read_nat (xs @ ys) n = read_nat ys (read_nat xs n)"
  by (induction xs arbitrary: n) auto

lemma read_show_nat: "read_nat (show_nat n) 0 = n"
proof (induction n rule: show_nat.induct)
  case (1 n)
  show ?case
  proof (cases "n < 10")
    case True
    then show ?thesis by (simp add: show_nat.simps [of n])
  next
    case False
    with "1.IH" show ?thesis by (simp add: show_nat.simps [of n] read_nat_append)
  qed
qed

lemma show_nat_inject [simp]: "show_nat m = show_nat n \<longleftrightarrow> m = n"
  using read_show_nat by metis

text \<open>No leading zero: a decimal of more than one digit starts with a nonzero digit.\<close>

lemma show_nat_no_leading_zero:
  "10 \<le> n \<Longrightarrow> \<exists>d ds. show_nat n = d # ds \<and> d \<noteq> CHR ''0'' \<and> ds \<noteq> []"
proof (induction n rule: show_nat.induct)
  case (1 n)
  show ?case
  proof (cases "10 \<le> n div 10")
    case True
    with 1 obtain d ds where "show_nat (n div 10) = d # ds" "d \<noteq> CHR ''0''" by auto
    with 1 show ?thesis by (simp add: show_nat.simps [of n])
  next
    case False
    then have small: "n div 10 < 10" by simp
    from 1 have "n div 10 \<noteq> 0" by auto
    with small have "digit_char (n div 10) \<noteq> digit_char 0"
      using digit_value_digit_char by (metis zero_less_numeral)
    moreover have "digit_char 0 = CHR ''0''" by code_simp
    ultimately show ?thesis using 1 small
      by (simp add: show_nat.simps [of n] show_nat.simps [of "n div 10"])
  qed
qed

lemma minus_not_digit [simp]: "\<not> is_digit (CHR ''-'')"
  by code_simp

lemma show_int_chars: "c \<in> set (show_int i) \<Longrightarrow> is_digit c \<or> c = CHR ''-''"
  by (auto simp: show_int_def dest: show_nat_digits split: if_splits)

lemma show_int_nonempty [simp]: "show_int i \<noteq> []"
  by (simp add: show_int_def)

lemma show_nat_not_minus: "CHR ''-'' # ds \<noteq> show_nat n"
  using show_nat_digits [of "CHR ''-''" n] by (metis list.set_intros(1) minus_not_digit)

lemma show_int_inject [simp]: "show_int i = show_int j \<longleftrightarrow> i = j"
  using show_nat_not_minus by (auto simp: show_int_def split: if_splits) metis+

text \<open>A decimal is delimited by a character that is no digit and no minus sign.\<close>

lemma append_delimited_inject:
  "d \<notin> set xs \<Longrightarrow> d \<notin> set ys \<Longrightarrow> xs @ d # u = ys @ d # v \<Longrightarrow> xs = ys \<and> u = v"
proof (induction xs arbitrary: ys)
  case Nil
  then show ?case by (cases ys) auto
next
  case (Cons x xs)
  then show ?case by (cases ys) auto
qed

lemma show_int_delimited:
  "\<not> is_digit d \<Longrightarrow> d \<noteq> CHR ''-'' \<Longrightarrow> show_int i @ d # u = show_int j @ d # v \<Longrightarrow> i = j \<and> u = v"
  using append_delimited_inject [of d "show_int i" "show_int j" u v] show_int_chars by auto

section \<open>Case conversion (C locale)\<close>

definition is_upper :: "char \<Rightarrow> bool" where
  "is_upper c \<longleftrightarrow> 65 \<le> (of_char c :: nat) \<and> (of_char c :: nat) \<le> 90"

definition is_lower :: "char \<Rightarrow> bool" where
  "is_lower c \<longleftrightarrow> 97 \<le> (of_char c :: nat) \<and> (of_char c :: nat) \<le> 122"

definition to_lower :: "char \<Rightarrow> char" where
  "to_lower c = (if is_upper c then char_of (of_char c + 32 :: nat) else c)"

definition to_upper :: "char \<Rightarrow> char" where
  "to_upper c = (if is_lower c then char_of (of_char c - 32 :: nat) else c)"

lemma of_char_to_lower: "is_upper c \<Longrightarrow> (of_char (to_lower c) :: nat) = of_char c + 32"
  by (simp add: to_lower_def is_upper_def)

lemma of_char_to_upper: "is_lower c \<Longrightarrow> (of_char (to_upper c) :: nat) = of_char c - 32"
  by (auto simp: to_upper_def is_lower_def intro!: mod_less)

lemma not_upper_to_lower [simp]: "\<not> is_upper (to_lower c)"
  by (cases "is_upper c") (auto simp: is_upper_def to_lower_def)

lemma to_lower_idem [simp]: "\<not> is_upper c \<Longrightarrow> to_lower c = c"
  by (simp add: to_lower_def)

lemma to_upper_to_lower [simp]: "is_upper c \<Longrightarrow> to_upper (to_lower c) = c"
  by (auto simp: to_upper_def to_lower_def is_upper_def is_lower_def)

lemma to_lower_to_upper [simp]: "is_lower c \<Longrightarrow> to_lower (to_upper c) = c"
  by (auto simp: to_upper_def to_lower_def is_upper_def is_lower_def)

lemma is_upper_to_upper: "is_lower c \<Longrightarrow> is_upper (to_upper c)"
  by (auto simp: to_upper_def is_upper_def is_lower_def)

section \<open>Integer widths\<close>

definition to_int32 :: "int \<Rightarrow> int" where
  "to_int32 i = (i + 2147483648) mod 4294967296 - 2147483648"

definition to_int64 :: "int \<Rightarrow> int" where
  "to_int64 i = (i + 9223372036854775808) mod 18446744073709551616 - 9223372036854775808"

definition to_uint64 :: "int \<Rightarrow> int" where
  "to_uint64 i = i mod 18446744073709551616"

abbreviation INT32_MIN :: int where "INT32_MIN \<equiv> - 2147483648"
abbreviation INT32_MAX :: int where "INT32_MAX \<equiv> 2147483647"

lemma to_int32_bounds [width_simps]: "INT32_MIN \<le> to_int32 i" "to_int32 i \<le> INT32_MAX"
proof -
  have "0 \<le> (i + 2147483648) mod 4294967296" "(i + 2147483648) mod 4294967296 < 4294967296"
    by simp_all
  then show "INT32_MIN \<le> to_int32 i" "to_int32 i \<le> INT32_MAX" unfolding to_int32_def by simp_all
qed

lemma to_int32_id [width_simps]: "INT32_MIN \<le> i \<Longrightarrow> i \<le> INT32_MAX \<Longrightarrow> to_int32 i = i"
  by (simp add: to_int32_def)

lemma to_uint64_bounds [width_simps]: "0 \<le> to_uint64 i" "to_uint64 i < 18446744073709551616"
  by (simp_all add: to_uint64_def)

section \<open>Ordered maps\<close>

text \<open>
  \<^verbatim>\<open>std::map\<close>: lookup after an assignment, and iteration in the order of the keys. The
  interface says nothing of the representation; its lemmas hold for every implementation.
\<close>

locale ordered_map =
  fixes emp :: "'m"
    and upd :: "'k::linorder \<Rightarrow> 'v \<Rightarrow> 'm \<Rightarrow> 'm"
    and find :: "'m \<Rightarrow> 'k \<Rightarrow> 'v option"
    and items :: "'m \<Rightarrow> ('k \<times> 'v) list"
    and inv :: "'m \<Rightarrow> bool"
  assumes find_emp: "find emp k = None"
    and find_upd: "find (upd k v m) = (find m)(k \<mapsto> v)"
    and inv_emp: "inv emp"
    and inv_upd: "inv m \<Longrightarrow> inv (upd k v m)"
    and items_find: "inv m \<Longrightarrow> map_of (items m) = find m"
    and items_sorted: "inv m \<Longrightarrow> sorted_wrt (<) (map fst (items m))"
begin

lemma items_distinct: "inv m \<Longrightarrow> distinct (map fst (items m))"
  using items_sorted by (simp add: strict_sorted_iff)

lemma items_iff: "inv m \<Longrightarrow> (k, v) \<in> set (items m) \<longleftrightarrow> find m k = Some v"
  using items_distinct items_find by (metis map_of_eq_Some_iff)

lemma items_by_keys:
  assumes "inv m"
  shows "items m = map (\<lambda>k. (k, the (find m k))) (map fst (items m))"
proof -
  have "(fst x, the (find m (fst x))) = x" if "x \<in> set (items m)" for x
    using items_iff [OF assms, of "fst x" "snd x"] that by simp
  then show ?thesis by (simp add: map_idI)
qed

text \<open>Two maps with the same entries iterate alike, however they were built.\<close>

lemma items_canonical:
  assumes m: "inv m" and n: "inv n" and eq: "find m = find n"
  shows "items m = items n"
proof -
  have "set (items m) = set (items n)"
    using items_iff [OF m] items_iff [OF n] eq by auto
  then have "map fst (items m) = map fst (items n)"
    using items_sorted [OF m] items_sorted [OF n] by (intro strict_sorted_equal) auto
  then show ?thesis using items_by_keys [OF m] items_by_keys [OF n] eq by metis
qed

lemma upd_order_irrelevant:
  assumes "inv m" and "k \<noteq> l"
  shows "items (upd k v (upd l w m)) = items (upd l w (upd k v m))"
  using assms by (intro items_canonical) (auto simp: inv_upd find_upd fun_upd_twist)

end

fun smap_set :: "'k::linorder \<Rightarrow> 'v \<Rightarrow> ('k \<times> 'v) list \<Rightarrow> ('k \<times> 'v) list" where
  "smap_set k v [] = [(k, v)]"
| "smap_set k v ((k', v') # m) =
     (if k < k' then (k, v) # (k', v') # m
      else if k = k' then (k, v) # m
      else (k', v') # smap_set k v m)"

definition smap_find :: "('k \<times> 'v) list \<Rightarrow> 'k \<Rightarrow> 'v option" where
  "smap_find m k = map_of m k"

definition smap_inv :: "('k::linorder \<times> 'v) list \<Rightarrow> bool" where
  "smap_inv m \<longleftrightarrow> sorted_wrt (<) (map fst m)"

lemma map_of_smap_set [simp]: "map_of (smap_set k v m) = (map_of m)(k \<mapsto> v)"
  by (induction k v m rule: smap_set.induct) (auto simp: fun_upd_twist)

lemma fst_set_smap_set [simp]: "fst ` set (smap_set k v m) = insert k (fst ` set m)"
  by (induction k v m rule: smap_set.induct) auto

lemma smap_inv_set [simp]: "smap_inv m \<Longrightarrow> smap_inv (smap_set k v m)"
  unfolding smap_inv_def
  by (induction k v m rule: smap_set.induct) (auto simp: image_iff Ball_def)

interpretation smap: ordered_map "[]" smap_set smap_find "\<lambda>m. m" smap_inv
  by unfold_locales (auto simp: smap_find_def smap_inv_def fun_eq_iff dest: smap_inv_set [unfolded smap_inv_def])

end
