(* ===== verification/Md5.thy ===== *)
theory Md5
  imports Cpp_Library
begin

unbundle bit_operations_syntax

text \<open>
  The MD5 routine that type fingerprints use (\<^verbatim>\<open>compiler/cpp/src/md5.c\<close>): the state
  of a running computation, the block function with its 64 \<^verbatim>\<open>SET\<close> operations, and the
  incremental \<^verbatim>\<open>md5_init\<close> / \<^verbatim>\<open>md5_append\<close> / \<^verbatim>\<open>md5_finish\<close>
  interface. The reference is MD5 as RFC 1321 defines it: pad the whole message, split it into
  blocks of 64 bytes, fold the compression function, written as one uniform loop over rotating
  registers. The invariant \<open>md5_inv\<close> ties a state to the bytes appended so far; every append
  keeps it, so any way of cutting a message into appends gives the reference digest.
\<close>

section \<open>The code\<close>

type_synonym md5_byte_t = "8 word"
type_synonym md5_word_t = "32 word"

record md5_state_t =
  md5_count :: "md5_word_t list"
  md5_abcd :: "md5_word_t list"
  md5_buf :: "md5_byte_t list"

definition T_MASK :: md5_word_t where
  "T_MASK = NOT 0"

definition md5_table :: "md5_word_t list" where
  "md5_table =
    [T_MASK XOR 0x28955b87, T_MASK XOR 0x173848a9, 0x242070db, T_MASK XOR 0x3e423111,
     T_MASK XOR 0x0a83f050, 0x4787c62a, T_MASK XOR 0x57cfb9ec, T_MASK XOR 0x02b96afe,
     0x698098d8, T_MASK XOR 0x74bb0850, T_MASK XOR 0x0000a44e, T_MASK XOR 0x76a32841,
     0x6b901122, T_MASK XOR 0x02678e6c, T_MASK XOR 0x5986bc71, 0x49b40821,
     T_MASK XOR 0x09e1da9d, T_MASK XOR 0x3fbf4cbf, 0x265e5a51, T_MASK XOR 0x16493855,
     T_MASK XOR 0x29d0efa2, 0x02441453, T_MASK XOR 0x275e197e, T_MASK XOR 0x182c0437,
     0x21e1cde6, T_MASK XOR 0x3cc8f829, T_MASK XOR 0x0b2af278, 0x455a14ed,
     T_MASK XOR 0x561c16fa, T_MASK XOR 0x03105c07, 0x676f02d9, T_MASK XOR 0x72d5b375,
     T_MASK XOR 0x0005c6bd, T_MASK XOR 0x788e097e, 0x6d9d6122, T_MASK XOR 0x021ac7f3,
     T_MASK XOR 0x5b4115bb, 0x4bdecfa9, T_MASK XOR 0x0944b49f, T_MASK XOR 0x4140438f,
     0x289b7ec6, T_MASK XOR 0x155ed805, T_MASK XOR 0x2b10cf7a, 0x04881d05,
     T_MASK XOR 0x262b2fc6, T_MASK XOR 0x1924661a, 0x1fa27cf8, T_MASK XOR 0x3b53a99a,
     T_MASK XOR 0x0bd6ddbb, 0x432aff97, T_MASK XOR 0x546bdc58, T_MASK XOR 0x036c5fc6,
     0x655b59c3, T_MASK XOR 0x70f3336d, T_MASK XOR 0x00100b82, T_MASK XOR 0x7a7ba22e,
     0x6fa87e4f, T_MASK XOR 0x01d3191f, T_MASK XOR 0x5cfebceb, 0x4e0811a1,
     T_MASK XOR 0x08ac817d, T_MASK XOR 0x42c50dca, 0x2ad7d2bb, T_MASK XOR 0x14792c6e]"

definition md5_T :: "nat \<Rightarrow> md5_word_t" where
  "md5_T i = md5_table ! (i - 1)"

definition ROTATE_LEFT :: "md5_word_t \<Rightarrow> nat \<Rightarrow> md5_word_t" where
  "ROTATE_LEFT x n = (push_bit n x OR drop_bit (32 - n) x)"

definition md5_F :: "md5_word_t \<Rightarrow> md5_word_t \<Rightarrow> md5_word_t \<Rightarrow> md5_word_t" where
  "md5_F x y z = ((x AND y) OR (NOT x AND z))"

definition md5_G :: "md5_word_t \<Rightarrow> md5_word_t \<Rightarrow> md5_word_t \<Rightarrow> md5_word_t" where
  "md5_G x y z = ((x AND z) OR (y AND NOT z))"

definition md5_H :: "md5_word_t \<Rightarrow> md5_word_t \<Rightarrow> md5_word_t \<Rightarrow> md5_word_t" where
  "md5_H x y z = (x XOR y XOR z)"

definition md5_I :: "md5_word_t \<Rightarrow> md5_word_t \<Rightarrow> md5_word_t \<Rightarrow> md5_word_t" where
  "md5_I x y z = (y XOR (x OR NOT z))"

text \<open>
  The local variables \<^verbatim>\<open>a, b, c, d\<close> are a list of four registers; a \<^verbatim>\<open>SET\<close>
  names the registers it reads and writes by their positions.
\<close>

abbreviation (input) reg_a :: nat where "reg_a \<equiv> 0"
abbreviation (input) reg_b :: nat where "reg_b \<equiv> 1"
abbreviation (input) reg_c :: nat where "reg_c \<equiv> 2"
abbreviation (input) reg_d :: nat where "reg_d \<equiv> 3"

type_synonym set_args = "nat \<times> nat \<times> nat \<times> nat \<times> nat \<times> nat \<times> md5_word_t"

fun SET :: "(md5_word_t \<Rightarrow> md5_word_t \<Rightarrow> md5_word_t \<Rightarrow> md5_word_t) \<Rightarrow> md5_word_t list \<Rightarrow>
    set_args \<Rightarrow> md5_word_t list \<Rightarrow> md5_word_t list" where
  "SET f X (r0, r1, r2, r3, k, s, Ti) regs =
     (let t = regs ! r0 + f (regs ! r1) (regs ! r2) (regs ! r3) + X ! k + Ti
      in regs[r0 := ROTATE_LEFT t s + regs ! r1])"

definition md5_round1 :: "set_args list" where
  "md5_round1 =
    [(reg_a, reg_b, reg_c, reg_d, 0, 7, md5_T 1),
     (reg_d, reg_a, reg_b, reg_c, 1, 12, md5_T 2),
     (reg_c, reg_d, reg_a, reg_b, 2, 17, md5_T 3),
     (reg_b, reg_c, reg_d, reg_a, 3, 22, md5_T 4),
     (reg_a, reg_b, reg_c, reg_d, 4, 7, md5_T 5),
     (reg_d, reg_a, reg_b, reg_c, 5, 12, md5_T 6),
     (reg_c, reg_d, reg_a, reg_b, 6, 17, md5_T 7),
     (reg_b, reg_c, reg_d, reg_a, 7, 22, md5_T 8),
     (reg_a, reg_b, reg_c, reg_d, 8, 7, md5_T 9),
     (reg_d, reg_a, reg_b, reg_c, 9, 12, md5_T 10),
     (reg_c, reg_d, reg_a, reg_b, 10, 17, md5_T 11),
     (reg_b, reg_c, reg_d, reg_a, 11, 22, md5_T 12),
     (reg_a, reg_b, reg_c, reg_d, 12, 7, md5_T 13),
     (reg_d, reg_a, reg_b, reg_c, 13, 12, md5_T 14),
     (reg_c, reg_d, reg_a, reg_b, 14, 17, md5_T 15),
     (reg_b, reg_c, reg_d, reg_a, 15, 22, md5_T 16)]"

definition md5_round2 :: "set_args list" where
  "md5_round2 =
    [(reg_a, reg_b, reg_c, reg_d, 1, 5, md5_T 17),
     (reg_d, reg_a, reg_b, reg_c, 6, 9, md5_T 18),
     (reg_c, reg_d, reg_a, reg_b, 11, 14, md5_T 19),
     (reg_b, reg_c, reg_d, reg_a, 0, 20, md5_T 20),
     (reg_a, reg_b, reg_c, reg_d, 5, 5, md5_T 21),
     (reg_d, reg_a, reg_b, reg_c, 10, 9, md5_T 22),
     (reg_c, reg_d, reg_a, reg_b, 15, 14, md5_T 23),
     (reg_b, reg_c, reg_d, reg_a, 4, 20, md5_T 24),
     (reg_a, reg_b, reg_c, reg_d, 9, 5, md5_T 25),
     (reg_d, reg_a, reg_b, reg_c, 14, 9, md5_T 26),
     (reg_c, reg_d, reg_a, reg_b, 3, 14, md5_T 27),
     (reg_b, reg_c, reg_d, reg_a, 8, 20, md5_T 28),
     (reg_a, reg_b, reg_c, reg_d, 13, 5, md5_T 29),
     (reg_d, reg_a, reg_b, reg_c, 2, 9, md5_T 30),
     (reg_c, reg_d, reg_a, reg_b, 7, 14, md5_T 31),
     (reg_b, reg_c, reg_d, reg_a, 12, 20, md5_T 32)]"

definition md5_round3 :: "set_args list" where
  "md5_round3 =
    [(reg_a, reg_b, reg_c, reg_d, 5, 4, md5_T 33),
     (reg_d, reg_a, reg_b, reg_c, 8, 11, md5_T 34),
     (reg_c, reg_d, reg_a, reg_b, 11, 16, md5_T 35),
     (reg_b, reg_c, reg_d, reg_a, 14, 23, md5_T 36),
     (reg_a, reg_b, reg_c, reg_d, 1, 4, md5_T 37),
     (reg_d, reg_a, reg_b, reg_c, 4, 11, md5_T 38),
     (reg_c, reg_d, reg_a, reg_b, 7, 16, md5_T 39),
     (reg_b, reg_c, reg_d, reg_a, 10, 23, md5_T 40),
     (reg_a, reg_b, reg_c, reg_d, 13, 4, md5_T 41),
     (reg_d, reg_a, reg_b, reg_c, 0, 11, md5_T 42),
     (reg_c, reg_d, reg_a, reg_b, 3, 16, md5_T 43),
     (reg_b, reg_c, reg_d, reg_a, 6, 23, md5_T 44),
     (reg_a, reg_b, reg_c, reg_d, 9, 4, md5_T 45),
     (reg_d, reg_a, reg_b, reg_c, 12, 11, md5_T 46),
     (reg_c, reg_d, reg_a, reg_b, 15, 16, md5_T 47),
     (reg_b, reg_c, reg_d, reg_a, 2, 23, md5_T 48)]"

definition md5_round4 :: "set_args list" where
  "md5_round4 =
    [(reg_a, reg_b, reg_c, reg_d, 0, 6, md5_T 49),
     (reg_d, reg_a, reg_b, reg_c, 7, 10, md5_T 50),
     (reg_c, reg_d, reg_a, reg_b, 14, 15, md5_T 51),
     (reg_b, reg_c, reg_d, reg_a, 5, 21, md5_T 52),
     (reg_a, reg_b, reg_c, reg_d, 12, 6, md5_T 53),
     (reg_d, reg_a, reg_b, reg_c, 3, 10, md5_T 54),
     (reg_c, reg_d, reg_a, reg_b, 10, 15, md5_T 55),
     (reg_b, reg_c, reg_d, reg_a, 1, 21, md5_T 56),
     (reg_a, reg_b, reg_c, reg_d, 8, 6, md5_T 57),
     (reg_d, reg_a, reg_b, reg_c, 15, 10, md5_T 58),
     (reg_c, reg_d, reg_a, reg_b, 6, 15, md5_T 59),
     (reg_b, reg_c, reg_d, reg_a, 13, 21, md5_T 60),
     (reg_a, reg_b, reg_c, reg_d, 4, 6, md5_T 61),
     (reg_d, reg_a, reg_b, reg_c, 11, 10, md5_T 62),
     (reg_c, reg_d, reg_a, reg_b, 2, 15, md5_T 63),
     (reg_b, reg_c, reg_d, reg_a, 9, 21, md5_T 64)]"

definition load_word :: "md5_byte_t list \<Rightarrow> nat \<Rightarrow> md5_word_t" where
  "load_word data i =
     ucast (data ! (4 * i)) + push_bit 8 (ucast (data ! (4 * i + 1)))
     + push_bit 16 (ucast (data ! (4 * i + 2))) + push_bit 24 (ucast (data ! (4 * i + 3)))"

definition md5_process :: "md5_state_t \<Rightarrow> md5_byte_t list \<Rightarrow> md5_state_t" where
  "md5_process pms data =
     (let X = map (load_word data) [0..<16];
          regs = fold (SET md5_F X) md5_round1 (md5_abcd pms);
          regs = fold (SET md5_G X) md5_round2 regs;
          regs = fold (SET md5_H X) md5_round3 regs;
          regs = fold (SET md5_I X) md5_round4 regs
      in pms\<lparr>md5_abcd := [md5_abcd pms ! 0 + regs ! reg_a, md5_abcd pms ! 1 + regs ! reg_b,
                      md5_abcd pms ! 2 + regs ! reg_c, md5_abcd pms ! 3 + regs ! reg_d]\<rparr>)"

definition md5_init :: "md5_state_t \<Rightarrow> md5_state_t" where
  "md5_init pms = pms\<lparr>md5_count := [0, 0],
     md5_abcd := [0x67452301, T_MASK XOR 0x10325476, T_MASK XOR 0x67452301, 0x10325476]\<rparr>"

text \<open>The loop over full blocks; it leaves the rest of the input and the bytes left.\<close>

function process_blocks ::
    "md5_state_t \<Rightarrow> md5_byte_t list \<Rightarrow> nat \<Rightarrow> md5_state_t \<times> md5_byte_t list \<times> nat" where
  "process_blocks pms p left =
     (if 64 \<le> left then process_blocks (md5_process pms (take 64 p)) (drop 64 p) (left - 64)
      else (pms, p, left))"
  by pat_completeness auto
termination
  by (relation "measure (\<lambda>(pms, p, left). left)") auto

declare process_blocks.simps [simp del]

definition memcpy :: "md5_byte_t list \<Rightarrow> nat \<Rightarrow> md5_byte_t list \<Rightarrow> nat \<Rightarrow> md5_byte_t list" where
  "memcpy dst offset src n = take offset dst @ take n src @ drop (offset + n) dst"

text \<open>
  \<^verbatim>\<open>md5_append\<close> after the update of the message length: the initial partial block, the full
  blocks, the final partial block.
\<close>

definition md5_absorb :: "md5_state_t \<Rightarrow> nat \<Rightarrow> md5_byte_t list \<Rightarrow> nat \<Rightarrow> md5_state_t" where
  "md5_absorb pms offset data n =
     (let copy = (if offset \<noteq> 0 then (if offset + n > 64 then 64 - offset else n) else 0);
          pms = (if offset \<noteq> 0 then pms\<lparr>md5_buf := memcpy (md5_buf pms) offset data copy\<rparr> else pms)
      in if offset \<noteq> 0 \<and> offset + copy < 64 then pms
         else
          (let p = drop copy data; left = n - copy;
               pms = (if offset \<noteq> 0 then md5_process pms (md5_buf pms) else pms);
               (pms, p, left) = process_blocks pms p left
           in if left \<noteq> 0 then pms\<lparr>md5_buf := memcpy (md5_buf pms) 0 p left\<rparr> else pms))"

definition md5_append :: "md5_state_t \<Rightarrow> md5_byte_t list \<Rightarrow> int \<Rightarrow> md5_state_t" where
  "md5_append pms data nbytes =
     (let offset = unat (drop_bit 3 (md5_count pms ! 0) AND 63);
          nbits = push_bit 3 (word_of_int nbytes) :: md5_word_t
      in if nbytes \<le> 0 then pms
      else
       (let c1 = md5_count pms ! 1 + word_of_int (drop_bit 29 nbytes);
            c0 = md5_count pms ! 0 + nbits;
            c1 = (if c0 < nbits then c1 + 1 else c1)
        in md5_absorb (pms\<lparr>md5_count := [c0, c1]\<rparr>) offset data (nat nbytes)))"

definition md5_pad :: "md5_byte_t list" where
  "md5_pad = 0x80 # replicate 63 0"

definition le_byte :: "md5_word_t list \<Rightarrow> nat \<Rightarrow> md5_byte_t" where
  "le_byte ws i = ucast (drop_bit (8 * (i mod 4)) (ws ! (i div 4)))"

definition md5_finish :: "md5_state_t \<Rightarrow> md5_byte_t list" where
  "md5_finish pms =
     (let data = map (le_byte (md5_count pms)) [0..<8];
          npad = uint ((55 - drop_bit 3 (md5_count pms ! 0)) AND 63) + 1;
          pms = md5_append pms md5_pad npad;
          pms = md5_append pms data 8
      in map (le_byte (md5_abcd pms)) [0..<16])"

section \<open>The reference: RFC 1321\<close>

definition ref_K :: "md5_word_t list" where
  "ref_K =
    [0xd76aa478, 0xe8c7b756, 0x242070db, 0xc1bdceee,
     0xf57c0faf, 0x4787c62a, 0xa8304613, 0xfd469501,
     0x698098d8, 0x8b44f7af, 0xffff5bb1, 0x895cd7be,
     0x6b901122, 0xfd987193, 0xa679438e, 0x49b40821,
     0xf61e2562, 0xc040b340, 0x265e5a51, 0xe9b6c7aa,
     0xd62f105d, 0x02441453, 0xd8a1e681, 0xe7d3fbc8,
     0x21e1cde6, 0xc33707d6, 0xf4d50d87, 0x455a14ed,
     0xa9e3e905, 0xfcefa3f8, 0x676f02d9, 0x8d2a4c8a,
     0xfffa3942, 0x8771f681, 0x6d9d6122, 0xfde5380c,
     0xa4beea44, 0x4bdecfa9, 0xf6bb4b60, 0xbebfbc70,
     0x289b7ec6, 0xeaa127fa, 0xd4ef3085, 0x04881d05,
     0xd9d4d039, 0xe6db99e5, 0x1fa27cf8, 0xc4ac5665,
     0xf4292244, 0x432aff97, 0xab9423a7, 0xfc93a039,
     0x655b59c3, 0x8f0ccc92, 0xffeff47d, 0x85845dd1,
     0x6fa87e4f, 0xfe2ce6e0, 0xa3014314, 0x4e0811a1,
     0xf7537e82, 0xbd3af235, 0x2ad7d2bb, 0xeb86d391]"

definition ref_f :: "nat \<Rightarrow> md5_word_t \<Rightarrow> md5_word_t \<Rightarrow> md5_word_t \<Rightarrow> md5_word_t" where
  "ref_f i x y z =
     (if i < 16 then (x AND y) OR (NOT x AND z)
      else if i < 32 then (z AND x) OR (NOT z AND y)
      else if i < 48 then x XOR y XOR z
      else y XOR (x OR NOT z))"

definition ref_g :: "nat \<Rightarrow> nat" where
  "ref_g i =
     (if i < 16 then i
      else if i < 32 then (5 * i + 1) mod 16
      else if i < 48 then (3 * i + 5) mod 16
      else (7 * i) mod 16)"

definition ref_s :: "nat \<Rightarrow> nat" where
  "ref_s i = [[7, 12, 17, 22], [5, 9, 14, 20], [4, 11, 16, 23], [6, 10, 15, 21]] ! (i div 16) ! (i mod 4)"

type_synonym ref_regs = "md5_word_t \<times> md5_word_t \<times> md5_word_t \<times> md5_word_t"

fun ref_step :: "md5_word_t list \<Rightarrow> nat \<Rightarrow> ref_regs \<Rightarrow> ref_regs" where
  "ref_step X i (A, B, C, D) =
     (D, B + word_rotl (ref_s i) (A + ref_f i B C D + X ! ref_g i + ref_K ! i), B, C)"

fun ref_compress :: "ref_regs \<Rightarrow> md5_byte_t list \<Rightarrow> ref_regs" where
  "ref_compress (A, B, C, D) blk =
     (case fold (ref_step (map (load_word blk) [0..<16])) [0..<64] (A, B, C, D) of
        (A', B', C', D') \<Rightarrow> (A + A', B + B', C + C', D + D'))"

definition ref_init :: ref_regs where
  "ref_init = (0x67452301, 0xefcdab89, 0x98badcfe, 0x10325476)"

function chunks :: "'x list \<Rightarrow> 'x list list" where
  "chunks xs = (if length xs < 64 then [] else take 64 xs # chunks (drop 64 xs))"
  by pat_completeness auto
termination
  by (relation "measure length") auto

declare chunks.simps [simp del]

definition ref_length_bytes :: "nat \<Rightarrow> md5_byte_t list" where
  "ref_length_bytes n = map (\<lambda>i. of_nat (8 * n div 2 ^ (8 * i))) [0..<8]"

definition ref_pad :: "md5_byte_t list \<Rightarrow> md5_byte_t list" where
  "ref_pad m = m @ 0x80 # replicate ((119 - length m mod 64) mod 64) 0 @ ref_length_bytes (length m)"

definition ref_regs_list :: "ref_regs \<Rightarrow> md5_word_t list" where
  "ref_regs_list r = (case r of (A, B, C, D) \<Rightarrow> [A, B, C, D])"

definition md5_ref :: "md5_byte_t list \<Rightarrow> md5_byte_t list" where
  "md5_ref m =
     map (le_byte (ref_regs_list (foldl ref_compress ref_init (chunks (ref_pad m))))) [0..<16]"

section \<open>The block function is the reference compression\<close>

lemma ROTATE_LEFT_word_rotl:
  assumes "0 < n" "n < 32"
  shows "ROTATE_LEFT x n = word_rotl n x"
proof (rule bit_word_eqI)
  fix i assume i: "i < LENGTH(32)"
  show "bit (ROTATE_LEFT x n) i = bit (word_rotl n x) i"
  proof (cases "i < n")
    case True
    then have "(i + (32 - n)) mod 32 = i + (32 - n)" using assms by simp
    then show ?thesis using True i assms
      by (simp add: ROTATE_LEFT_def bit_or_iff bit_push_bit_iff bit_drop_bit_eq bit_word_rotl_iff
          add.commute [of 32 i])
  next
    case False
    then have "(i + (32 - n)) mod 32 = i - n" using i assms by (simp add: mod_if)
    moreover have "\<not> bit x (i + (32 - n))"
      using False assms by (auto dest: bit_imp_le_length)
    ultimately show ?thesis using False i assms
      by (simp add: ROTATE_LEFT_def bit_or_iff bit_push_bit_iff bit_drop_bit_eq bit_word_rotl_iff
          add.commute [of 32 i])
  qed
qed

lemma md5_F_ref: "i < 16 \<Longrightarrow> md5_F = ref_f i"
  by (intro ext) (simp add: md5_F_def ref_f_def)

lemma md5_G_ref: "16 \<le> i \<Longrightarrow> i < 32 \<Longrightarrow> md5_G = ref_f i"
  by (intro ext) (simp add: md5_G_def ref_f_def and.commute)

lemma md5_H_ref: "32 \<le> i \<Longrightarrow> i < 48 \<Longrightarrow> md5_H = ref_f i"
  by (intro ext) (simp add: md5_H_def ref_f_def)

lemma md5_I_ref: "48 \<le> i \<Longrightarrow> md5_I = ref_f i"
  by (intro ext) (simp add: md5_I_def ref_f_def)

text \<open>The register that plays role \<open>j\<close> (0 for the one assigned) in step \<open>i\<close>.\<close>

definition role :: "nat \<Rightarrow> nat \<Rightarrow> nat" where
  "role i j = (j + 3 * i) mod 4"

definition instr :: "nat \<Rightarrow> set_args" where
  "instr i = (role i 0, role i 1, role i 2, role i 3, ref_g i, ref_s i, ref_K ! i)"

definition regs_at :: "nat \<Rightarrow> md5_word_t list \<Rightarrow> ref_regs" where
  "regs_at i r = (r ! role i 0, r ! role i 1, r ! role i 2, r ! role i 3)"

lemma role_at:
  "i mod 4 = 0 \<Longrightarrow> role i j = j mod 4" "i mod 4 = 0 \<Longrightarrow> role (Suc i) j = (j + 3) mod 4"
  "i mod 4 = 1 \<Longrightarrow> role i j = (j + 3) mod 4" "i mod 4 = 1 \<Longrightarrow> role (Suc i) j = (j + 2) mod 4"
  "i mod 4 = 2 \<Longrightarrow> role i j = (j + 2) mod 4" "i mod 4 = 2 \<Longrightarrow> role (Suc i) j = (j + 1) mod 4"
  "i mod 4 = 3 \<Longrightarrow> role i j = (j + 1) mod 4" "i mod 4 = 3 \<Longrightarrow> role (Suc i) j = j mod 4"
  unfolding role_def by presburger+

lemma mod_4_cases: "(i::nat) mod 4 = 0 \<or> i mod 4 = 1 \<or> i mod 4 = 2 \<or> i mod 4 = 3"
  by arith

lemma ref_s_range: "i < 64 \<Longrightarrow> 0 < ref_s i \<and> ref_s i < 32"
proof -
  have "list_all (\<lambda>i. 0 < ref_s i \<and> ref_s i < 32) [0..<64]" by code_simp
  then show "i < 64 \<Longrightarrow> 0 < ref_s i \<and> ref_s i < 32" by (simp add: list_all_iff)
qed

lemma SET_instr:
  assumes "length r = 4" "i < 64" "f = ref_f i"
  shows "regs_at (Suc i) (SET f X (instr i) r) = ref_step X i (regs_at i r)"
    and "length (SET f X (instr i) r) = 4"
proof -
  have rot: "ROTATE_LEFT t (ref_s i) = word_rotl (ref_s i) t" for t
    using ref_s_range [OF assms(2)] by (simp add: ROTATE_LEFT_word_rotl)
  show "regs_at (Suc i) (SET f X (instr i) r) = ref_step X i (regs_at i r)"
    using mod_4_cases [of i] assms(1)
    by (elim disjE)
      (simp_all add: instr_def regs_at_def Let_def rot assms(3) add.commute role_at)
  show "length (SET f X (instr i) r) = 4"
    using assms(1) by (simp add: instr_def Let_def)
qed

lemma fold_SET_instr:
  assumes "length r = 4" "n + m \<le> 64" "\<And>i. n \<le> i \<Longrightarrow> i < n + m \<Longrightarrow> f = ref_f i"
  shows "regs_at (n + m) (fold (SET f X) (map instr [n..<n + m]) r)
           = fold (ref_step X) [n..<n + m] (regs_at n r)
         \<and> length (fold (SET f X) (map instr [n..<n + m]) r) = 4"
  using assms
proof (induction m)
  case 0
  then show ?case by simp
next
  case (Suc m)
  let ?r = "fold (SET f X) (map instr [n..<n + m]) r"
  from Suc have "regs_at (n + m) ?r = fold (ref_step X) [n..<n + m] (regs_at n r)" "length ?r = 4"
    by auto
  moreover have "n + m < 64" "f = ref_f (n + m)" using Suc.prems by auto
  ultimately show ?case using SET_instr [of ?r "n + m" f X] by simp
qed

lemma md5_table_ref: "md5_table = ref_K"
  unfolding md5_table_def ref_K_def T_MASK_def by simp

lemma md5_rounds_instr:
  "md5_round1 = map instr [0..<16]" "md5_round2 = map instr [16..<32]"
  "md5_round3 = map instr [32..<48]" "md5_round4 = map instr [48..<64]"
  unfolding md5_round1_def md5_round2_def md5_round3_def md5_round4_def md5_T_def md5_table_ref
  by code_simp+

lemma md5_process_ref:
  assumes "md5_abcd pms = ref_regs_list r"
  shows "md5_abcd (md5_process pms blk) = ref_regs_list (ref_compress r blk)"
proof -
  obtain A B C D where r: "r = (A, B, C, D)" by (cases r) auto
  let ?X = "map (load_word blk) [0..<16]"
  let ?r1 = "fold (SET md5_F ?X) md5_round1 [A, B, C, D]"
  let ?r2 = "fold (SET md5_G ?X) md5_round2 ?r1"
  let ?r3 = "fold (SET md5_H ?X) md5_round3 ?r2"
  let ?r4 = "fold (SET md5_I ?X) md5_round4 ?r3"
  have 1: "regs_at 16 ?r1 = fold (ref_step ?X) [0..<16] (regs_at 0 [A, B, C, D])" "length ?r1 = 4"
    using fold_SET_instr [of "[A, B, C, D]" 0 16 md5_F ?X] md5_F_ref
    by (auto simp: md5_rounds_instr)
  have 2: "regs_at 32 ?r2 = fold (ref_step ?X) [16..<32] (regs_at 16 ?r1)" "length ?r2 = 4"
    using fold_SET_instr [of ?r1 16 16 md5_G ?X] md5_G_ref 1(2)
    by (auto simp: md5_rounds_instr)
  have 3: "regs_at 48 ?r3 = fold (ref_step ?X) [32..<48] (regs_at 32 ?r2)" "length ?r3 = 4"
    using fold_SET_instr [of ?r2 32 16 md5_H ?X] md5_H_ref 2(2)
    by (auto simp: md5_rounds_instr)
  have 4: "regs_at 64 ?r4 = fold (ref_step ?X) [48..<64] (regs_at 48 ?r3)"
    using fold_SET_instr [of ?r3 48 16 md5_I ?X] md5_I_ref 3(2)
    by (auto simp: md5_rounds_instr)
  have split: "[0..<64] = [0..<16] @ [16..<32] @ [32..<48] @ [48..<64::nat]"
    by code_simp
  have "regs_at 0 [A, B, C, D] = (A, B, C, D)"
    by (simp add: regs_at_def role_def)
  then have "fold (ref_step ?X) [0..<64] (A, B, C, D) = regs_at 64 ?r4"
    unfolding split using 1 2 3 4 by simp
  moreover have "regs_at 64 ?r4 = (?r4 ! 0, ?r4 ! 1, ?r4 ! 2, ?r4 ! 3)"
    by (simp add: regs_at_def role_def)
  ultimately show ?thesis
    using assms by (simp add: md5_process_def Let_def r ref_regs_list_def)
qed

section \<open>The incremental interface\<close>

definition tail64 :: "'x list \<Rightarrow> 'x list" where
  "tail64 m = drop (64 * (length m div 64)) m"

definition md5_inv :: "md5_byte_t list \<Rightarrow> md5_state_t \<Rightarrow> bool" where
  "md5_inv m pms \<longleftrightarrow>
     md5_count pms = [of_nat (8 * length m), of_nat (8 * length m div 4294967296)] \<and>
     md5_abcd pms = ref_regs_list (foldl ref_compress ref_init (chunks m)) \<and>
     length (md5_buf pms) = 64 \<and>
     take (length m mod 64) (md5_buf pms) = tail64 m"

lemma length_tail64 [simp]: "length (tail64 m) = length m mod 64"
  by (simp add: tail64_def minus_mult_div_eq_mod)

lemma chunks_short: "length xs < 64 \<Longrightarrow> chunks xs = []"
  by (simp add: chunks.simps)

lemma chunks_block: "length x = 64 \<Longrightarrow> chunks (x @ y) = x # chunks y"
  by (subst chunks.simps) simp

lemma tail64_short: "length xs < 64 \<Longrightarrow> tail64 xs = xs"
  by (simp add: tail64_def)

lemma tail64_step: "64 \<le> length xs \<Longrightarrow> tail64 (drop 64 xs) = tail64 xs"
proof -
  assume "64 \<le> length xs"
  then have "64 + 64 * ((length xs - 64) div 64) = 64 * (length xs div 64)"
    by (simp add: le_div_geq)
  then show ?thesis by (simp add: tail64_def add.commute)
qed

lemma chunks_tail64: "chunks (m @ y) = chunks m @ chunks (tail64 m @ y)"
proof (induction m rule: chunks.induct)
  case (1 m)
  show ?case
  proof (cases "length m < 64")
    case True
    then show ?thesis by (simp add: chunks_short tail64_short)
  next
    case False
    then have "chunks (m @ y) = take 64 m # chunks (drop 64 m @ y)"
      by (subst chunks.simps) simp
    moreover have "chunks m = take 64 m # chunks (drop 64 m)"
      using False by (subst chunks.simps) simp
    ultimately show ?thesis using 1 False by (simp add: tail64_step)
  qed
qed

lemma tail64_append: "tail64 (m @ y) = tail64 (tail64 m @ y)"
proof (induction m rule: chunks.induct)
  case (1 m)
  show ?case
  proof (cases "length m < 64")
    case True
    then show ?thesis by (simp add: tail64_short)
  next
    case False
    then have "tail64 (drop 64 (m @ y)) = tail64 (m @ y)" by (intro tail64_step) simp
    then show ?thesis using 1 False by (simp add: tail64_step)
  qed
qed

lemma md5_process_frame [simp]:
  "md5_count (md5_process pms blk) = md5_count pms" "md5_buf (md5_process pms blk) = md5_buf pms"
  by (simp_all add: md5_process_def Let_def)

lemma process_blocks_ref:
  assumes "md5_abcd pms = ref_regs_list r" "left \<le> length p"
  shows "\<exists>pms' q. process_blocks pms p left = (pms', q, left mod 64) \<and>
           take (left mod 64) q = tail64 (take left p) \<and>
           md5_abcd pms' = ref_regs_list (foldl ref_compress r (chunks (take left p))) \<and>
           md5_count pms' = md5_count pms \<and> md5_buf pms' = md5_buf pms"
  using assms
proof (induction pms p left arbitrary: r rule: process_blocks.induct)
  case (1 pms p left)
  show ?case
  proof (cases "64 \<le> left")
    case True
    let ?pms = "md5_process pms (take 64 p)"
    have "md5_abcd ?pms = ref_regs_list (ref_compress r (take 64 p))"
      using "1.prems" by (simp add: md5_process_ref)
    with "1.IH" [OF True this] diff_le_mono [OF "1.prems"(2), of 64] obtain pms' q where
      IH: "process_blocks ?pms (drop 64 p) (left - 64) = (pms', q, (left - 64) mod 64)"
        "take ((left - 64) mod 64) q = tail64 (take (left - 64) (drop 64 p))"
        "md5_abcd pms' = ref_regs_list
          (foldl ref_compress (ref_compress r (take 64 p)) (chunks (take (left - 64) (drop 64 p))))"
        "md5_count pms' = md5_count pms" "md5_buf pms' = md5_buf pms"
      by auto
    have dt: "take (left - 64) (drop 64 p) = drop 64 (take left p)"
      by (simp add: drop_take)
    have ch: "chunks (take left p) = take 64 p # chunks (drop 64 (take left p))"
      using True "1.prems" by (subst chunks.simps) (simp add: min_def)
    have tl: "tail64 (drop 64 (take left p)) = tail64 (take left p)"
      using True "1.prems" by (intro tail64_step) simp
    have "process_blocks pms p left = (pms', q, left mod 64)"
      using True IH(1) by (subst process_blocks.simps) (simp add: le_mod_geq)
    with IH dt ch tl True show ?thesis by (simp add: le_mod_geq)
  next
    case False
    with "1.prems" show ?thesis
      by (subst process_blocks.simps) (simp add: tail64_short chunks_short)
  qed
qed

lemma carry_div:
  fixes x y P :: nat
  assumes "0 < P"
  shows "(x + y) div P = x div P + y div P + (if (x + y) mod P < y mod P then 1 else 0)"
proof -
  have eq: "(x + y) div P = x div P + y div P + (x mod P + y mod P) div P"
    by (rule div_add1_eq)
  have lt: "x mod P < P" "y mod P < P" using assms by simp_all
  have md: "(x + y) mod P = (x mod P + y mod P) mod P" by (simp add: mod_add_eq)
  show ?thesis
  proof (cases "x mod P + y mod P < P")
    case True
    then have "(x + y) mod P = x mod P + y mod P" by (simp add: md)
    with True show ?thesis by (simp add: eq)
  next
    case False
    moreover have "x mod P + y mod P - P < P" using lt by linarith
    ultimately have "(x + y) mod P = x mod P + y mod P - P" "(x mod P + y mod P) div P = 1"
      using lt assms by (simp_all add: md le_mod_geq le_div_geq)
    moreover from this(1) have "(x + y) mod P < y mod P" using False lt by linarith
    ultimately show ?thesis by (simp add: eq)
  qed
qed

lemma unat_of_nat_32: "unat (of_nat k :: 32 word) = k mod 4294967296"
  by (simp add: unat_of_nat take_bit_eq_mod)

lemma count_low: "push_bit 3 (of_nat n :: 32 word) = of_nat (8 * n)"
  by (simp add: push_bit_eq_mult mult.commute)

lemma unat_drop_bit_3: "unat (w :: 32 word) = 8 * k \<Longrightarrow> unat (drop_bit 3 w) = k"
  by (simp add: drop_bit_eq_div unat_div)

lemma md5_offset: "unat (drop_bit 3 (of_nat (8 * n) :: 32 word) AND 63) = n mod 64"
proof -
  have "unat (of_nat (8 * n) :: 32 word) = 8 * (n mod 536870912)"
    using mult_mod_right [of 8 n 536870912] by (simp only: unat_of_nat_32) simp
  then have "unat (drop_bit 3 (of_nat (8 * n) :: 32 word)) = n mod 536870912"
    by (rule unat_drop_bit_3)
  moreover have "x AND 63 = take_bit 6 x" for x :: "32 word"
    by (simp add: take_bit_eq_mask mask_eq_exp_minus_1)
  ultimately show ?thesis
    by (simp add: take_bit_eq_mod unat_mod mod_mod_cancel)
qed

lemma md5_count_update:
  fixes L n :: nat
  defines "c0 \<equiv> of_nat (8 * L) + push_bit 3 (word_of_int (int n)) :: 32 word"
  defines "c1 \<equiv> of_nat (8 * L div 4294967296) + word_of_int (drop_bit 29 (int n)) :: 32 word"
  shows "c0 = of_nat (8 * (L + n))"
    and "(if c0 < push_bit 3 (word_of_int (int n)) then c1 + 1 else c1)
           = of_nat (8 * (L + n) div 4294967296)"
proof -
  have nb: "push_bit 3 (word_of_int (int n)) = (of_nat (8 * n) :: 32 word)"
    using count_low [of n] by simp
  show c0: "c0 = of_nat (8 * (L + n))"
    unfolding c0_def nb by (simp add: distrib_left)
  have "drop_bit 29 (int n) = int (8 * n div 4294967296)"
    by (simp add: drop_bit_eq_div zdiv_int)
  then have c1: "c1 = of_nat (8 * L div 4294967296 + 8 * n div 4294967296)"
    unfolding c1_def by simp
  have "c0 < of_nat (8 * n) \<longleftrightarrow> (8 * L + 8 * n) mod 4294967296 < (8 * n) mod 4294967296"
    unfolding c0 word_less_nat_alt unat_of_nat_32 by (simp add: distrib_left)
  then show "(if c0 < push_bit 3 (word_of_int (int n)) then c1 + 1 else c1)
           = of_nat (8 * (L + n) div 4294967296)"
    unfolding nb c1 using carry_div [of 4294967296 "8 * L" "8 * n"] by (simp add: distrib_left)
qed

lemma md5_append_absorb:
  assumes "md5_inv m pms" "0 < n"
  shows "md5_append pms data (int n) =
     md5_absorb (pms\<lparr>md5_count := [of_nat (8 * (length m + n)), of_nat (8 * (length m + n) div 4294967296)]\<rparr>)
       (length m mod 64) data n"
proof -
  have cnt: "md5_count pms ! 0 = of_nat (8 * length m)"
      "md5_count pms ! 1 = of_nat (8 * length m div 4294967296)"
    using assms(1) by (simp_all add: md5_inv_def)
  show ?thesis
    unfolding md5_append_def cnt md5_offset Let_def
    using assms(2) md5_count_update [of "length m" n] by (simp only: nat_int) simp
qed

lemma absorb_full:
  assumes "md5_abcd pms = ref_regs_list r" "n \<le> length data" "length (md5_buf pms) = 64"
  shows "md5_abcd (md5_absorb pms 0 data n) = ref_regs_list (foldl ref_compress r (chunks (take n data)))"
    and "take (n mod 64) (md5_buf (md5_absorb pms 0 data n)) = tail64 (take n data)"
    and "length (md5_buf (md5_absorb pms 0 data n)) = 64"
    and "md5_count (md5_absorb pms 0 data n) = md5_count pms"
proof -
  from process_blocks_ref [OF assms(1,2)] obtain pms' q where
    pb: "process_blocks pms data n = (pms', q, n mod 64)"
      "take (n mod 64) q = tail64 (take n data)"
      "md5_abcd pms' = ref_regs_list (foldl ref_compress r (chunks (take n data)))"
      "md5_count pms' = md5_count pms" "md5_buf pms' = md5_buf pms"
    by blast
  have len: "length (tail64 (take n data)) = n mod 64" using assms(2) by (simp add: min_def)
  have "length (take (n mod 64) q) = n mod 64" using pb(2) len by simp
  then have q: "n mod 64 \<le> length q" by simp
  show "md5_abcd (md5_absorb pms 0 data n) = ref_regs_list (foldl ref_compress r (chunks (take n data)))"
    "md5_count (md5_absorb pms 0 data n) = md5_count pms"
    using pb by (auto simp: md5_absorb_def Let_def)
  show "take (n mod 64) (md5_buf (md5_absorb pms 0 data n)) = tail64 (take n data)"
    using pb q len assms by (auto simp: md5_absorb_def Let_def memcpy_def tail64_def split: if_splits)
  show "length (md5_buf (md5_absorb pms 0 data n)) = 64"
    using pb q assms by (auto simp: md5_absorb_def Let_def memcpy_def min_def)
qed

lemma absorb_any:
  assumes abcd: "md5_abcd pms = ref_regs_list r" and len: "length (md5_buf pms) = 64"
    and buf: "take (k mod 64) (md5_buf pms) = t" and n: "n \<le> length data"
  defines "s \<equiv> md5_absorb pms (k mod 64) data n"
  shows "md5_abcd s = ref_regs_list (foldl ref_compress r (chunks (t @ take n data))) \<and>
         length (md5_buf s) = 64 \<and>
         take ((k mod 64 + n) mod 64) (md5_buf s) = tail64 (t @ take n data) \<and>
         md5_count s = md5_count pms"
proof -
  let ?o = "k mod 64"
  have o: "?o < 64" and t: "length t = ?o" using len buf by auto
  consider "?o = 0" | "?o \<noteq> 0" "?o + n < 64" | "?o \<noteq> 0" "64 \<le> ?o + n" by linarith
  then show ?thesis
  proof cases
    case 1
    then show ?thesis
      using absorb_full [OF abcd n len] t by (simp add: s_def)
  next
    case 2
    have "s = pms\<lparr>md5_buf := memcpy (md5_buf pms) ?o data n\<rparr>"
      using 2 by (simp add: s_def md5_absorb_def Let_def)
    then show ?thesis using 2 abcd len buf n t
      by (simp add: memcpy_def chunks_short tail64_short min_def)
  next
    case 3
    let ?c = "64 - ?o"
    let ?b = "t @ take ?c data"
    have cp: "memcpy (md5_buf pms) ?o data ?c = ?b"
      using buf len o by (simp add: memcpy_def)
    have lb: "length ?b = 64" using 3 n t o by simp
    let ?p = "md5_process (pms\<lparr>md5_buf := ?b\<rparr>) ?b"
    have copy: "(if ?o + n > 64 then 64 - ?o else n) = ?c" using 3 by auto
    have s: "s = md5_absorb ?p 0 (drop ?c data) (n - ?c)"
      using 3 o unfolding s_def md5_absorb_def Let_def copy by (simp add: cp)
    have p: "md5_abcd ?p = ref_regs_list (ref_compress r ?b)"
      using abcd by (simp add: md5_process_ref)
    have tk: "t @ take n data = ?b @ take (n - ?c) (drop ?c data)"
      using 3 o by (simp add: take_add [symmetric] flip: append_assoc) (simp add: take_add [symmetric])
    have ch: "chunks (t @ take n data) = ?b # chunks (take (n - ?c) (drop ?c data))"
      unfolding tk using lb by (rule chunks_block)
    have tl: "tail64 (t @ take n data) = tail64 (take (n - ?c) (drop ?c data))"
      using tail64_step [of "t @ take n data"] lb unfolding tk by simp
    have md: "(?o + n) mod 64 = (n - ?c) mod 64"
      using 3 o by (simp add: le_mod_geq add.commute)
    have side: "n - ?c \<le> length (drop ?c data)" "length (md5_buf ?p) = 64"
      using n lb by simp_all
    note F = absorb_full [OF p side]
    show ?thesis
      unfolding s ch tl md foldl_Cons F by simp
  qed
qed

lemma md5_append_inv:
  assumes inv: "md5_inv m pms" and n: "n \<le> length data"
  shows "md5_inv (m @ take n data) (md5_append pms data (int n))"
proof (cases "n = 0")
  case True
  then show ?thesis using inv by (simp add: md5_append_def Let_def)
next
  case False
  let ?L = "length m" and ?o = "length m mod 64"
  define pms1 where "pms1 = pms\<lparr>md5_count :=
    [of_nat (8 * (?L + n)), of_nat (8 * (?L + n) div 4294967296)]\<rparr>"
  have app: "md5_append pms data (int n) = md5_absorb pms1 ?o data n"
    using md5_append_absorb [OF inv] False by (simp add: pms1_def)
  have 1: "md5_abcd pms1 = ref_regs_list (foldl ref_compress ref_init (chunks m))"
    "length (md5_buf pms1) = 64" "take ?o (md5_buf pms1) = tail64 m"
    using inv by (simp_all add: pms1_def md5_inv_def)
  have cnt: "md5_count pms1 = [of_nat (8 * length (m @ take n data)),
      of_nat (8 * length (m @ take n data) div 4294967296)]"
    using n by (simp add: pms1_def min_def)
  have key: "md5_abcd (md5_absorb pms1 ?o data n)
        = ref_regs_list (foldl ref_compress ref_init (chunks m @ chunks (tail64 m @ take n data)))"
      "length (md5_buf (md5_absorb pms1 ?o data n)) = 64"
      "take ((?o + n) mod 64) (md5_buf (md5_absorb pms1 ?o data n)) = tail64 (tail64 m @ take n data)"
      "md5_count (md5_absorb pms1 ?o data n) = md5_count pms1"
    using absorb_any [OF 1 n] by simp_all
  have "(?L + n) mod 64 = (?o + n) mod 64" by presburger
  then show ?thesis
    unfolding app md5_inv_def chunks_tail64 [of m] tail64_append [of m]
    using key cnt n by (simp add: min_def)
qed

lemma md5_init_inv: "length (md5_buf s0) = 64 \<Longrightarrow> md5_inv [] (md5_init s0)"
  by (simp add: md5_inv_def md5_init_def ref_init_def ref_regs_list_def chunks_short tail64_short T_MASK_def)

lemma md5_appends_inv:
  "md5_inv m pms \<Longrightarrow> md5_inv (m @ concat ds) (foldl (\<lambda>s d. md5_append s d (int (length d))) pms ds)"
proof (induction ds arbitrary: m pms)
  case Nil
  then show ?case by simp
next
  case (Cons d ds)
  from md5_append_inv [OF Cons.prems, of "length d" d]
  have "md5_inv (m @ d) (md5_append pms d (int (length d)))" by simp
  from Cons.IH [OF this] show ?case by simp
qed

lemma le_byte_count:
  assumes "i < 8"
  shows "le_byte [of_nat n, of_nat (n div 4294967296)] i = (of_nat (n div 2 ^ (8 * i)) :: 8 word)"
proof -
  have db: "ucast (drop_bit k (of_nat x :: 32 word)) = (of_nat (x div 2 ^ k) :: 8 word)" if "k \<le> 24" for k x
  proof (rule bit_word_eqI)
    fix j assume "j < LENGTH(8)"
    with that show "bit (ucast (drop_bit k (of_nat x :: 32 word)) :: 8 word) j = bit (of_nat (x div 2 ^ k) :: 8 word) j"
      by (simp add: bit_ucast_iff bit_drop_bit_eq bit_of_nat_iff drop_bit_eq_div [symmetric] add.commute)
  qed
  show ?thesis
  proof (cases "i < 4")
    case True
    then show ?thesis using db [of "8 * i" n] by (simp add: le_byte_def)
  next
    case False
    then have i: "i mod 4 = i - 4" "i div 4 = 1" using assms by (simp_all add: le_mod_geq le_div_geq)
    have "(n div 4294967296) div 2 ^ (8 * (i - 4)) = n div (2 ^ 32 * 2 ^ (8 * (i - 4)))"
      by (simp add: div_mult2_eq)
    also have "2 ^ 32 * 2 ^ (8 * (i - 4)) = (2::nat) ^ (8 * i)"
      using False assms power_add [of "2::nat" 32 "8 * (i - 4)"] by (simp add: algebra_simps)
    finally show ?thesis using db [of "8 * (i - 4)" "n div 4294967296"] assms False
      by (simp add: le_byte_def i)
  qed
qed

lemma pad_arith: "r < 64 \<Longrightarrow> (55 - int r) mod 64 = int ((119 - r) mod 64)"
proof -
  assume "r < 64"
  then have "int ((119 - r) mod 64) = ((55 - int r) + 64) mod 64"
    by (simp add: zmod_int of_nat_diff)
  then show ?thesis by (simp only: mod_add_self2)
qed

lemma md5_npad:
  "uint ((55 - drop_bit 3 (of_nat (8 * n) :: 32 word)) AND 63) = int ((119 - n mod 64) mod 64)"
proof -
  let ?w = "drop_bit 3 (of_nat (8 * n) :: 32 word)"
  have and63: "x AND 63 = take_bit 6 x" for x :: "32 word"
    by (simp add: take_bit_eq_mask mask_eq_exp_minus_1)
  have w: "uint (take_bit 6 ?w) = int (n mod 64)"
    using md5_offset [of n] unfolding and63 by (metis uint_nat)
  have "uint (take_bit 6 (55 - ?w)) = take_bit 6 (uint (55 - ?w))"
    by (simp add: unsigned_take_bit_eq)
  also have "\<dots> = take_bit 6 (55 - uint ?w)"
    by (simp add: uint_word_ariths take_bit_eq_mod mod_mod_cancel)
  also have "\<dots> = (55 - uint ?w mod 64) mod 64"
    by (simp add: take_bit_eq_mod mod_simps)
  also have "uint ?w mod 64 = int (n mod 64)"
    using w by (simp add: take_bit_eq_mod uint_mod)
  also have "(55 - int (n mod 64)) mod 64 = int ((119 - n mod 64) mod 64)"
    by (rule pad_arith) simp
  finally show ?thesis unfolding and63 .
qed

lemma md5_finish_ref:
  assumes inv: "md5_inv m pms"
  shows "md5_finish pms = md5_ref m"
proof -
  let ?k = "(119 - length m mod 64) mod 64"
  have cnt: "md5_count pms = [of_nat (8 * length m), of_nat (8 * length m div 4294967296)]"
    using inv by (simp add: md5_inv_def)
  have npad: "uint ((55 - drop_bit 3 (md5_count pms ! 0)) AND 63) + 1 = int (?k + 1)"
    unfolding cnt nth_Cons_0 md5_npad by simp
  have k: "?k + 1 \<le> length md5_pad" by (simp add: md5_pad_def)
  have tp: "take (?k + 1) md5_pad = 0x80 # replicate ?k 0"
    using k by (simp add: md5_pad_def)
  let ?p1 = "md5_append pms md5_pad (int (?k + 1))"
  have 1: "md5_inv (m @ take (?k + 1) md5_pad) ?p1"
    by (rule md5_append_inv [OF inv k])
  have data: "map (le_byte (md5_count pms)) [0..<8] = ref_length_bytes (length m)"
    unfolding cnt ref_length_bytes_def by (intro map_cong refl le_byte_count) simp
  let ?p2 = "md5_append ?p1 (ref_length_bytes (length m)) 8"
  have "md5_inv ((m @ take (?k + 1) md5_pad) @ take 8 (ref_length_bytes (length m))) ?p2"
    using md5_append_inv [OF 1, of 8 "ref_length_bytes (length m)"] by (simp add: ref_length_bytes_def)
  then have "md5_inv (ref_pad m) ?p2"
    unfolding tp by (simp add: ref_pad_def ref_length_bytes_def)
  then have "md5_abcd ?p2 = ref_regs_list (foldl ref_compress ref_init (chunks (ref_pad m)))"
    by (simp add: md5_inv_def)
  then show ?thesis
    unfolding md5_finish_def Let_def npad data md5_ref_def by simp
qed



end
