(* ===== verification/Parse_Tree.thy ===== *)
theory Parse_Tree
  imports Cpp_Library
begin

text \<open>
  The parse tree of the compiler (\<^verbatim>\<open>compiler/cpp/src/parse/*.h\<close>). Every class is a record
  whose extension follows the class hierarchy (\<^verbatim>\<open>t_doc\<close> below \<^verbatim>\<open>t_type\<close> below
  \<^verbatim>\<open>t_struct\<close>, \<dots>); a pointer to a type, a field or a program is an address in an explicit
  heap, so that the sharing of the code (a field reachable through two vectors of its struct, a
  type reachable through a scope and through its program) is sharing in the model. The virtual
  \<^verbatim>\<open>is_...\<close> methods are functions on the sum of the classes. A field that a constructor
  leaves uninitialised is an option that starts as \<open>None\<close>.
\<close>

section \<open>Documentation and types\<close>

type_synonym addr = nat

type_synonym annotations = "(string \<times> string) list"

text \<open>A C++ \<^verbatim>\<open>double\<close>, by its IEEE 754 bits: the compiler only stores and prints them.\<close>

type_synonym double = "64 word"

record t_doc =
  doc :: string
  has_doc :: bool

record t_type = t_doc +
  ty_name :: string
  ty_program :: "addr option"
  ty_annotations :: annotations
  ty_fingerprint :: "8 word list"

datatype t_base =
    TYPE_VOID | TYPE_STRING | TYPE_BOOL | TYPE_BYTE | TYPE_I16 | TYPE_I32 | TYPE_I64 | TYPE_DOUBLE

record t_base_type = t_type +
  bt_base :: t_base
  bt_string_list :: bool
  bt_binary :: bool
  bt_string_enum :: bool
  bt_string_enum_vals :: "string list"

record t_typedef = t_type +
  td_type :: "addr option"
  td_symbolic :: string
  td_forward :: bool
  td_seen :: bool

record t_enum_value = t_doc +
  ev_name :: string
  ev_value :: int
  ev_annotations :: annotations

record t_enum = t_type +
  en_constants :: "t_enum_value list"

record t_container = t_type +
  ct_cpp_name :: string
  ct_has_cpp_name :: bool

record t_list = t_container +
  li_elem_type :: addr

record t_set = t_container +
  se_elem_type :: addr

record t_map = t_container +
  ma_key_type :: addr
  ma_val_type :: addr

record t_struct = t_type +
  st_members :: "addr list"
  st_members_in_id_order :: "addr list"
  st_is_xception :: bool
  st_is_union :: bool
  st_members_validated :: bool
  st_members_with_value :: int
  st_xsd_all :: bool

record t_function = t_doc +
  fn_returntype :: addr
  fn_name :: string
  fn_arglist :: addr
  fn_xceptions :: addr
  fn_oneway :: bool
  fn_annotations :: annotations

record t_service = t_type +
  sv_functions :: "t_function list"
  sv_extends :: "addr option"

datatype t_type_obj =
    Base_type t_base_type
  | Typedef t_typedef
  | Enum t_enum
  | Struct t_struct
  | List_type t_list
  | Set_type t_set
  | Map_type t_map
  | Service t_service

section \<open>Constants, fields, scopes, programs\<close>

datatype t_const_value_type =
    CV_INTEGER | CV_DOUBLE | CV_STRING | CV_MAP | CV_LIST | CV_IDENTIFIER

text \<open>
  A constant value with the address it was allocated at: \<^verbatim>\<open>mapVal_\<close> is a map from pointers
  to pointers, so its iteration order is the order of the keys' addresses. \<^verbatim>\<open>enum_\<close> has
  three states: uninitialised, null, and a pointer.
\<close>

datatype t_const_value =
  CV (cv_addr: addr)
    (cv_valType: "t_const_value_type option")
    (cv_intVal: "int option")
    (cv_doubleVal: "double option")
    (cv_stringVal: string)
    (cv_identifierVal: string)
    (cv_enum: "addr option option")
    (cv_listVal: "t_const_value list")
    (cv_mapVal: "(t_const_value \<times> t_const_value) list")

datatype e_req = T_REQUIRED | T_OPTIONAL | T_OPT_IN_REQ_OUT

record t_field = t_doc +
  fl_type :: addr
  fl_name :: string
  fl_key :: int
  fl_req :: "e_req option"
  fl_value :: "t_const_value option"
  fl_xsd_optional :: bool
  fl_xsd_nillable :: bool
  fl_xsd_attrs :: "addr option"
  fl_reference :: bool
  fl_annotations :: annotations

record t_const = t_doc +
  co_type :: addr
  co_name :: string
  co_value :: t_const_value

record t_scope =
  sc_types :: "(string \<times> addr option) list"
  sc_constants :: "(string \<times> t_const option) list"
  sc_services :: "(string \<times> addr option) list"

record t_program = t_doc +
  pr_path :: string
  pr_name :: string
  pr_out_path :: string
  pr_out_path_is_absolute :: bool
  pr_namespace :: string
  pr_includes :: "addr list"
  pr_include_prefix :: string
  pr_scope :: t_scope
  pr_typedefs :: "addr list"
  pr_enums :: "addr list"
  pr_consts :: "t_const list"
  pr_objects :: "addr list"
  pr_structs :: "addr list"
  pr_xceptions :: "addr list"
  pr_services :: "addr list"
  pr_namespaces :: "(string \<times> string) list"
  pr_cpp_includes :: "string list"
  pr_c_includes :: "string list"

record heap =
  h_types :: "addr \<rightharpoonup> t_type_obj"
  h_fields :: "addr \<rightharpoonup> t_field"
  h_programs :: "addr \<rightharpoonup> t_program"
  h_next :: addr

section \<open>Accessors of the class hierarchy\<close>

fun type_part :: "t_type_obj \<Rightarrow> t_type" where
  "type_part (Base_type b) = t_type.truncate b"
| "type_part (Typedef td) = t_type.truncate td"
| "type_part (Enum e) = t_type.truncate e"
| "type_part (Struct s) = t_type.truncate s"
| "type_part (List_type l) = t_type.truncate l"
| "type_part (Set_type l) = t_type.truncate l"
| "type_part (Map_type m) = t_type.truncate m"
| "type_part (Service sv) = t_type.truncate sv"

definition get_name :: "t_type_obj \<Rightarrow> string" where
  "get_name t = ty_name (type_part t)"

definition get_program :: "t_type_obj \<Rightarrow> addr option" where
  "get_program t = ty_program (type_part t)"

definition type_has_doc :: "t_type_obj \<Rightarrow> bool" where
  "type_has_doc t = has_doc (type_part t)"

definition type_get_doc :: "t_type_obj \<Rightarrow> string" where
  "type_get_doc t = doc (type_part t)"

fun is_void :: "t_type_obj \<Rightarrow> bool" where
  "is_void (Base_type b) = (bt_base b = TYPE_VOID)"
| "is_void _ = False"

fun is_base_type :: "t_type_obj \<Rightarrow> bool" where
  "is_base_type (Base_type b) = True"
| "is_base_type _ = False"

fun is_string :: "t_type_obj \<Rightarrow> bool" where
  "is_string (Base_type b) = (bt_base b = TYPE_STRING)"
| "is_string _ = False"

fun is_bool :: "t_type_obj \<Rightarrow> bool" where
  "is_bool (Base_type b) = (bt_base b = TYPE_BOOL)"
| "is_bool _ = False"

fun is_typedef :: "t_type_obj \<Rightarrow> bool" where
  "is_typedef (Typedef td) = True"
| "is_typedef _ = False"

fun is_enum :: "t_type_obj \<Rightarrow> bool" where
  "is_enum (Enum e) = True"
| "is_enum _ = False"

fun is_struct :: "t_type_obj \<Rightarrow> bool" where
  "is_struct (Struct s) = (\<not> st_is_xception s)"
| "is_struct _ = False"

fun is_xception :: "t_type_obj \<Rightarrow> bool" where
  "is_xception (Struct s) = st_is_xception s"
| "is_xception _ = False"

fun is_list :: "t_type_obj \<Rightarrow> bool" where
  "is_list (List_type l) = True"
| "is_list _ = False"

fun is_set :: "t_type_obj \<Rightarrow> bool" where
  "is_set (Set_type l) = True"
| "is_set _ = False"

fun is_map :: "t_type_obj \<Rightarrow> bool" where
  "is_map (Map_type m) = True"
| "is_map _ = False"

fun is_container :: "t_type_obj \<Rightarrow> bool" where
  "is_container (List_type l) = True"
| "is_container (Set_type l) = True"
| "is_container (Map_type m) = True"
| "is_container _ = False"

fun is_service :: "t_type_obj \<Rightarrow> bool" where
  "is_service (Service sv) = True"
| "is_service _ = False"

definition is_string_list :: "t_base_type \<Rightarrow> bool" where
  "is_string_list b \<longleftrightarrow> bt_base b = TYPE_STRING \<and> bt_string_list b"

definition is_binary :: "t_base_type \<Rightarrow> bool" where
  "is_binary b \<longleftrightarrow> bt_base b = TYPE_STRING \<and> bt_binary b"

definition is_string_enum :: "t_base_type \<Rightarrow> bool" where
  "is_string_enum b \<longleftrightarrow> bt_base b = TYPE_STRING \<and> bt_string_enum b"

definition add_string_enum_val :: "string \<Rightarrow> t_base_type \<Rightarrow> t_base_type" where
  "add_string_enum_val v b = b\<lparr>bt_string_enum_vals := bt_string_enum_vals b @ [v]\<rparr>"

fun t_base_name :: "t_base \<Rightarrow> string" where
  "t_base_name TYPE_VOID = ''void''"
| "t_base_name TYPE_STRING = ''string''"
| "t_base_name TYPE_BOOL = ''bool''"
| "t_base_name TYPE_BYTE = ''byte''"
| "t_base_name TYPE_I16 = ''i16''"
| "t_base_name TYPE_I32 = ''i32''"
| "t_base_name TYPE_I64 = ''i64''"
| "t_base_name TYPE_DOUBLE = ''double''"

section \<open>Construction\<close>

definition no_fingerprint :: "8 word list" where
  "no_fingerprint = replicate 16 0"

definition new_base_type :: "string \<Rightarrow> t_base \<Rightarrow> t_base_type" where
  "new_base_type name base =
     \<lparr>doc = '''', has_doc = False, ty_name = name, ty_program = None, ty_annotations = [],
      ty_fingerprint = no_fingerprint, bt_base = base, bt_string_list = False, bt_binary = False,
      bt_string_enum = False, bt_string_enum_vals = []\<rparr>"

definition new_typedef :: "addr \<Rightarrow> addr \<Rightarrow> string \<Rightarrow> t_typedef" where
  "new_typedef program ty symbolic =
     \<lparr>doc = '''', has_doc = False, ty_name = symbolic, ty_program = Some program,
      ty_annotations = [], ty_fingerprint = no_fingerprint, td_type = Some ty,
      td_symbolic = symbolic, td_forward = False, td_seen = False\<rparr>"

definition new_forward_typedef :: "addr \<Rightarrow> string \<Rightarrow> bool \<Rightarrow> t_typedef" where
  "new_forward_typedef program symbolic forward =
     \<lparr>doc = '''', has_doc = False, ty_name = symbolic, ty_program = Some program,
      ty_annotations = [], ty_fingerprint = no_fingerprint, td_type = None,
      td_symbolic = symbolic, td_forward = forward, td_seen = False\<rparr>"

definition new_enum :: "addr \<Rightarrow> t_enum" where
  "new_enum program =
     \<lparr>doc = '''', has_doc = False, ty_name = '''', ty_program = Some program, ty_annotations = [],
      ty_fingerprint = no_fingerprint, en_constants = []\<rparr>"

definition new_enum_value :: "string \<Rightarrow> int \<Rightarrow> t_enum_value" where
  "new_enum_value name value =
     \<lparr>doc = '''', has_doc = False, ev_name = name, ev_value = value, ev_annotations = []\<rparr>"

definition new_list :: "addr \<Rightarrow> t_list" where
  "new_list elem =
     \<lparr>doc = '''', has_doc = False, ty_name = '''', ty_program = None, ty_annotations = [],
      ty_fingerprint = no_fingerprint, ct_cpp_name = '''', ct_has_cpp_name = False,
      li_elem_type = elem\<rparr>"

definition new_set :: "addr \<Rightarrow> t_set" where
  "new_set elem =
     \<lparr>doc = '''', has_doc = False, ty_name = '''', ty_program = None, ty_annotations = [],
      ty_fingerprint = no_fingerprint, ct_cpp_name = '''', ct_has_cpp_name = False,
      se_elem_type = elem\<rparr>"

definition new_map :: "addr \<Rightarrow> addr \<Rightarrow> t_map" where
  "new_map k v =
     \<lparr>doc = '''', has_doc = False, ty_name = '''', ty_program = None, ty_annotations = [],
      ty_fingerprint = no_fingerprint, ct_cpp_name = '''', ct_has_cpp_name = False,
      ma_key_type = k, ma_val_type = v\<rparr>"

definition set_cpp_name :: "string \<Rightarrow> 'a t_container_scheme \<Rightarrow> 'a t_container_scheme" where
  "set_cpp_name cpp_name c = c\<lparr>ct_cpp_name := cpp_name, ct_has_cpp_name := True\<rparr>"

definition new_struct :: "addr option \<Rightarrow> string \<Rightarrow> t_struct" where
  "new_struct program name =
     \<lparr>doc = '''', has_doc = False, ty_name = name, ty_program = program, ty_annotations = [],
      ty_fingerprint = no_fingerprint, st_members = [], st_members_in_id_order = [],
      st_is_xception = False, st_is_union = False, st_members_validated = False,
      st_members_with_value = 0, st_xsd_all = False\<rparr>"

definition new_service :: "addr \<Rightarrow> t_service" where
  "new_service program =
     \<lparr>doc = '''', has_doc = False, ty_name = '''', ty_program = Some program, ty_annotations = [],
      ty_fingerprint = no_fingerprint, sv_functions = [], sv_extends = None\<rparr>"

text \<open>The two constructors of \<^verbatim>\<open>t_field\<close>: the one without a key leaves \<^verbatim>\<open>req_\<close> uninitialised.\<close>

definition new_field_unkeyed :: "addr \<Rightarrow> string \<Rightarrow> t_field" where
  "new_field_unkeyed ty name =
     \<lparr>doc = '''', has_doc = False, fl_type = ty, fl_name = name, fl_key = 0, fl_req = None,
      fl_value = None, fl_xsd_optional = False, fl_xsd_nillable = False, fl_xsd_attrs = None,
      fl_reference = False, fl_annotations = []\<rparr>"

definition new_field :: "addr \<Rightarrow> string \<Rightarrow> int \<Rightarrow> t_field" where
  "new_field ty name key =
     (new_field_unkeyed ty name)\<lparr>fl_key := key, fl_req := Some T_OPT_IN_REQ_OUT\<rparr>"

definition new_const :: "addr \<Rightarrow> string \<Rightarrow> t_const_value \<Rightarrow> t_const" where
  "new_const ty name value =
     \<lparr>doc = '''', has_doc = False, co_type = ty, co_name = name, co_value = value\<rparr>"

text \<open>Allocation, at an address no pointer holds yet.\<close>

definition alloc_type :: "t_type_obj \<Rightarrow> heap \<Rightarrow> addr \<times> heap" where
  "alloc_type t h = (h_next h, h\<lparr>h_types := (h_types h)(h_next h \<mapsto> t), h_next := Suc (h_next h)\<rparr>)"

definition alloc_field :: "t_field \<Rightarrow> heap \<Rightarrow> addr \<times> heap" where
  "alloc_field f h = (h_next h, h\<lparr>h_fields := (h_fields h)(h_next h \<mapsto> f), h_next := Suc (h_next h)\<rparr>)"

definition put_type :: "addr \<Rightarrow> t_type_obj \<Rightarrow> heap \<Rightarrow> heap" where
  "put_type a t h = h\<lparr>h_types := (h_types h)(a \<mapsto> t)\<rparr>"

definition put_field :: "addr \<Rightarrow> t_field \<Rightarrow> heap \<Rightarrow> heap" where
  "put_field a f h = h\<lparr>h_fields := (h_fields h)(a \<mapsto> f)\<rparr>"

definition put_program :: "addr \<Rightarrow> t_program \<Rightarrow> heap \<Rightarrow> heap" where
  "put_program a p h = h\<lparr>h_programs := (h_programs h)(a \<mapsto> p)\<rparr>"

lemma heap_put_simps [simp]:
  "h_types (put_type a t h) = (h_types h)(a \<mapsto> t)" "h_fields (put_type a t h) = h_fields h"
  "h_programs (put_type a t h) = h_programs h" "h_next (put_type a t h) = h_next h"
  "h_types (put_field a f h) = h_types h" "h_fields (put_field a f h) = (h_fields h)(a \<mapsto> f)"
  "h_programs (put_field a f h) = h_programs h" "h_next (put_field a f h) = h_next h"
  "h_types (put_program a p h) = h_types h" "h_fields (put_program a p h) = h_fields h"
  "h_programs (put_program a p h) = (h_programs h)(a \<mapsto> p)" "h_next (put_program a p h) = h_next h"
  by (simp_all add: put_type_def put_field_def put_program_def)

section \<open>Enumerations\<close>

definition enum_append :: "t_enum_value \<Rightarrow> t_enum \<Rightarrow> t_enum" where
  "enum_append c e = e\<lparr>en_constants := en_constants e @ [c]\<rparr>"

fun constant_by_name :: "t_enum_value list \<Rightarrow> string \<Rightarrow> t_enum_value option" where
  "constant_by_name [] name = None"
| "constant_by_name (c # cs) name = (if ev_name c = name then Some c else constant_by_name cs name)"

definition get_constant_by_name :: "t_enum \<Rightarrow> string \<Rightarrow> t_enum_value option" where
  "get_constant_by_name e name = constant_by_name (en_constants e) name"

fun constant_by_value :: "t_enum_value list \<Rightarrow> int \<Rightarrow> t_enum_value option" where
  "constant_by_value [] value = None"
| "constant_by_value (c # cs) value = (if ev_value c = value then Some c else constant_by_value cs value)"

definition get_constant_by_value :: "t_enum \<Rightarrow> int \<Rightarrow> t_enum_value option" where
  "get_constant_by_value e value = constant_by_value (en_constants e) value"

fun min_value_loop :: "t_enum_value list \<Rightarrow> t_enum_value \<Rightarrow> t_enum_value" where
  "min_value_loop [] m = m"
| "min_value_loop (c # cs) m = min_value_loop cs (if ev_value c < ev_value m then c else m)"

definition get_min_value :: "t_enum \<Rightarrow> t_enum_value option" where
  "get_min_value e =
     (case en_constants e of [] \<Rightarrow> None | c # cs \<Rightarrow> Some (min_value_loop (c # cs) c))"

fun max_value_loop :: "t_enum_value list \<Rightarrow> t_enum_value \<Rightarrow> t_enum_value" where
  "max_value_loop [] m = m"
| "max_value_loop (c # cs) m = max_value_loop cs (if ev_value c > ev_value m then c else m)"

definition get_max_value :: "t_enum \<Rightarrow> t_enum_value option" where
  "get_max_value e =
     (if en_constants e = [] then None
      else Some (max_value_loop (en_constants e) (last (en_constants e))))"

lemma min_value_loop:
  "min_value_loop cs m \<in> insert m (set cs) \<and> (\<forall>c \<in> insert m (set cs). ev_value (min_value_loop cs m) \<le> ev_value c)"
proof (induction cs arbitrary: m)
  case Nil
  then show ?case by simp
next
  case (Cons c cs)
  from Cons.IH [of "if ev_value c < ev_value m then c else m"] show ?case
    by (cases "ev_value c < ev_value m") auto
qed

lemma max_value_loop:
  "max_value_loop cs m \<in> insert m (set cs) \<and> (\<forall>c \<in> insert m (set cs). ev_value c \<le> ev_value (max_value_loop cs m))"
proof (induction cs arbitrary: m)
  case Nil
  then show ?case by simp
next
  case (Cons c cs)
  from Cons.IH [of "if ev_value c > ev_value m then c else m"] show ?case
    by (cases "ev_value c > ev_value m") auto
qed

lemma constant_by_name_Some:
  "constant_by_name cs name = Some c \<Longrightarrow> c \<in> set cs \<and> ev_name c = name"
  by (induction cs) (auto split: if_splits)

lemma constant_by_name_None: "constant_by_name cs name = None \<longleftrightarrow> name \<notin> ev_name ` set cs"
  by (induction cs) auto

lemma constant_by_value_Some:
  "constant_by_value cs value = Some c \<Longrightarrow> c \<in> set cs \<and> ev_value c = value"
  by (induction cs) (auto split: if_splits)

lemma constant_by_value_None: "constant_by_value cs value = None \<longleftrightarrow> value \<notin> ev_value ` set cs"
  by (induction cs) auto

text \<open>
  \<^verbatim>\<open>get_min_value\<close> and \<^verbatim>\<open>get_max_value\<close> of an enumeration return null exactly when
  it has no constants; otherwise they return constants of the enumeration between whose values
  every other value lies, although the two scans start from different ends of the vector.
\<close>

lemma enum_min_max_bounds:
  "(get_min_value e = None \<longleftrightarrow> en_constants e = []) \<and>
   (get_max_value e = None \<longleftrightarrow> en_constants e = []) \<and>
   (\<forall>lo hi. get_min_value e = Some lo \<longrightarrow> get_max_value e = Some hi \<longrightarrow>
      lo \<in> set (en_constants e) \<and> hi \<in> set (en_constants e) \<and>
      (\<forall>c \<in> set (en_constants e). ev_value lo \<le> ev_value c \<and> ev_value c \<le> ev_value hi))"
proof (cases "en_constants e")
  case Nil
  then show ?thesis by (simp add: get_min_value_def get_max_value_def)
next
  case (Cons c cs)
  then have ne: "en_constants e \<noteq> []" by simp
  have lo: "get_min_value e = Some (min_value_loop (en_constants e) c)"
    using Cons by (simp add: get_min_value_def)
  have hi: "get_max_value e = Some (max_value_loop (en_constants e) (last (en_constants e)))"
    using ne by (simp add: get_max_value_def)
  have "c \<in> set (en_constants e)" "last (en_constants e) \<in> set (en_constants e)"
    using Cons by auto
  then show ?thesis
    using lo hi ne min_value_loop [of "en_constants e" c]
      max_value_loop [of "en_constants e" "last (en_constants e)"]
    by (auto simp: insert_absorb)
qed

end
