(* ===== verification/Types.thy ===== *)
theory Types
  imports Parse_Tree
begin

text \<open>
  Lookups in a scope and typedef resolution (\<^verbatim>\<open>t_scope.h\<close>,
  \<^verbatim>\<open>t_typedef.cc\<close>, \<^verbatim>\<open>parse.cc\<close>). The loops that follow
  pointers through the heap take fuel: forward typedefs are resolved by name, so nothing in the
  data structure keeps a chain of typedefs from being circular. The lemmas say how much fuel is
  enough and when no amount is.
\<close>

section \<open>Lookups in a scope\<close>

text \<open>
  The lookups use \<^verbatim>\<open>std::map::operator[]\<close>, which stores a null entry under a key it does
  not find.
\<close>

definition add_type :: "string \<Rightarrow> addr \<Rightarrow> t_scope \<Rightarrow> t_scope" where
  "add_type name ty sc = sc\<lparr>sc_types := smap_set name (Some ty) (sc_types sc)\<rparr>"

definition get_type :: "string \<Rightarrow> t_scope \<Rightarrow> addr option \<times> t_scope" where
  "get_type name sc =
     (case smap_find (sc_types sc) name of
        Some p \<Rightarrow> (p, sc)
      | None \<Rightarrow> (None, sc\<lparr>sc_types := smap_set name None (sc_types sc)\<rparr>))"

definition add_service :: "string \<Rightarrow> addr \<Rightarrow> t_scope \<Rightarrow> t_scope" where
  "add_service name sv sc = sc\<lparr>sc_services := smap_set name (Some sv) (sc_services sc)\<rparr>"

definition get_service :: "string \<Rightarrow> t_scope \<Rightarrow> addr option \<times> t_scope" where
  "get_service name sc =
     (case smap_find (sc_services sc) name of
        Some p \<Rightarrow> (p, sc)
      | None \<Rightarrow> (None, sc\<lparr>sc_services := smap_set name None (sc_services sc)\<rparr>))"

definition add_constant :: "string \<Rightarrow> t_const \<Rightarrow> t_scope \<Rightarrow> t_scope outcome" where
  "add_constant name c sc =
     (if smap_find (sc_constants sc) name \<noteq> None
      then Throw (''Enum '' @ name @ '' is already defined!'')
      else Ok (sc\<lparr>sc_constants := smap_set name (Some c) (sc_constants sc)\<rparr>))"

definition get_constant :: "string \<Rightarrow> t_scope \<Rightarrow> t_const option \<times> t_scope" where
  "get_constant name sc =
     (case smap_find (sc_constants sc) name of
        Some p \<Rightarrow> (p, sc)
      | None \<Rightarrow> (None, sc\<lparr>sc_constants := smap_set name None (sc_constants sc)\<rparr>))"

section \<open>Typedefs\<close>

definition typedef_get_type :: "heap \<Rightarrow> t_typedef \<Rightarrow> addr outcome" where
  "typedef_get_type h td =
     (case td_type td of
        Some ty \<Rightarrow> Ok ty
      | None \<Rightarrow>
          bind_outcome (deref (ty_program td)) (\<lambda>p.
          bind_outcome (deref (h_programs h p)) (\<lambda>prog.
            (case fst (get_type (td_symbolic td) (pr_scope prog)) of
               None \<Rightarrow> Exit (''Type \"'' @ td_symbolic td @ ''\" not defined'')
             | Some ty \<Rightarrow> Ok ty))))"

lemma typedef_get_type_returns: "typedef_get_type h td \<noteq> Out_of_fuel"
  by (cases "td_type td"; cases "ty_program td"; cases "h_programs h (the (ty_program td))")
    (simp_all add: typedef_get_type_def split: option.splits)

fun get_true_type :: "nat \<Rightarrow> heap \<Rightarrow> addr \<Rightarrow> addr outcome" where
  "get_true_type 0 h ty = Out_of_fuel"
| "get_true_type (Suc n) h ty =
     bind_outcome (deref (h_types h ty)) (\<lambda>t.
       (case t of
          Typedef td \<Rightarrow> bind_outcome (typedef_get_type h td) (get_true_type n h)
        | _ \<Rightarrow> Ok ty))"

text \<open>One iteration of the loop: the type a typedef stands for.\<close>

inductive typedef_step :: "heap \<Rightarrow> addr \<Rightarrow> addr \<Rightarrow> bool" for h where
  step: "h_types h ty = Some (Typedef td) \<Longrightarrow> typedef_get_type h td = Ok ty' \<Longrightarrow> typedef_step h ty ty'"

inductive_simps typedef_step_iff: "typedef_step h ty ty'"

lemma typedef_step_functional: "typedef_step h a b \<Longrightarrow> typedef_step h a c \<Longrightarrow> b = c"
  by (auto simp: typedef_step_iff)

lemma get_true_type_step:
  "typedef_step h ty ty' \<Longrightarrow> get_true_type (Suc n) h ty = get_true_type n h ty'"
  by (auto simp: typedef_step_iff)

lemma get_true_type_no_step:
  assumes "\<not> (\<exists>ty'. typedef_step h ty ty')"
  shows "get_true_type (Suc n) h ty \<noteq> Out_of_fuel"
    and "get_true_type (Suc m) h ty = get_true_type (Suc n) h ty"
proof -
  note typedef_get_type_returns [of h]
  moreover have "typedef_get_type h td \<noteq> Ok x" if "h_types h ty = Some (Typedef td)" for td x
    using assms that by (auto simp: typedef_step_iff)
  ultimately have *: "bind_outcome (typedef_get_type h td) f \<noteq> Out_of_fuel \<and>
      bind_outcome (typedef_get_type h td) f = bind_outcome (typedef_get_type h td) g"
    if "h_types h ty = Some (Typedef td)" for td and f g :: "addr \<Rightarrow> addr outcome"
    using that by (cases "typedef_get_type h td") auto
  show "get_true_type (Suc n) h ty \<noteq> Out_of_fuel"
  proof (cases "h_types h ty")
    case (Some t)
    then show ?thesis using * by (cases t) simp_all
  qed simp
  show "get_true_type (Suc m) h ty = get_true_type (Suc n) h ty"
  proof (cases "h_types h ty")
    case (Some t)
    then show ?thesis
    proof (cases t)
      case (Typedef td)
      with Some * [of td "get_true_type m h" "get_true_type n h"] show ?thesis by simp
    qed simp_all
  qed simp
qed

text \<open>Without the fuel, the loop ends exactly when the chain of typedefs does.\<close>

lemma get_true_type_exhausted:
  "get_true_type n h ty = Out_of_fuel \<longleftrightarrow> (\<exists>ty'. (typedef_step h ^^ n) ty ty')"
proof (induction n arbitrary: ty)
  case 0
  then show ?case by simp
next
  case (Suc n)
  show ?case
  proof (cases "\<exists>z. typedef_step h ty z")
    case True
    then obtain z where z: "typedef_step h ty z" by blast
    have "(\<exists>ty'. (typedef_step h ^^ Suc n) ty ty') \<longleftrightarrow> (\<exists>ty'. (typedef_step h ^^ n) z ty')"
      using z typedef_step_functional by (metis relpowp_Suc_E2 relpowp_Suc_I2)
    with Suc.IH [of z] get_true_type_step [OF z, of n] show ?thesis by simp
  next
    case False
    then have "\<not> (typedef_step h ^^ Suc n) ty ty'" for ty'
      by (metis relpowp_Suc_E2)
    with get_true_type_no_step(1) [OF False] show ?thesis by blast
  qed
qed

lemma get_true_type_mono:
  "get_true_type n h ty \<noteq> Out_of_fuel \<Longrightarrow> n \<le> m \<Longrightarrow> get_true_type m h ty = get_true_type n h ty"
proof (induction n arbitrary: ty m)
  case 0
  then show ?case by simp
next
  case (Suc n)
  then obtain m' where m: "m = Suc m'" "n \<le> m'" by (cases m) auto
  show ?case
  proof (cases "\<exists>z. typedef_step h ty z")
    case True
    then obtain z where z: "typedef_step h ty z" by blast
    with Suc.prems(1) have "get_true_type n h z \<noteq> Out_of_fuel"
      by (metis get_true_type_step)
    then have "get_true_type m' h z = get_true_type n h z" by (rule Suc.IH) (fact m)
    then show ?thesis by (metis get_true_type_step z m(1))
  next
    case False
    from get_true_type_no_step(2) [OF False] show ?thesis unfolding m(1) .
  qed
qed

lemma get_true_type_Ok:
  "get_true_type n h ty = Ok ty' \<Longrightarrow> \<exists>t. h_types h ty' = Some t \<and> \<not> is_typedef t"
proof (induction n arbitrary: ty)
  case (Suc n)
  then obtain t where t: "h_types h ty = Some t" by (cases "h_types h ty") auto
  with Suc show ?case by (cases t) auto
qed simp

text \<open>A chain of typedefs longer than the number of types comes back to a type it has met.\<close>

definition typedef_next :: "heap \<Rightarrow> addr \<Rightarrow> addr option" where
  "typedef_next h ty =
     (case h_types h ty of
        Some (Typedef td) \<Rightarrow> (case typedef_get_type h td of Ok ty' \<Rightarrow> Some ty' | _ \<Rightarrow> None)
      | _ \<Rightarrow> None)"

lemma typedef_next_step: "typedef_next h ty = Some ty' \<longleftrightarrow> typedef_step h ty ty'"
  by (auto simp: typedef_next_def typedef_step_iff split: option.splits t_type_obj.splits outcome.splits)

fun typedef_chain :: "heap \<Rightarrow> addr \<Rightarrow> nat \<Rightarrow> addr option" where
  "typedef_chain h ty 0 = Some ty"
| "typedef_chain h ty (Suc k) =
     (case typedef_chain h ty k of None \<Rightarrow> None | Some z \<Rightarrow> typedef_next h z)"

lemma typedef_chain_relpowp: "typedef_chain h ty k = Some ty' \<longleftrightarrow> (typedef_step h ^^ k) ty ty'"
proof (induction k arbitrary: ty')
  case 0
  then show ?case by auto
next
  case (Suc k)
  show ?case
  proof (cases "typedef_chain h ty k")
    case None
    with Suc.IH show ?thesis by (auto simp: relcompp_apply)
  next
    case (Some z)
    with Suc.IH have "(typedef_step h ^^ k) ty w \<longleftrightarrow> w = z" for w by (metis option.inject)
    with Some show ?thesis by (auto simp: relcompp_apply typedef_next_step)
  qed
qed

lemma typedef_chain_period:
  assumes "typedef_chain h ty (i + d) = typedef_chain h ty i"
  shows "typedef_chain h ty (i + d + k) = typedef_chain h ty (i + k)"
proof (induction k)
  case (Suc k)
  then show ?case by simp
qed (simp add: assms)

lemma typedef_chain_defined_below:
  "typedef_chain h ty n \<noteq> None \<Longrightarrow> k \<le> n \<Longrightarrow> typedef_chain h ty k \<noteq> None"
  by (induction n) (auto simp: le_Suc_eq split: option.splits)

lemma typedef_chain_infinite:
  assumes period: "typedef_chain h ty (i + d) = typedef_chain h ty i" and d: "0 < d"
    and defined: "typedef_chain h ty i \<noteq> None"
  shows "typedef_chain h ty n \<noteq> None"
proof -
  have "typedef_chain h ty (i + j * d) = typedef_chain h ty i" for j
  proof (induction j)
    case (Suc j)
    have "i + Suc j * d = i + d + j * d" by simp
    with typedef_chain_period [OF period, of "j * d"] Suc show ?case by metis
  qed simp
  then have "typedef_chain h ty (i + n * d) \<noteq> None" using defined by simp
  moreover have "n \<le> i + n * d" using d by (cases d) auto
  ultimately show ?thesis by (rule typedef_chain_defined_below)
qed

lemma typedef_chain_dom:
  "typedef_chain h ty (Suc k) \<noteq> None \<Longrightarrow> typedef_chain h ty k \<in> Some ` dom (h_types h)"
  by (auto simp: typedef_next_def split: option.splits)

lemma typedef_chain_pigeonhole:
  assumes fin: "finite (dom (h_types h))"
    and long: "typedef_chain h ty (Suc (card (dom (h_types h)))) \<noteq> None"
  shows "typedef_chain h ty n \<noteq> None"
proof -
  let ?D = "dom (h_types h)"
  have defined: "typedef_chain h ty k \<noteq> None" if "k \<le> Suc (card ?D)" for k
    using typedef_chain_defined_below [OF long that] .
  have "typedef_chain h ty ` {..card ?D} \<subseteq> Some ` ?D"
    by (intro image_subsetI typedef_chain_dom defined) simp
  then have "card (typedef_chain h ty ` {..card ?D}) \<le> card (Some ` ?D)"
    by (intro card_mono finite_imageI fin)
  also have "\<dots> < card {..card ?D}" using card_image_le [OF fin, of Some] by simp
  finally have "\<not> inj_on (typedef_chain h ty) {..card ?D}" by (rule pigeonhole)
  then obtain i j where ij: "i \<le> card ?D" "j \<le> card ?D" "i \<noteq> j"
      "typedef_chain h ty i = typedef_chain h ty j"
    by (auto simp: inj_on_def)
  define a b where "a = min i j" and "b = max i j"
  have ab: "a < b" "b \<le> card ?D" "typedef_chain h ty b = typedef_chain h ty a"
    using ij by (auto simp: a_def b_def min_def max_def)
  then have "typedef_chain h ty (a + (b - a)) = typedef_chain h ty a" by simp
  moreover have "typedef_chain h ty a \<noteq> None" using ab by (intro defined) simp
  moreover have "0 < b - a" using ab(1) by simp
  ultimately show ?thesis by (metis typedef_chain_infinite)
qed

lemma get_true_type_exhausted_chain:
  "get_true_type n h ty = Out_of_fuel \<longleftrightarrow> typedef_chain h ty n \<noteq> None"
  by (auto simp: get_true_type_exhausted typedef_chain_relpowp [symmetric])

text \<open>
  C22: The loop of \<^verbatim>\<open>t_type::get_true_type\<close> either ends within as many iterations as there
  are types, plus one, or never. When it ends with a type, that type is not a typedef and
  resolving it again gives itself.
\<close>

theorem get_true_type_total:
  assumes "finite (dom (h_types h))"
  shows "(get_true_type (Suc (card (dom (h_types h)))) h ty = Out_of_fuel \<longleftrightarrow>
            (\<forall>n. get_true_type n h ty = Out_of_fuel)) \<and>
         (\<forall>n ty'. get_true_type n h ty = Ok ty' \<longrightarrow>
            (\<exists>t. h_types h ty' = Some t \<and> \<not> is_typedef t) \<and>
            get_true_type (Suc (card (dom (h_types h)))) h ty = Ok ty' \<and>
            get_true_type (Suc 0) h ty' = Ok ty')"
proof (intro conjI allI impI)
  let ?k = "Suc (card (dom (h_types h)))"
  show *: "get_true_type ?k h ty = Out_of_fuel \<longleftrightarrow> (\<forall>n. get_true_type n h ty = Out_of_fuel)"
    unfolding get_true_type_exhausted_chain using typedef_chain_pigeonhole [OF assms, of ty] by blast
  fix n ty' assume ok: "get_true_type n h ty = Ok ty'"
  show "\<exists>t. h_types h ty' = Some t \<and> \<not> is_typedef t" by (rule get_true_type_Ok [OF ok])
  then obtain t where "h_types h ty' = Some t" "\<not> is_typedef t" by blast
  then show "get_true_type (Suc 0) h ty' = Ok ty'" by (cases t) simp_all
  have "get_true_type ?k h ty \<noteq> Out_of_fuel" using * ok by (metis outcome.distinct(7))
  with get_true_type_mono [of n h ty "max n ?k"] get_true_type_mono [of ?k h ty "max n ?k"] ok
  show "get_true_type ?k h ty = Ok ty'" by simp
qed

text \<open>A heap whose types 1 and 3 resolve to the base type 0, while the typedef 2 stands for itself.\<close>

definition sample_scope :: t_scope where
  "sample_scope = \<lparr>sc_types = [(''age'', Some 1), (''foo'', Some 2)], sc_constants = [], sc_services = []\<rparr>"

definition sample_program :: t_program where
  "sample_program =
     \<lparr>doc = '''', has_doc = False, pr_path = ''a.thrift'', pr_name = ''a'', pr_out_path = ''./'',
      pr_out_path_is_absolute = False, pr_namespace = '''', pr_includes = [], pr_include_prefix = '''',
      pr_scope = sample_scope, pr_typedefs = [1, 2], pr_enums = [], pr_consts = [], pr_objects = [],
      pr_structs = [], pr_xceptions = [], pr_services = [], pr_namespaces = [], pr_cpp_includes = [],
      pr_c_includes = []\<rparr>"

definition sample_heap :: heap where
  "sample_heap =
     \<lparr>h_types = [0 \<mapsto> Base_type (new_base_type ''i32'' TYPE_I32), 1 \<mapsto> Typedef (new_typedef 9 0 ''age''),
        2 \<mapsto> Typedef (new_typedef 9 4 ''foo''), 3 \<mapsto> Typedef (new_forward_typedef 9 ''age'' True),
        4 \<mapsto> Typedef (new_forward_typedef 9 ''foo'' True)],
      h_fields = Map.empty, h_programs = [9 \<mapsto> sample_program], h_next = 10\<rparr>"

lemmas sample_defs = sample_heap_def sample_program_def sample_scope_def new_typedef_def
  new_forward_typedef_def new_base_type_def get_type_def typedef_get_type_def

theorem get_true_type_total_witness:
  "finite (dom (h_types sample_heap)) \<and> get_true_type (Suc (Suc (Suc 0))) sample_heap 3 = Ok 0 \<and>
   get_true_type (Suc (card (dom (h_types sample_heap)))) sample_heap 3 = Ok 0"
proof -
  have fin: "finite (dom (h_types sample_heap))" by (simp add: sample_heap_def)
  have ok: "get_true_type (Suc (Suc (Suc 0))) sample_heap 3 = Ok 0"
    by code_simp
  from get_true_type_total [OF fin, THEN conjunct2, rule_format, OF ok] fin ok show ?thesis
    by (elim conjE) (intro conjI)
qed

end
