(* ===== verification/Fingerprint.thy ===== *)
theory Fingerprint
  imports Types Md5
begin

text \<open>
  Type fingerprints: the \<^verbatim>\<open>get_fingerprint_material\<close> and \<^verbatim>\<open>generate_fingerprint\<close>
  methods of the type classes and their MD5 digests (\<^verbatim>\<open>t_type.h\<close>, \<^verbatim>\<open>parse.cc\<close>,
  \<^verbatim>\<open>t_typedef.h\<close>, \<^verbatim>\<open>t_struct.h\<close>, \<dots>). The material is a recursive walk of a
  cyclic graph that marks the typedefs on the way down; the lemmas show that the walk ends and
  undoes its marks, and that the material identifies the wire format of a type.
\<close>

unbundle bit_operations_syntax

section \<open>Fingerprints\<close>

definition fingerprint_len :: nat where
  "fingerprint_len = 16"

definition has_fingerprint :: "t_type_obj \<Rightarrow> bool" where
  "has_fingerprint t \<longleftrightarrow> (\<exists>b \<in> set (ty_fingerprint (type_part t)). b \<noteq> 0)"

definition set_seen :: "addr \<Rightarrow> bool \<Rightarrow> heap \<Rightarrow> heap" where
  "set_seen ty b h =
     (case h_types h ty of
        Some (Typedef td) \<Rightarrow> put_type ty (Typedef (td\<lparr>td_seen := b\<rparr>)) h
      | _ \<Rightarrow> h)"

definition base_fingerprint_material :: "t_base_type \<Rightarrow> string outcome" where
  "base_fingerprint_material b =
     (let rv = t_base_name (bt_base b)
      in if rv = ''(unknown)'' then Throw ''BUG: Can't get fingerprint material for this base type.''
         else Ok rv)"

lemma base_fingerprint_material_Ok [simp]: "base_fingerprint_material b = Ok (t_base_name (bt_base b))"
  by (cases "bt_base b") (simp_all add: base_fingerprint_material_def)

text \<open>
  The material of a field, over the material of its type. A field made by the constructor without
  a key has no \<^verbatim>\<open>req_\<close>: reading it is undefined.
\<close>

definition field_prefix :: "t_field \<Rightarrow> e_req \<Rightarrow> string" where
  "field_prefix f req = show_int (fl_key f) @ '':'' @ (if req = T_OPTIONAL then ''opt-'' else '''')"

definition field_fingerprint_material :: "(addr \<Rightarrow> (heap, string) action) \<Rightarrow> addr \<Rightarrow> (heap, string) action" where
  "field_fingerprint_material material fa =
     bindA (getsO (\<lambda>h. deref (h_fields h fa))) (\<lambda>f.
     bindA (getsO (\<lambda>h. deref (fl_req f))) (\<lambda>req.
     bindA (material (fl_type f)) (\<lambda>m. returnA (field_prefix f req @ m))))"

fun members_fingerprint_material ::
  "(addr \<Rightarrow> (heap, string) action) \<Rightarrow> addr list \<Rightarrow> (heap, string) action" where
  "members_fingerprint_material material [] = returnA ''''"
| "members_fingerprint_material material (fa # fas) =
     bindA (field_fingerprint_material material fa) (\<lambda>m.
     bindA (members_fingerprint_material material fas) (\<lambda>ms. returnA (m @ '';'' @ ms)))"

primrec get_fingerprint_material :: "nat \<Rightarrow> addr \<Rightarrow> (heap, string) action" where
  "get_fingerprint_material 0 = (\<lambda>ty h. (Out_of_fuel, h))"
| "get_fingerprint_material (Suc n) = (\<lambda>ty.
     bindA (getsO (\<lambda>h. deref (h_types h ty))) (\<lambda>t.
       (case t of
          Base_type b \<Rightarrow> getsO (\<lambda>_. base_fingerprint_material b)
        | Typedef td \<Rightarrow>
            if td_seen td then returnA ''''
            else seqA (modify (set_seen ty True))
              (bindA (getsO (\<lambda>h. typedef_get_type h td)) (\<lambda>ty'.
               bindA (get_fingerprint_material n ty') (\<lambda>ret.
               seqA (modify (set_seen ty False)) (returnA ret))))
        | Enum e \<Rightarrow> returnA ''enum''
        | Struct s \<Rightarrow>
            bindA (members_fingerprint_material (get_fingerprint_material n) (st_members_in_id_order s))
              (\<lambda>ms. returnA (''{'' @ ms @ ''}''))
        | List_type l \<Rightarrow>
            bindA (get_fingerprint_material n (li_elem_type l)) (\<lambda>m. returnA (''list<'' @ m @ ''>''))
        | Set_type l \<Rightarrow>
            bindA (get_fingerprint_material n (se_elem_type l)) (\<lambda>m. returnA (''set<'' @ m @ ''>''))
        | Map_type m \<Rightarrow>
            bindA (get_fingerprint_material n (ma_key_type m)) (\<lambda>k.
            bindA (get_fingerprint_material n (ma_val_type m)) (\<lambda>v.
              returnA (''map<'' @ k @ '','' @ v @ ''>'')))
        | Service sv \<Rightarrow> throwA ''BUG: Can't get fingerprint material for service.'')))"

definition set_fingerprint :: "8 word list \<Rightarrow> t_type_obj \<Rightarrow> t_type_obj" where
  "set_fingerprint fp t =
     (case t of
        Base_type b \<Rightarrow> Base_type (b\<lparr>ty_fingerprint := fp\<rparr>)
      | Typedef td \<Rightarrow> Typedef (td\<lparr>ty_fingerprint := fp\<rparr>)
      | Enum e \<Rightarrow> Enum (e\<lparr>ty_fingerprint := fp\<rparr>)
      | Struct s \<Rightarrow> Struct (s\<lparr>ty_fingerprint := fp\<rparr>)
      | List_type l \<Rightarrow> List_type (l\<lparr>ty_fingerprint := fp\<rparr>)
      | Set_type l \<Rightarrow> Set_type (l\<lparr>ty_fingerprint := fp\<rparr>)
      | Map_type m \<Rightarrow> Map_type (m\<lparr>ty_fingerprint := fp\<rparr>)
      | Service sv \<Rightarrow> Service (sv\<lparr>ty_fingerprint := fp\<rparr>))"

definition store_fingerprint :: "addr \<Rightarrow> 8 word list \<Rightarrow> heap \<Rightarrow> heap" where
  "store_fingerprint ty fp h =
     (case h_types h ty of None \<Rightarrow> h | Some t \<Rightarrow> put_type ty (set_fingerprint fp t) h)"

text \<open>
  The bytes of a string, and the digest of the material: the state starts with a buffer of
  unknown contents, of which the digest is independent (see \<open>md5_incremental_digest\<close>), so it
  is given as zeros.
\<close>

definition string_bytes :: "string \<Rightarrow> 8 word list" where
  "string_bytes s = map (\<lambda>c. word_of_nat (of_char c)) s"

definition material_digest :: "string \<Rightarrow> 8 word list" where
  "material_digest material =
     (let ctx = md5_init \<lparr>md5_count = [], md5_abcd = [], md5_buf = replicate 64 0\<rparr>;
          ctx = md5_append ctx (string_bytes material) (int (length material))
      in md5_finish ctx)"

definition type_generate_fingerprint :: "nat \<Rightarrow> addr \<Rightarrow> (heap, unit) action" where
  "type_generate_fingerprint n ty =
     bindA (getsO (\<lambda>h. deref (h_types h ty))) (\<lambda>t.
       whenA (\<not> has_fingerprint t)
         (bindA (get_fingerprint_material n ty) (\<lambda>material.
            modify (store_fingerprint ty (material_digest material)))))"

text \<open>
  The virtual \<^verbatim>\<open>generate_fingerprint\<close>; \<open>n\<close> bounds the recursion of this method and
  \<open>k\<close> that of the material.
\<close>

primrec generate_fingerprint :: "nat \<Rightarrow> nat \<Rightarrow> addr \<Rightarrow> (heap, unit) action" where
  "generate_fingerprint 0 = (\<lambda>k ty h. (Out_of_fuel, h))"
| "generate_fingerprint (Suc n) = (\<lambda>k ty.
     seqA (type_generate_fingerprint k ty)
       (bindA (getsO (\<lambda>h. deref (h_types h ty))) (\<lambda>t.
          (case t of
             Typedef td \<Rightarrow>
               bindA (getsO (\<lambda>h. typedef_get_type h td)) (\<lambda>ty'.
               bindA (getsO (\<lambda>h. deref (h_types h ty'))) (\<lambda>t'.
                 whenA (\<not> has_fingerprint t') (generate_fingerprint n k ty')))
           | Struct s \<Rightarrow>
               for_each (st_members_in_id_order s) (\<lambda>fa.
                 bindA (getsO (\<lambda>h. deref (h_fields h fa))) (\<lambda>f. generate_fingerprint n k (fl_type f)))
           | List_type l \<Rightarrow> generate_fingerprint n k (li_elem_type l)
           | Set_type l \<Rightarrow> generate_fingerprint n k (se_elem_type l)
           | Map_type m \<Rightarrow>
               seqA (generate_fingerprint n k (ma_key_type m)) (generate_fingerprint n k (ma_val_type m))
           | _ \<Rightarrow> returnA ()))))"

definition get_binary_fingerprint :: "nat \<Rightarrow> nat \<Rightarrow> addr \<Rightarrow> (heap, 8 word list) action" where
  "get_binary_fingerprint n k ty =
     bindA (getsO (\<lambda>h. deref (h_types h ty))) (\<lambda>t.
     seqA (whenA (\<not> has_fingerprint t) (generate_fingerprint n k ty))
       (bindA (getsO (\<lambda>h. deref (h_types h ty))) (\<lambda>t. returnA (ty_fingerprint (type_part t)))))"

definition nybble_to_xdigit :: "int \<Rightarrow> char" where
  "nybble_to_xdigit num = (if num < 10 then char_of (48 + num) else char_of (65 + num - 10))"

definition byte_to_hex :: "8 word \<Rightarrow> string" where
  "byte_to_hex byte = [nybble_to_xdigit (uint (drop_bit 4 byte)), nybble_to_xdigit (uint (byte AND 0x0F))]"

definition get_ascii_fingerprint :: "nat \<Rightarrow> nat \<Rightarrow> addr \<Rightarrow> (heap, string) action" where
  "get_ascii_fingerprint n k ty =
     bindA (get_binary_fingerprint n k ty) (\<lambda>fp. returnA (concat (map byte_to_hex fp)))"

section \<open>The walk ends and undoes its marks\<close>

fun type_children :: "heap \<Rightarrow> t_type_obj \<Rightarrow> addr set" where
  "type_children h (Struct s) =
     {fl_type f | fa f. fa \<in> set (st_members_in_id_order s) \<and> h_fields h fa = Some f}"
| "type_children h (List_type l) = {li_elem_type l}"
| "type_children h (Set_type l) = {se_elem_type l}"
| "type_children h (Map_type m) = {ma_key_type m, ma_val_type m}"
| "type_children h _ = {}"

text \<open>
  Containers and structs are built from types that exist already, so without the typedefs the
  type graph is acyclic: a rank decreases along every edge that is not a typedef's.
\<close>

definition ranked :: "heap \<Rightarrow> (addr \<Rightarrow> nat) \<Rightarrow> nat \<Rightarrow> bool" where
  "ranked h r K \<longleftrightarrow> (\<forall>a. r a \<le> K) \<and>
     (\<forall>a t b. h_types h a = Some t \<longrightarrow> b \<in> type_children h t \<longrightarrow> r b < r a)"

definition unseen :: "heap \<Rightarrow> addr set" where
  "unseen h = {a. \<exists>td. h_types h a = Some (Typedef td) \<and> \<not> td_seen td}"

lemma type_children_cong: "h_fields h = h_fields h' \<Longrightarrow> type_children h t = type_children h' t"
  by (cases t) auto

lemma typedef_get_type_programs:
  "h_programs h = h_programs h' \<Longrightarrow> typedef_get_type h td = typedef_get_type h' td"
  unfolding typedef_get_type_def by (simp only:)

lemma set_seen_frame [simp]:
  "h_fields (set_seen ty b h) = h_fields h" "h_programs (set_seen ty b h) = h_programs h"
  by (simp_all add: set_seen_def split: option.splits t_type_obj.splits)

lemma set_seen_types:
  "h_types h ty = Some (Typedef td) \<Longrightarrow>
     h_types (set_seen ty b h) = (h_types h)(ty \<mapsto> Typedef (td\<lparr>td_seen := b\<rparr>))"
  by (simp add: set_seen_def)

lemma set_seen_restore:
  assumes "h_types h ty = Some (Typedef td)" "\<not> td_seen td"
  shows "set_seen ty False (set_seen ty True h) = h"
proof -
  have "td\<lparr>td_seen := True, td_seen := False\<rparr> = td" using assms(2) by (cases td) simp
  then have "(h_types h)(ty \<mapsto> Typedef (td\<lparr>td_seen := False\<rparr>)) = h_types h"
    using assms(1) by (auto simp: fun_eq_iff)
  with assms(1) show ?thesis by (simp add: set_seen_def put_type_def)
qed

lemma ranked_set_seen:
  assumes "ranked h r K" "h_types h ty = Some (Typedef td)"
  shows "ranked (set_seen ty b h) r K"
  using assms type_children_cong [of "set_seen ty b h" h]
  by (auto simp: ranked_def set_seen_types split: if_splits)

lemma unseen_set_seen:
  assumes "h_types h ty = Some (Typedef td)"
  shows "unseen (set_seen ty True h) = unseen h - {ty}"
  using assms by (auto simp: unseen_def set_seen_types split: if_splits)

lemma leaves_members:
  assumes "\<And>fa f. fa \<in> set fas \<Longrightarrow> h_fields h fa = Some f \<Longrightarrow> leaves h (material (fl_type f))"
  shows "leaves h (members_fingerprint_material material fas)"
  using assms
proof (induction fas)
  case (Cons fa fas)
  have "leaves h (material (fl_type f))" if "h_fields h fa = Some f" for f
    using Cons.prems [of fa f] that by simp
  then have "leaves h (field_fingerprint_material material fa)"
    unfolding field_fingerprint_material_def by (auto intro!: leaves_bind leaves_deref)
  with Cons show ?case by (auto intro!: leaves_bind)
qed simp

lemma leaves_typedef:
  assumes ty: "h_types h ty = Some (Typedef td)" "\<not> td_seen td"
    and mat: "\<And>ty'. typedef_get_type h td = Ok ty' \<Longrightarrow> leaves (set_seen ty True h) (m ty')"
  shows "leaves h (seqA (modify (set_seen ty True))
           (bindA (getsO (\<lambda>h. typedef_get_type h td)) (\<lambda>ty'.
            bindA (m ty') (\<lambda>ret. seqA (modify (set_seen ty False)) (returnA ret)))))"
proof -
  let ?h = "set_seen ty True h"
  have eq: "typedef_get_type ?h td = typedef_get_type h td"
    by (rule typedef_get_type_programs) simp
  show ?thesis
  proof (cases "typedef_get_type h td")
    case (Ok ty')
    obtain out h2 where m: "m ty' ?h = (out, h2)" by (cases "m ty' ?h")
    with mat [OF Ok] have "out \<noteq> Out_of_fuel" "\<And>x. out = Ok x \<Longrightarrow> h2 = ?h"
      by (auto simp: leaves_def)
    with m Ok eq set_seen_restore [OF ty] show ?thesis
      by (cases out) (auto simp: leaves_def action_simps)
  qed (use eq typedef_get_type_returns [of h td] in \<open>auto simp: leaves_def action_simps\<close>)
qed

lemma get_fingerprint_material_leaves:
  "ranked h r K \<Longrightarrow> finite (unseen h) \<Longrightarrow> card (unseen h) * Suc K + r ty < n \<Longrightarrow>
     leaves h (get_fingerprint_material n ty)"
proof (induction n arbitrary: h ty)
  case (Suc n)
  note IH = Suc.IH [OF Suc.prems(1,2)]
  show ?case
    unfolding get_fingerprint_material.simps
  proof (rule leaves_bind [OF leaves_deref], unfold getsO_eq_Ok deref_eq_Ok, elim conjE)
    fix t assume t: "h_types h ty = Some t"
    have child: "leaves h (get_fingerprint_material n b)" if "b \<in> type_children h t" for b
      using IH [of b] Suc.prems t that by (fastforce simp: ranked_def)
    show "leaves h (case t of
          Base_type b \<Rightarrow> getsO (\<lambda>_. base_fingerprint_material b)
        | Typedef td \<Rightarrow>
            if td_seen td then returnA ''''
            else seqA (modify (set_seen ty True))
              (bindA (getsO (\<lambda>h. typedef_get_type h td)) (\<lambda>ty'.
               bindA (get_fingerprint_material n ty') (\<lambda>ret.
               seqA (modify (set_seen ty False)) (returnA ret))))
        | Enum e \<Rightarrow> returnA ''enum''
        | Struct s \<Rightarrow>
            bindA (members_fingerprint_material (get_fingerprint_material n) (st_members_in_id_order s))
              (\<lambda>ms. returnA (''{'' @ ms @ ''}''))
        | List_type l \<Rightarrow>
            bindA (get_fingerprint_material n (li_elem_type l)) (\<lambda>m. returnA (''list<'' @ m @ ''>''))
        | Set_type l \<Rightarrow>
            bindA (get_fingerprint_material n (se_elem_type l)) (\<lambda>m. returnA (''set<'' @ m @ ''>''))
        | Map_type m \<Rightarrow>
            bindA (get_fingerprint_material n (ma_key_type m)) (\<lambda>k.
            bindA (get_fingerprint_material n (ma_val_type m)) (\<lambda>v.
              returnA (''map<'' @ k @ '','' @ v @ ''>'')))
        | Service sv \<Rightarrow> throwA ''BUG: Can't get fingerprint material for service.'')"
    proof (cases t)
      case (Base_type b)
      then show ?thesis by auto
    next
      case (Typedef td)
      have "leaves (set_seen ty True h) (get_fingerprint_material n ty')" if "\<not> td_seen td" for ty'
      proof (rule Suc.IH)
        from t Typedef show "ranked (set_seen ty True h) r K" by (simp add: ranked_set_seen Suc.prems)
        have u: "unseen (set_seen ty True h) = unseen h - {ty}" using t Typedef by (simp add: unseen_set_seen)
        show "finite (unseen (set_seen ty True h))" using u Suc.prems by simp
        have "ty \<in> unseen h" using t Typedef that by (simp add: unseen_def)
        then have "card (unseen h) = Suc (card (unseen h - {ty}))"
          using Suc.prems(2) by (metis card_Suc_Diff1)
        moreover have "r ty' \<le> K" using Suc.prems(1) by (simp add: ranked_def)
        ultimately show "card (unseen (set_seen ty True h)) * Suc K + r ty' < n"
          using Suc.prems(3) by (simp add: u)
      qed
      with t Typedef show ?thesis by (auto intro!: leaves_typedef)
    next
      case (Struct s)
      then show ?thesis using child by (auto intro!: leaves_bind leaves_members)
    qed (use child in \<open>auto intro!: leaves_bind\<close>)
  qed
qed simp

text \<open>
  C21: The walk of \<^verbatim>\<open>get_fingerprint_material\<close> through a type graph that is recursive
  through typedefs always comes to an end: within a number of nested calls given by the number of
  unmarked typedefs and the depth of the graph between two typedefs. When it returns a string,
  every \<^verbatim>\<open>seen_\<close> mark it set is cleared again and nothing else has changed.
\<close>

theorem fingerprint_walk_ends:
  assumes "ranked h r K" "finite (unseen h)" "card (unseen h) * Suc K + r ty < n"
  shows "fst (get_fingerprint_material n ty h) \<noteq> Out_of_fuel \<and>
         (\<forall>m. fst (get_fingerprint_material n ty h) = Ok m \<longrightarrow> snd (get_fingerprint_material n ty h) = h)"
  using get_fingerprint_material_leaves [OF assms] by (simp add: leaves_def)

text \<open>A recursive struct: \<^verbatim>\<open>struct Node { 2: list<Node> kids; 7: optional Node next }\<close>.\<close>

definition node_heap :: heap where
  "node_heap =
     \<lparr>h_types = [0 \<mapsto> Struct ((new_struct (Some 9) ''Node'')\<lparr>st_members := [5, 6], st_members_in_id_order := [5, 6]\<rparr>),
        1 \<mapsto> Typedef (new_forward_typedef 9 ''Node'' True), 2 \<mapsto> List_type (new_list 1),
        3 \<mapsto> Typedef (new_forward_typedef 9 ''Node'' True)],
      h_fields = [5 \<mapsto> new_field 2 ''kids'' 2, 6 \<mapsto> (new_field 3 ''next'' 7)\<lparr>fl_req := Some T_OPTIONAL\<rparr>],
      h_programs = [9 \<mapsto> sample_program\<lparr>pr_scope := sample_scope\<lparr>sc_types := [(''Node'', Some 0)]\<rparr>\<rparr>],
      h_next = 10\<rparr>"

definition node_rank :: "addr \<Rightarrow> nat" where
  "node_rank a = (if a = 0 then 2 else if a = 2 then 1 else 0)"

lemma node_heap_ranked: "ranked node_heap node_rank 2"
  by (auto simp: ranked_def node_heap_def node_rank_def new_struct_def new_list_def new_field_def
      new_field_unkeyed_def split: if_splits)

lemma node_heap_unseen: "unseen node_heap = {1, 3}"
  by (auto simp: unseen_def node_heap_def new_forward_typedef_def split: if_splits)

theorem fingerprint_walk_ends_witness:
  "ranked node_heap node_rank 2 \<and> finite (unseen node_heap) \<and>
   card (unseen node_heap) * Suc 2 + node_rank 0 < 10 \<and>
   fst (get_fingerprint_material 10 0 node_heap) \<noteq> Out_of_fuel"
  using fingerprint_walk_ends [of node_heap node_rank 2 0 10] node_heap_ranked
  by (simp add: node_heap_unseen node_rank_def)

section \<open>The material identifies the wire format\<close>

text \<open>
  What the dense protocol sees of a type: base types by their kind, enums without their constants,
  fields by key and optionality, and typedefs resolved.
\<close>

datatype shape =
    Sh_base t_base
  | Sh_enum
  | Sh_list shape
  | Sh_set shape
  | Sh_map shape shape
  | Sh_struct "(int \<times> bool \<times> shape) list"

fun print_shape :: "shape \<Rightarrow> string" where
  "print_shape (Sh_base b) = t_base_name b"
| "print_shape Sh_enum = ''enum''"
| "print_shape (Sh_list s) = ''list<'' @ print_shape s @ ''>''"
| "print_shape (Sh_set s) = ''set<'' @ print_shape s @ ''>''"
| "print_shape (Sh_map k v) = ''map<'' @ print_shape k @ '','' @ print_shape v @ ''>''"
| "print_shape (Sh_struct fs) =
     ''{'' @ concat (map (\<lambda>(key, opt, s).
        show_int key @ '':'' @ (if opt then ''opt-'' else '''') @ print_shape s @ '';'') fs) @ ''}''"

definition print_field :: "int \<times> bool \<times> shape \<Rightarrow> string" where
  "print_field f = (case f of (key, opt, s) \<Rightarrow>
     show_int key @ '':'' @ (if opt then ''opt-'' else '''') @ print_shape s @ '';'')"

lemma print_struct: "print_shape (Sh_struct fs) = ''{'' @ concat (map print_field fs) @ ''}''"
  by (simp add: print_field_def [abs_def])

declare print_shape.simps(6) [simp del]

text \<open>The first characters tell the kinds apart, also from \<^verbatim>\<open>opt-\<close>.\<close>

lemma t_base_name_prefix_free:
  "t_base_name b @ x = t_base_name b' @ y \<Longrightarrow> b = b' \<and> x = y"
  by (cases b; cases b') simp_all

lemma t_base_name_head:
  "t_base_name b @ x \<noteq> ''enum'' @ y" "t_base_name b @ x \<noteq> ''list<'' @ y"
  "t_base_name b @ x \<noteq> ''set<'' @ y" "t_base_name b @ x \<noteq> ''map<'' @ y"
  "t_base_name b @ x \<noteq> ''{'' @ y" "t_base_name b @ x \<noteq> ''opt-'' @ y"
  by (cases b; simp)+

lemma print_shape_not_opt: "print_shape s @ x \<noteq> ''opt-'' @ y"
  using t_base_name_head by (cases s) (simp_all add: print_struct)

lemma print_field_head: "print_field f @ x \<noteq> ''}'' @ y"
proof -
  obtain key opt s where f: "f = (key, opt, s)" by (metis prod_cases3)
  obtain c cs where c: "show_int key = c # cs" by (cases "show_int key") auto
  then have "is_digit c \<or> c = CHR ''-''" using show_int_chars [of c key] by simp
  moreover have "\<not> is_digit (CHR ''}'')" by code_simp
  ultimately have "c \<noteq> CHR ''}''" by auto
  with c show ?thesis by (simp add: f print_field_def)
qed

lemma print_field_delimited:
  assumes eq: "print_field (key, opt, s) @ x = print_field (key', opt', s') @ y"
    and IH: "\<And>x y. print_shape s @ x = print_shape s' @ y \<Longrightarrow> s = s' \<and> x = y"
  shows "(key, opt, s) = (key', opt', s') \<and> x = y"
proof -
  let ?rest = "\<lambda>opt s x. (if opt then ''opt-'' else '''') @ print_shape s @ '';'' @ x"
  have "\<not> is_digit (CHR '':'')" by code_simp
  then have "key = key' \<and> ?rest opt s x = ?rest opt' s' y"
    using show_int_delimited [of "CHR '':''" key "?rest opt s x" key' "?rest opt' s' y"] eq
    by (simp add: print_field_def)
  moreover from this have "opt = opt'"
    using print_shape_not_opt [of s "'';'' @ x" "print_shape s' @ '';'' @ y"]
      print_shape_not_opt [of s' "'';'' @ y" "print_shape s @ '';'' @ x"]
    by (cases opt; cases opt') auto
  ultimately have "key = key'" "opt = opt'" "print_shape s @ '';'' @ x = print_shape s' @ '';'' @ y"
    by auto
  with IH [of "'';'' @ x" "'';'' @ y"] show ?thesis by simp
qed

lemma print_fields_delimited:
  assumes "\<And>f s' x y. f \<in> set fs \<Longrightarrow> print_shape (snd (snd f)) @ x = print_shape s' @ y \<Longrightarrow>
      snd (snd f) = s' \<and> x = y"
    and "concat (map print_field fs) @ ''}'' @ x = concat (map print_field fs') @ ''}'' @ y"
  shows "fs = fs' \<and> x = y"
  using assms
proof (induction fs arbitrary: fs')
  case Nil
  then show ?case using print_field_head by (cases fs') (auto, metis append_Cons append_Nil)
next
  case (Cons f fs)
  show ?case
  proof (cases fs')
    case Nil
    with Cons.prems(2) print_field_head [of f] show ?thesis by auto
  next
    case (Cons f' fs2)
    obtain key opt s where f: "f = (key, opt, s)" by (metis prod_cases3)
    obtain key' opt' s' where f': "f' = (key', opt', s')" by (metis prod_cases3)
    from Cons.prems(2) have eq: "print_field f @ (concat (map print_field fs) @ ''}'' @ x) =
        print_field f' @ (concat (map print_field fs2) @ ''}'' @ y)" by (simp add: Cons)
    have "f = f' \<and> concat (map print_field fs) @ ''}'' @ x = concat (map print_field fs2) @ ''}'' @ y"
      unfolding f f' using eq Cons.prems(1) [of f]
      by (intro print_field_delimited) (auto simp: f f')
    moreover from this have "fs = fs2 \<and> x = y"
      using Cons.prems(1) by (intro Cons.IH) (blast intro: list.set_intros(2))+
    ultimately show ?thesis by (simp add: Cons)
  qed
qed

lemma print_shape_inv:
  "print_shape s @ x = t_base_name b @ y \<Longrightarrow> s = Sh_base b \<and> x = y"
  "print_shape s @ x = ''enum'' @ y \<Longrightarrow> s = Sh_enum \<and> x = y"
  "print_shape s @ x = ''list<'' @ y \<Longrightarrow> \<exists>e. s = Sh_list e \<and> print_shape e @ ''>'' @ x = y"
  "print_shape s @ x = ''set<'' @ y \<Longrightarrow> \<exists>e. s = Sh_set e \<and> print_shape e @ ''>'' @ x = y"
  "print_shape s @ x = ''map<'' @ y \<Longrightarrow>
     \<exists>k v. s = Sh_map k v \<and> print_shape k @ '','' @ print_shape v @ ''>'' @ x = y"
  "print_shape s @ x = ''{'' @ y \<Longrightarrow>
     \<exists>fs. s = Sh_struct fs \<and> concat (map print_field fs) @ ''}'' @ x = y"
  using t_base_name_prefix_free [of _ x b y] t_base_name_head [of b y]
  subgoal by (cases s; simp add: print_struct; metis)
  using t_base_name_head [of _ x y]
  by (cases s; simp add: print_struct)+

lemma print_shape_prefix_free:
  "print_shape s @ x = print_shape s' @ y \<Longrightarrow> s = s' \<and> x = y"
proof (induction s arbitrary: s' x y)
  case (Sh_base b)
  then show ?case using print_shape_inv(1) [of s' y b x] by simp
next
  case Sh_enum
  then show ?case using print_shape_inv(2) [of s' y x] by simp
next
  case (Sh_list s)
  then obtain e where "s' = Sh_list e" "print_shape s @ ''>'' @ x = print_shape e @ ''>'' @ y"
    using print_shape_inv(3) [of s' y "print_shape s @ ''>'' @ x"] by auto
  with Sh_list.IH show ?case by fastforce
next
  case (Sh_set s)
  then obtain e where "s' = Sh_set e" "print_shape s @ ''>'' @ x = print_shape e @ ''>'' @ y"
    using print_shape_inv(4) [of s' y "print_shape s @ ''>'' @ x"] by auto
  with Sh_set.IH show ?case by fastforce
next
  case (Sh_map k v)
  from Sh_map.prems have "print_shape s' @ y = ''map<'' @ print_shape k @ '','' @ print_shape v @ ''>'' @ x" by simp
  then obtain k' v' where s': "s' = Sh_map k' v'"
    and eq: "print_shape k @ '','' @ print_shape v @ ''>'' @ x = print_shape k' @ '','' @ print_shape v' @ ''>'' @ y"
    by (metis print_shape_inv(5))
  from Sh_map.IH(1) [OF eq] have "k = k'" "print_shape v @ ''>'' @ x = print_shape v' @ ''>'' @ y"
    by simp_all
  with Sh_map.IH(2) [of "''>'' @ x" v' "''>'' @ y"] s' show ?case by simp
next
  case (Sh_struct fs)
  then obtain fs' where s': "s' = Sh_struct fs'"
    and eq: "concat (map print_field fs) @ ''}'' @ x = concat (map print_field fs') @ ''}'' @ y"
    using print_shape_inv(6) [of s' y "concat (map print_field fs) @ ''}'' @ x"]
    by (auto simp: print_struct)
  have "fs = fs' \<and> x = y"
  proof (rule print_fields_delimited [OF _ eq])
    fix f s' x y
    assume f: "f \<in> set fs" and "print_shape (snd (snd f)) @ x = print_shape s' @ y"
    then show "snd (snd f) = s' \<and> x = y"
      by (intro Sh_struct.IH [of f "snd f" "snd (snd f)"]) (auto intro: snds.intros)
  qed
  with s' show ?case by simp
qed

lemma print_shape_inject: "print_shape s = print_shape s' \<longleftrightarrow> s = s'"
  using print_shape_prefix_free [of s "[]" s' "[]"] by auto

text \<open>The shape of a type, where the graph below it is finite.\<close>

fun all_some :: "'a option list \<Rightarrow> 'a list option" where
  "all_some [] = Some []"
| "all_some (None # xs) = None"
| "all_some (Some x # xs) = map_option ((#) x) (all_some xs)"

definition field_shape :: "heap \<Rightarrow> (addr \<Rightarrow> shape option) \<Rightarrow> addr \<Rightarrow> (int \<times> bool \<times> shape) option" where
  "field_shape h sh fa =
     (case h_fields h fa of
        None \<Rightarrow> None
      | Some f \<Rightarrow>
          (case fl_req f of
             None \<Rightarrow> None
           | Some req \<Rightarrow> map_option (\<lambda>s. (fl_key f, req = T_OPTIONAL, s)) (sh (fl_type f))))"

definition shape_step :: "heap \<Rightarrow> (addr \<Rightarrow> shape option) \<Rightarrow> addr \<Rightarrow> shape option" where
  "shape_step h sh ty =
     (case h_types h ty of
        None \<Rightarrow> None
      | Some t \<Rightarrow>
          (case t of
             Base_type b \<Rightarrow> Some (Sh_base (bt_base b))
           | Typedef td \<Rightarrow> (case typedef_get_type h td of Ok ty' \<Rightarrow> sh ty' | _ \<Rightarrow> None)
           | Enum e \<Rightarrow> Some Sh_enum
           | Struct s \<Rightarrow> map_option Sh_struct (all_some (map (field_shape h sh) (st_members_in_id_order s)))
           | List_type l \<Rightarrow> map_option Sh_list (sh (li_elem_type l))
           | Set_type l \<Rightarrow> map_option Sh_set (sh (se_elem_type l))
           | Map_type m \<Rightarrow>
               (case sh (ma_key_type m) of
                  None \<Rightarrow> None
                | Some k \<Rightarrow> map_option (Sh_map k) (sh (ma_val_type m)))
           | Service sv \<Rightarrow> None))"

primrec shape_of :: "nat \<Rightarrow> heap \<Rightarrow> addr \<Rightarrow> shape option" where
  "shape_of 0 h = (\<lambda>ty. None)"
| "shape_of (Suc n) h = shape_step h (shape_of n h)"

lemma all_some_map_mono:
  assumes "\<And>x y. x \<in> set xs \<Longrightarrow> f x = Some y \<Longrightarrow> g x = Some y" "all_some (map f xs) = Some ys"
  shows "all_some (map g xs) = Some ys"
  using assms
proof (induction xs arbitrary: ys)
  case (Cons x xs)
  then obtain y zs where "f x = Some y" "all_some (map f xs) = Some zs" "ys = y # zs"
    by (cases "f x") auto
  with Cons.IH [of zs] Cons.prems(1) show ?case by simp
qed simp

lemma field_shape_mono:
  "(\<And>ty s. sh ty = Some s \<Longrightarrow> sh' ty = Some s) \<Longrightarrow> field_shape h sh fa = Some x \<Longrightarrow> field_shape h sh' fa = Some x"
  by (auto simp: field_shape_def split: option.splits)

lemma shape_step_mono:
  assumes mono: "\<And>ty s. sh ty = Some s \<Longrightarrow> sh' ty = Some s" and "shape_step h sh ty = Some s"
  shows "shape_step h sh' ty = Some s"
proof -
  have fields: "all_some (map (field_shape h sh') fas) = Some xs"
    if "all_some (map (field_shape h sh) fas) = Some xs" for fas xs
    by (rule all_some_map_mono [OF _ that]) (rule field_shape_mono [OF mono])
  from assms(2) show ?thesis
    using fields mono
    by (auto simp: shape_step_def split: option.splits t_type_obj.splits outcome.splits)
qed

lemma shape_of_mono: "shape_of n h ty = Some s \<Longrightarrow> shape_of (Suc n) h ty = Some s"
proof (induction n arbitrary: ty s)
  case (Suc n)
  from Suc.prems have "shape_step h (shape_of n h) ty = Some s" by simp
  from shape_step_mono [OF Suc.IH this] show ?case by (simp only: shape_of.simps(2))
qed simp

lemma shape_of_mono_le: "n \<le> N \<Longrightarrow> shape_of n h ty = Some s \<Longrightarrow> shape_of N h ty = Some s"
  by (induction N) (auto simp: le_Suc_eq simp del: shape_of.simps intro: shape_of_mono)

lemma field_shape_set_seen: "field_shape (set_seen a b h) = field_shape h"
  by (simp add: field_shape_def fun_eq_iff)

lemma shape_of_set_seen:
  assumes "h_types h a = Some (Typedef td)"
  shows "shape_of n (set_seen a b h) = shape_of n h"
proof (induction n)
  case (Suc n)
  have "typedef_get_type (set_seen a b h) = typedef_get_type h"
    by (rule ext, rule typedef_get_type_programs) simp
  moreover have "typedef_get_type h (td\<lparr>td_seen := b\<rparr>) = typedef_get_type h td"
    by (cases "td_type td") (simp_all add: typedef_get_type_def cong: option.case_cong)
  ultimately show ?case
    using assms
    by (auto simp: fun_eq_iff Suc shape_step_def field_shape_set_seen set_seen_types
        split: option.splits t_type_obj.splits)
qed simp

text \<open>The walk prints the shape, whatever marks are set above it.\<close>

lemma members_material_shape:
  assumes "all_some (map (field_shape h sh) fas) = Some fs"
    and "\<And>ty s. sh ty = Some s \<Longrightarrow> material ty h = (Ok (print_shape s), h)"
  shows "members_fingerprint_material material fas h = (Ok (concat (map print_field fs)), h)"
  using assms
proof (induction fas arbitrary: fs)
  case (Cons fa fas)
  then obtain x xs where x: "field_shape h sh fa = Some x" "all_some (map (field_shape h sh) fas) = Some xs" "fs = x # xs"
    by (cases "field_shape h sh fa") auto
  then obtain f req s where f: "h_fields h fa = Some f" "fl_req f = Some req" "sh (fl_type f) = Some s"
      "x = (fl_key f, req = T_OPTIONAL, s)"
    by (auto simp: field_shape_def split: option.splits)
  with Cons.prems(2) have "field_fingerprint_material material fa h = (Ok (field_prefix f req @ print_shape s), h)"
    by (simp add: field_fingerprint_material_def action_simps)
  with Cons x f show ?case
    by (simp add: action_simps field_prefix_def print_field_def)
qed (simp add: returnA_def)

lemma material_shape:
  assumes "shape_of n h ty = Some s" "n \<le> N"
    and "\<And>a td. h_types h a = Some (Typedef td) \<Longrightarrow> td_seen td \<Longrightarrow> shape_of n h a = None"
  shows "get_fingerprint_material N ty h = (Ok (print_shape s), h)"
  using assms
proof (induction n arbitrary: h ty s N)
  case (Suc n)
  obtain N' where N: "N = Suc N'" "n \<le> N'" using Suc.prems(2) by (cases N) auto
  have seen: "shape_of n h a = None" if "h_types h a = Some (Typedef td)" "td_seen td" for a td
    using Suc.prems(3) [OF that] shape_of_mono [of n h a] by (cases "shape_of n h a") auto
  show ?case
  proof (cases "shape_of n h ty")
    case (Some s')
    with shape_of_mono [OF Some] Suc.prems(1) have "shape_of n h ty = Some s" by simp
    then show ?thesis by (rule Suc.IH) (use N seen in auto)
  next
    case None
    have IH: "get_fingerprint_material N' ty' h = (Ok (print_shape s'), h)" if "shape_of n h ty' = Some s'" for ty' s'
      using that by (rule Suc.IH) (use N seen in auto)
    from Suc.prems(1) obtain t where t: "h_types h ty = Some t"
      by (auto simp: shape_step_def split: option.splits)
    show ?thesis
    proof (cases t)
      case (Typedef td)
      let ?h = "set_seen ty True h"
      have td: "h_types h ty = Some (Typedef td)" using t Typedef by simp
      have "\<not> td_seen td" using Suc.prems(1) Suc.prems(3) [OF td] by auto
      from td Suc.prems(1) obtain ty' where ty': "typedef_get_type h td = Ok ty'" "shape_of n h ty' = Some s"
        by (auto simp: shape_step_def split: outcome.splits)
      have "shape_of n ?h a = None" if "h_types ?h a = Some (Typedef td')" "td_seen td'" for a td'
        using that None seen by (cases "a = ty") (auto simp: shape_of_set_seen [OF td] set_seen_types [OF td])
      then have "get_fingerprint_material N' ty' ?h = (Ok (print_shape s), ?h)"
        by (intro Suc.IH) (use ty' N in \<open>auto simp: shape_of_set_seen [OF td]\<close>)
      moreover have "typedef_get_type ?h td = Ok ty'"
        using ty'(1) typedef_get_type_programs [of ?h h td] by simp
      ultimately show ?thesis
        using td \<open>\<not> td_seen td\<close> set_seen_restore [OF td] by (simp add: N action_simps)
    next
      case (Struct st)
      with t Suc.prems(1) obtain fs where fs: "all_some (map (field_shape h (shape_of n h)) (st_members_in_id_order st)) = Some fs"
          "s = Sh_struct fs" by (auto simp: shape_step_def)
      have "members_fingerprint_material (get_fingerprint_material N') (st_members_in_id_order st) h =
          (Ok (concat (map print_field fs)), h)"
        using fs(1) IH by (rule members_material_shape)
      with t Struct fs show ?thesis by (simp add: N action_simps print_struct)
    qed (use t Suc.prems(1) IH in \<open>auto simp: N shape_step_def action_simps split: option.splits\<close>)
  qed
qed simp

text \<open>
  C12: The fingerprint material identifies the wire format of a type: for types that are not
  recursive, \<^verbatim>\<open>get_fingerprint_material\<close> returns, and two types have the same material
  exactly when they have the same shape, that is, the same base types, the same containers and
  structs whose fields agree in key order, key, optionality and type, with typedefs resolved.
\<close>

theorem fingerprint_identifies_shape:
  assumes "\<And>x td. h_types h x = Some (Typedef td) \<Longrightarrow> \<not> td_seen td"
    and "shape_of n h a = Some s" "shape_of n h b = Some s'" "n \<le> N"
  shows "(\<exists>m. get_fingerprint_material N a h = (Ok m, h)) \<and> (\<exists>m. get_fingerprint_material N b h = (Ok m, h)) \<and>
         (fst (get_fingerprint_material N a h) = fst (get_fingerprint_material N b h) \<longleftrightarrow> s = s')"
proof -
  have "get_fingerprint_material N a h = (Ok (print_shape s), h)"
    using assms(2,4) by (rule material_shape) (use assms(1) in blast)
  moreover have "get_fingerprint_material N b h = (Ok (print_shape s'), h)"
    using assms(3,4) by (rule material_shape) (use assms(1) in blast)
  ultimately show ?thesis by (simp add: print_shape_inject)
qed

text \<open>The types \<^verbatim>\<open>i32\<close> and \<^verbatim>\<open>age\<close> of the sample heap have the same shape.\<close>

theorem fingerprint_identifies_shape_witness:
  "shape_of 3 sample_heap 0 = Some (Sh_base TYPE_I32) \<and> shape_of 3 sample_heap 3 = Some (Sh_base TYPE_I32) \<and>
   fst (get_fingerprint_material 3 0 sample_heap) = fst (get_fingerprint_material 3 3 sample_heap)"
proof -
  have seen: "\<not> td_seen td" if "h_types sample_heap x = Some (Typedef td)" for x td
    using that by (auto simp: sample_heap_def new_typedef_def new_forward_typedef_def split: if_splits)
  have a: "shape_of 3 sample_heap 0 = Some (Sh_base TYPE_I32)" by code_simp
  have b: "shape_of 3 sample_heap 3 = Some (Sh_base TYPE_I32)" by code_simp
  have "fst (get_fingerprint_material 3 0 sample_heap) = fst (get_fingerprint_material 3 3 sample_heap)"
    using fingerprint_identifies_shape [OF _ a b order_refl] seen by blast
  with a b show ?thesis by blast
qed

section \<open>Digests and their hexadecimal form\<close>

lemma length_string_bytes [simp]: "length (string_bytes s) = length s"
  by (simp add: string_bytes_def)

lemma material_digest_ref: "material_digest m = md5_ref (string_bytes m)"
  using md5_appends_inv [OF md5_init_inv, of "\<lparr>md5_count = [], md5_abcd = [], md5_buf = replicate 64 0\<rparr>" "[string_bytes m]"]
  by (simp add: material_digest_def Let_def md5_finish_ref)

lemma type_part_set_fingerprint: "ty_fingerprint (type_part (set_fingerprint fp t)) = fp"
  by (cases t) (simp_all add: set_fingerprint_def t_type.truncate_def)

text \<open>
  \<^verbatim>\<open>t_type::generate_fingerprint\<close> stores the MD5 digest of the material in the type and
  changes no other object; a type that has a fingerprint keeps it.
\<close>

lemma generate_fingerprint_is_md5:
  assumes t: "h_types h ty = Some t" and m: "get_fingerprint_material n ty h = (Ok m, h)"
  shows "if has_fingerprint t then type_generate_fingerprint n ty h = (Ok (), h)
         else \<exists>h'. type_generate_fingerprint n ty h = (Ok (), h') \<and>
            map_option (\<lambda>t. ty_fingerprint (type_part t)) (h_types h' ty) = Some (md5_ref (string_bytes m)) \<and>
            (\<forall>a. a \<noteq> ty \<longrightarrow> h_types h' a = h_types h a) \<and>
            h_fields h' = h_fields h \<and> h_programs h' = h_programs h"
  using assms
  by (simp add: type_generate_fingerprint_def action_simps store_fingerprint_def
      material_digest_ref type_part_set_fingerprint)

definition xdigits :: string where
  "xdigits = ''0123456789ABCDEF''"

definition xdigit_value :: "char \<Rightarrow> int" where
  "xdigit_value c = (if is_digit c then of_char c - 48 else of_char c - 55)"

fun parse_hex :: "string \<Rightarrow> 8 word list" where
  "parse_hex (a # b # cs) = word_of_int (16 * xdigit_value a + xdigit_value b) # parse_hex cs"
| "parse_hex _ = []"

lemma xdigit_value_nybble:
  assumes "0 \<le> n" "n < 16"
  shows "xdigit_value (nybble_to_xdigit n) = n" "nybble_to_xdigit n \<in> set xdigits"
proof -
  have "list_all (\<lambda>n. xdigit_value (nybble_to_xdigit n) = n \<and> nybble_to_xdigit n \<in> set xdigits) [0..15]"
    by code_simp
  moreover have "n \<in> set [0..15]" using assms by simp
  ultimately show "xdigit_value (nybble_to_xdigit n) = n" "nybble_to_xdigit n \<in> set xdigits"
    unfolding list_all_iff by blast+
qed

lemma nybbles:
  fixes b :: "8 word"
  shows "uint (drop_bit 4 b) < 16" "uint (b AND 0x0F) < 16"
    "word_of_int (16 * uint (drop_bit 4 b) + uint (b AND 0x0F)) = b"
proof -
  have hi: "uint (drop_bit 4 b) = uint b div 16" by (simp add: drop_bit_eq_div uint_div_distrib)
  have "uint (b AND 0x0F) = uint b AND mask 4" by (simp add: unsigned_and_eq mask_eq_exp_minus_1)
  then have lo: "uint (b AND 0x0F) = uint b mod 16"
    by (simp only: take_bit_eq_mask [symmetric] take_bit_eq_mod) simp
  show "uint (drop_bit 4 b) < 16" using uint_lt2p [of b] by (simp add: hi)
  show "uint (b AND 0x0F) < 16" by (simp add: lo)
  show "word_of_int (16 * uint (drop_bit 4 b) + uint (b AND 0x0F)) = b"
    unfolding hi lo by simp
qed

text \<open>
  The hexadecimal form of a fingerprint, two upper-case digits for each byte
  (\<^verbatim>\<open>byte_to_hex\<close>, \<^verbatim>\<open>nybble_to_xdigit\<close>), reads back as the bytes of the fingerprint.
\<close>

lemma ascii_fingerprint_roundtrip:
  "parse_hex (concat (map byte_to_hex fp)) = fp \<and>
   length (concat (map byte_to_hex fp)) = 2 * length fp \<and>
   set (concat (map byte_to_hex fp)) \<subseteq> set xdigits"
proof (induction fp)
  case (Cons b fp)
  then show ?case
    using xdigit_value_nybble [OF uint_ge_0 nybbles(1), of b]
      xdigit_value_nybble [OF uint_ge_0 nybbles(2), of b] nybbles(3) [of b]
    by (simp add: byte_to_hex_def)
qed simp

end
