(* ===== verification/Struct.thy ===== *)
theory Struct
  imports Fingerprint
begin

text \<open>
  Structs, unions and exceptions (\<^verbatim>\<open>t_struct.h\<close>), services and functions
  (\<^verbatim>\<open>t_service.h\<close>, \<^verbatim>\<open>t_function.h\<close>). A struct keeps its fields twice: in
  declaration order and in the order of their keys. The invariant says that the two vectors hold
  the same fields, that keys are strictly increasing in the second and that names are distinct.
\<close>

section \<open>Operations\<close>

definition get_struct :: "addr \<Rightarrow> heap \<Rightarrow> t_struct outcome" where
  "get_struct sa h = (case h_types h sa of Some (Struct s) \<Rightarrow> Ok s | _ \<Rightarrow> Undefined)"

definition put_struct :: "addr \<Rightarrow> t_struct \<Rightarrow> heap \<Rightarrow> heap" where
  "put_struct sa s = put_type sa (Struct s)"

fun read_fields :: "heap \<Rightarrow> addr list \<Rightarrow> t_field list outcome" where
  "read_fields h [] = Ok []"
| "read_fields h (fa # fas) =
     bind_outcome (deref (h_fields h fa)) (\<lambda>f.
     bind_outcome (read_fields h fas) (\<lambda>fs. Ok (f # fs)))"

text \<open>\<^verbatim>\<open>std::equal_range\<close> on a sorted vector of keys, as two positions.\<close>

definition lower_bound :: "int list \<Rightarrow> int \<Rightarrow> nat" where
  "lower_bound keys k = length (takeWhile (\<lambda>x. x < k) keys)"

definition upper_bound :: "int list \<Rightarrow> int \<Rightarrow> nat" where
  "upper_bound keys k = length (takeWhile (\<lambda>x. \<not> k < x) keys)"

definition validate_union_member :: "addr \<Rightarrow> addr \<Rightarrow> (heap, unit) action" where
  "validate_union_member sa fa =
     bindA (getsO (get_struct sa)) (\<lambda>s.
     whenA (st_is_union s \<and> ty_name s \<noteq> '''')
      (bindA (getsO (\<lambda>h. deref (h_fields h fa))) (\<lambda>f.
       bindA (getsO (\<lambda>h. deref (fl_req f))) (\<lambda>req.
       seqA (whenA (req = T_REQUIRED) (modify (put_field fa (f\<lparr>fl_req := Some T_OPTIONAL\<rparr>))))
        (whenA (fl_value f \<noteq> None)
          (let n = st_members_with_value s + 1
           in seqA (modify (put_struct sa (s\<lparr>st_members_with_value := n\<rparr>)))
               (if 1 < n
                then throwA (''Error: Field '' @ fl_name f @ '' provides another default value for union ''
                       @ ty_name s)
                else returnA ())))))))"

definition validate_union_members :: "addr \<Rightarrow> (heap, unit) action" where
  "validate_union_members sa =
     bindA (getsO (get_struct sa)) (\<lambda>s.
     whenA (st_is_union s \<and> ty_name s \<noteq> '''' \<and> \<not> st_members_validated s)
       (seqA (for_each (st_members_in_id_order s) (validate_union_member sa))
         (bindA (getsO (get_struct sa)) (\<lambda>s.
            modify (put_struct sa (s\<lparr>st_members_validated := True\<rparr>))))))"

definition struct_set_name :: "addr \<Rightarrow> string \<Rightarrow> (heap, unit) action" where
  "struct_set_name sa name =
     bindA (getsO (get_struct sa)) (\<lambda>s.
     seqA (modify (put_struct sa (s\<lparr>ty_name := name\<rparr>))) (validate_union_members sa))"

definition set_union :: "addr \<Rightarrow> bool \<Rightarrow> (heap, unit) action" where
  "set_union sa is_union =
     bindA (getsO (get_struct sa)) (\<lambda>s.
     seqA (modify (put_struct sa (s\<lparr>st_is_union := is_union\<rparr>))) (validate_union_members sa))"

definition set_xception :: "addr \<Rightarrow> bool \<Rightarrow> (heap, unit) action" where
  "set_xception sa b =
     bindA (getsO (get_struct sa)) (\<lambda>s. modify (put_struct sa (s\<lparr>st_is_xception := b\<rparr>)))"

definition set_xsd_all :: "addr \<Rightarrow> bool \<Rightarrow> (heap, unit) action" where
  "set_xsd_all sa b =
     bindA (getsO (get_struct sa)) (\<lambda>s. modify (put_struct sa (s\<lparr>st_xsd_all := b\<rparr>)))"

fun find_field_by_name :: "heap \<Rightarrow> addr list \<Rightarrow> string \<Rightarrow> addr option outcome" where
  "find_field_by_name h [] name = Ok None"
| "find_field_by_name h (fa # fas) name =
     bind_outcome (deref (h_fields h fa)) (\<lambda>f.
       if fl_name f = name then Ok (Some fa) else find_field_by_name h fas name)"

definition get_field_by_name :: "addr \<Rightarrow> string \<Rightarrow> heap \<Rightarrow> addr option outcome" where
  "get_field_by_name sa name h =
     bind_outcome (get_struct sa h) (\<lambda>s. find_field_by_name h (st_members_in_id_order s) name)"

definition struct_append :: "addr \<Rightarrow> addr \<Rightarrow> (heap, bool) action" where
  "struct_append sa fa =
     bindA (getsO (get_struct sa)) (\<lambda>s.
     bindA (getsO (\<lambda>h. deref (h_fields h fa))) (\<lambda>elem.
     bindA (getsO (\<lambda>h. read_fields h (st_members_in_id_order s))) (\<lambda>fs.
       (let first = lower_bound (map fl_key fs) (fl_key elem);
            second = upper_bound (map fl_key fs) (fl_key elem)
        in if first \<noteq> second then returnA False
           else bindA (getsO (get_field_by_name sa (fl_name elem))) (\<lambda>clash.
             if clash \<noteq> None then returnA False
             else seqA (modify (put_struct sa
                    (s\<lparr>st_members := st_members s @ [fa],
                       st_members_in_id_order :=
                         take second (st_members_in_id_order s) @ fa # drop second (st_members_in_id_order s)\<rparr>)))
               (seqA (validate_union_member sa fa) (returnA True)))))))"

text \<open>Functions and services.\<close>

definition new_function :: "addr \<Rightarrow> string \<Rightarrow> addr \<Rightarrow> addr \<Rightarrow> bool \<Rightarrow> heap \<Rightarrow> t_function outcome" where
  "new_function returntype name arglist xceptions oneway h =
     bind_outcome (get_struct xceptions h) (\<lambda>x.
       if oneway \<and> st_members x \<noteq> [] then Throw ''Oneway methods can't throw exceptions.''
       else Ok \<lparr>doc = '''', has_doc = False, fn_returntype = returntype, fn_name = name,
                fn_arglist = arglist, fn_xceptions = xceptions, fn_oneway = oneway, fn_annotations = []\<rparr>)"

definition new_function_no_xceptions :: "addr \<Rightarrow> string \<Rightarrow> addr \<Rightarrow> bool \<Rightarrow> heap \<Rightarrow> t_function \<times> heap" where
  "new_function_no_xceptions returntype name arglist oneway h =
     (let (xceptions, h) = alloc_type (Struct (new_struct None '''')) h
      in (\<lparr>doc = '''', has_doc = False, fn_returntype = returntype, fn_name = name,
           fn_arglist = arglist, fn_xceptions = xceptions, fn_oneway = oneway, fn_annotations = []\<rparr>, h))"

definition add_function :: "t_function \<Rightarrow> t_service \<Rightarrow> t_service outcome" where
  "add_function func sv =
     (if fn_name func \<in> fn_name ` set (sv_functions sv)
      then Throw (''Function '' @ fn_name func @ '' is already defined'')
      else Ok (sv\<lparr>sv_functions := sv_functions sv @ [func]\<rparr>))"

definition set_extends :: "addr option \<Rightarrow> t_service \<Rightarrow> t_service" where
  "set_extends extends sv = sv\<lparr>sv_extends := extends\<rparr>"

section \<open>The invariant\<close>

definition keys_of :: "heap \<Rightarrow> addr list \<Rightarrow> int list" where
  "keys_of h fas = map (\<lambda>fa. fl_key (the (h_fields h fa))) fas"

definition names_of :: "heap \<Rightarrow> addr list \<Rightarrow> string list" where
  "names_of h fas = map (\<lambda>fa. fl_name (the (h_fields h fa))) fas"

definition struct_wf :: "heap \<Rightarrow> t_struct \<Rightarrow> bool" where
  "struct_wf h s \<longleftrightarrow>
     set (st_members s) \<subseteq> dom (h_fields h) \<and>
     mset (st_members_in_id_order s) = mset (st_members s) \<and>
     sorted_wrt (<) (keys_of h (st_members_in_id_order s)) \<and>
     distinct (names_of h (st_members s))"

lemma get_struct_Ok [simp]: "get_struct sa h = Ok s \<longleftrightarrow> h_types h sa = Some (Struct s)"
  by (auto simp: get_struct_def split: option.splits t_type_obj.splits)

lemma put_struct_simps [simp]:
  "h_types (put_struct sa s h) = (h_types h)(sa \<mapsto> Struct s)" "h_fields (put_struct sa s h) = h_fields h"
  "h_programs (put_struct sa s h) = h_programs h"
  by (simp_all add: put_struct_def)

lemma read_fields_Ok:
  "set fas \<subseteq> dom (h_fields h) \<Longrightarrow> read_fields h fas = Ok (map (\<lambda>fa. the (h_fields h fa)) fas)"
  by (induction fas) auto

lemma find_field_by_name_Ok:
  "set fas \<subseteq> dom (h_fields h) \<Longrightarrow>
     find_field_by_name h fas name = Ok (find (\<lambda>fa. fl_name (the (h_fields h fa)) = name) fas)"
  by (induction fas) auto

text \<open>The two bounds differ exactly when the key is there, and the upper one is the place to insert.\<close>

lemma bounds_differ:
  "sorted_wrt (<) ks \<Longrightarrow> lower_bound ks k \<noteq> upper_bound ks k \<longleftrightarrow> k \<in> set ks"
proof (induction ks)
  case (Cons x ks)
  then show ?case
    by (cases "x = k") (auto simp: lower_bound_def upper_bound_def takeWhile_eq_Nil_iff neq_Nil_conv)
qed (simp add: lower_bound_def upper_bound_def)

lemma insert_sorted:
  assumes "sorted_wrt (<) ks" "k \<notin> set ks"
  shows "sorted_wrt (<) (take (upper_bound ks k) ks @ k # drop (upper_bound ks k) ks)"
  using assms
proof (induction ks)
  case (Cons x ks)
  show ?case
  proof (cases "k < x")
    case True
    with Cons.prems show ?thesis by (auto simp: upper_bound_def)
  next
    case False
    with Cons.prems have "x < k" by auto
    moreover have "sorted_wrt (<) (take (upper_bound ks k) ks @ k # drop (upper_bound ks k) ks)"
      using Cons by simp
    moreover have "x < y" if "y \<in> set ks" for y using that Cons.prems(1) by simp
    ultimately show ?thesis
      using False by (auto simp: upper_bound_def dest: in_set_takeD in_set_dropD)
  qed
qed (simp add: upper_bound_def)

lemma keys_of_insert:
  "keys_of h (take n fas @ fa # drop n fas) =
     take n (keys_of h fas) @ fl_key (the (h_fields h fa)) # drop n (keys_of h fas)"
  by (simp add: keys_of_def take_map drop_map)

lemma struct_wf_sets:
  assumes "struct_wf h s"
  shows "set (st_members_in_id_order s) = set (st_members s)"
    and "set (st_members_in_id_order s) \<subseteq> dom (h_fields h)"
  using assms mset_eq_setD [of "st_members_in_id_order s" "st_members s"] by (auto simp: struct_wf_def)

lemma find_None_names:
  "find (\<lambda>fa. fl_name (the (h_fields h fa)) = name) fas = None \<longleftrightarrow> name \<notin> set (names_of h fas)"
  by (auto simp: find_None_iff names_of_def)

definition appended :: "heap \<Rightarrow> addr \<Rightarrow> t_struct \<Rightarrow> t_struct" where
  "appended h fa s =
     (let ids = st_members_in_id_order s; n = upper_bound (keys_of h ids) (fl_key (the (h_fields h fa)))
      in s\<lparr>st_members := st_members s @ [fa], st_members_in_id_order := take n ids @ fa # drop n ids\<rparr>)"

lemma struct_append_cases:
  assumes s: "h_types h sa = Some (Struct s)" and wf: "struct_wf h s" and f: "h_fields h fa = Some f"
  shows "struct_append sa fa h =
    (if fl_key f \<in> set (keys_of h (st_members s)) \<or> fl_name f \<in> set (names_of h (st_members s))
     then (Ok False, h)
     else seqA (validate_union_member sa fa) (returnA True) (put_struct sa (appended h fa s) h))"
proof -
  let ?ids = "st_members_in_id_order s"
  note sets = struct_wf_sets [OF wf]
  have keys: "set (keys_of h ?ids) = set (keys_of h (st_members s))"
    and names: "set (names_of h ?ids) = set (names_of h (st_members s))"
    by (simp_all add: keys_of_def names_of_def sets(1))
  have fs: "read_fields h ?ids = Ok (map (\<lambda>fa. the (h_fields h fa)) ?ids)"
    by (rule read_fields_Ok [OF sets(2)])
  have keys_fs: "map fl_key (map (\<lambda>fa. the (h_fields h fa)) ?ids) = keys_of h ?ids"
    by (simp add: keys_of_def)
  have clash: "get_field_by_name sa (fl_name f) h =
      Ok (find (\<lambda>fa. fl_name (the (h_fields h fa)) = fl_name f) ?ids)"
    using s find_field_by_name_Ok [OF sets(2)] by (simp add: get_field_by_name_def get_struct_def)
  have bounds: "lower_bound (keys_of h ?ids) (fl_key f) \<noteq> upper_bound (keys_of h ?ids) (fl_key f) \<longleftrightarrow>
      fl_key f \<in> set (keys_of h (st_members s))"
    using wf bounds_differ keys by (simp add: struct_wf_def)
  have run: "struct_append sa fa h =
      (if lower_bound (keys_of h ?ids) (fl_key f) \<noteq> upper_bound (keys_of h ?ids) (fl_key f) then (Ok False, h)
       else if find (\<lambda>fa. fl_name (the (h_fields h fa)) = fl_name f) ?ids \<noteq> None then (Ok False, h)
       else seqA (validate_union_member sa fa) (returnA True) (put_struct sa (appended h fa s) h))"
    using s f fs clash keys_fs
    by (simp add: struct_append_def bindA_getsO get_struct_def appended_def seqA_def Let_def
        bindA_Ok [of "modify _", OF modify_def] returnA_def del: map_map)
  show ?thesis
    unfolding run bounds find_None_names names by auto
qed
lemma appended_wf:
  assumes wf: "struct_wf h s" and f: "h_fields h fa = Some f"
    and key: "fl_key f \<notin> set (keys_of h (st_members s))"
    and name: "fl_name f \<notin> set (names_of h (st_members s))"
  shows "struct_wf h (appended h fa s)"
proof -
  let ?ids = "st_members_in_id_order s" and ?n = "upper_bound (keys_of h (st_members_in_id_order s)) (fl_key f)"
  have "fl_key f \<notin> set (keys_of h ?ids)"
    using key struct_wf_sets(1) [OF wf] by (simp add: keys_of_def)
  then have "sorted_wrt (<) (take ?n (keys_of h ?ids) @ fl_key f # drop ?n (keys_of h ?ids))"
    using wf by (intro insert_sorted) (simp_all add: struct_wf_def)
  then have "sorted_wrt (<) (keys_of h (take ?n ?ids @ fa # drop ?n ?ids))"
    by (simp add: keys_of_insert f)
  moreover have "mset (take ?n ?ids @ fa # drop ?n ?ids) = mset (st_members s @ [fa])"
    using wf mset_append [of "take ?n ?ids" "drop ?n ?ids"] by (simp add: struct_wf_def)
  moreover have "distinct (names_of h (st_members s @ [fa]))"
    using wf name f by (simp add: struct_wf_def names_of_def)
  moreover have "set (st_members s @ [fa]) \<subseteq> dom (h_fields h)"
    using wf f by (auto simp: struct_wf_def)
  ultimately show ?thesis
    by (simp add: struct_wf_def appended_def Let_def f)
qed

lemma validate_union_member_skip:
  "h_types h sa = Some (Struct s) \<Longrightarrow> \<not> (st_is_union s \<and> ty_name s \<noteq> '''') \<Longrightarrow>
     validate_union_member sa fa h = (Ok (), h)"
  by (auto simp: validate_union_member_def bindA_getsO get_struct_def whenA_def returnA_def)

lemma appended_simps [simp]:
  "ty_name (appended h fa s) = ty_name s" "st_is_union (appended h fa s) = st_is_union s"
  "st_members (appended h fa s) = st_members s @ [fa]"
  "st_members_with_value (appended h fa s) = st_members_with_value s"
  by (simp_all add: appended_def Let_def)

text \<open>
  C4: \<^verbatim>\<open>t_struct::append\<close> refuses exactly the fields whose key or name is taken, and then
  leaves the struct as it was; otherwise, for a struct that is not a named union, it adds the field
  at the end of the members and at the place of its key in the members by id, and the invariant
  (same fields in both vectors, keys strictly increasing, names distinct) holds again.
\<close>

theorem struct_append_spec:
  assumes s: "h_types h sa = Some (Struct s)" and wf: "struct_wf h s" and f: "h_fields h fa = Some f"
    and u: "\<not> (st_is_union s \<and> ty_name s \<noteq> '''')"
  shows "if fl_key f \<in> set (keys_of h (st_members s)) \<or> fl_name f \<in> set (names_of h (st_members s))
         then struct_append sa fa h = (Ok False, h)
         else \<exists>s' h'. struct_append sa fa h = (Ok True, h') \<and> h_types h' = (h_types h)(sa \<mapsto> Struct s') \<and>
                h_fields h' = h_fields h \<and> struct_wf h' s' \<and> st_members s' = st_members s @ [fa] \<and>
                set (st_members_in_id_order s') = insert fa (set (st_members_in_id_order s))"
proof (cases "fl_key f \<in> set (keys_of h (st_members s)) \<or> fl_name f \<in> set (names_of h (st_members s))")
  case True
  then show ?thesis by (simp add: struct_append_cases [OF s wf f])
next
  case False
  let ?s = "appended h fa s" and ?h = "put_struct sa (appended h fa s) h"
  have "validate_union_member sa fa ?h = (Ok (), ?h)"
    by (rule validate_union_member_skip [of _ _ ?s]) (use u in auto)
  then have "struct_append sa fa h = (Ok True, ?h)"
    using False by (simp add: struct_append_cases [OF s wf f] returnA_def)
  moreover have wf': "struct_wf h ?s" using appended_wf [OF wf f] False by blast
  moreover from wf' have "struct_wf ?h ?s" by (simp add: struct_wf_def keys_of_def names_of_def)
  moreover have "set (st_members_in_id_order ?s) = insert fa (set (st_members_in_id_order s))"
    using struct_wf_sets(1) [OF wf'] struct_wf_sets(1) [OF wf] by simp
  ultimately show ?thesis using False by auto
qed

text \<open>Fields 5 and 7 of a struct at 0, declared against the order of their keys.\<close>

definition point_heap :: heap where
  "point_heap =
     \<lparr>h_types = [0 \<mapsto> Struct (new_struct (Some 9) ''''), 1 \<mapsto> Base_type (new_base_type ''i32'' TYPE_I32)],
      h_fields = [5 \<mapsto> new_field 1 ''x'' 2, 6 \<mapsto> new_field 1 ''y'' 1, 7 \<mapsto> new_field 1 ''x'' 3],
      h_programs = Map.empty, h_next = 10\<rparr>"

lemma new_struct_wf: "struct_wf h (new_struct p name)"
  by (simp add: struct_wf_def new_struct_def keys_of_def names_of_def)

theorem struct_append_spec_witness:
  "h_types point_heap 0 = Some (Struct (new_struct (Some 9) '''')) \<and> struct_wf point_heap (new_struct (Some 9) '''') \<and>
   h_fields point_heap 5 = Some (new_field 1 ''x'' 2) \<and>
   (\<exists>h'. struct_append 0 5 point_heap = (Ok True, h'))"
proof -
  have s: "h_types point_heap 0 = Some (Struct (new_struct (Some 9) ''''))"
    and f: "h_fields point_heap 5 = Some (new_field 1 ''x'' 2)" by (simp_all add: point_heap_def)
  have "\<not> (st_is_union (new_struct (Some 9) '''') \<and> ty_name (new_struct (Some 9) '''') \<noteq> '''')"
    by (simp add: new_struct_def)
  from struct_append_spec [OF s new_struct_wf f this] s f new_struct_wf show ?thesis
    by (auto simp: new_struct_def keys_of_def names_of_def)
qed

section \<open>The order by id is canonical\<close>

lemma sorted_keys_unique:
  assumes "sorted_wrt (<) (keys_of h xs)" "sorted_wrt (<) (keys_of h ys)" "mset xs = mset ys"
  shows "xs = ys"
proof -
  let ?k = "\<lambda>fa. fl_key (the (h_fields h fa))"
  have "set xs = set ys" using assms(3) by (rule mset_eq_setD)
  moreover have "sorted (map ?k xs)" "distinct (map ?k xs)" "sorted (map ?k ys)" "distinct (map ?k ys)"
    using assms by (auto simp: keys_of_def strict_sorted_iff)
  ultimately show ?thesis
    by (intro map_sorted_distinct_set_unique [of ?k]) (auto simp: distinct_map)
qed

text \<open>
  The order of the members by id and the fingerprint material do not depend on the order in
  which the fields were declared: two structs whose invariant holds and that have the same fields
  have the same \<^verbatim>\<open>members_in_id_order_\<close> and the same material.
\<close>

lemma id_order_canonical:
  assumes "h_types h sa = Some (Struct s)" "h_types h sb = Some (Struct s')"
    and "struct_wf h s" "struct_wf h s'" "mset (st_members s) = mset (st_members s')"
  shows "st_members_in_id_order s = st_members_in_id_order s' \<and>
         get_fingerprint_material n sa h = get_fingerprint_material n sb h"
proof
  show *: "st_members_in_id_order s = st_members_in_id_order s'"
    using assms(3-5) by (intro sorted_keys_unique [of h]) (simp_all add: struct_wf_def)
  show "get_fingerprint_material n sa h = get_fingerprint_material n sb h"
    by (cases n) (simp_all add: bindA_getsO assms(1,2) *)
qed

definition two_points_heap :: heap where
  "two_points_heap = point_heap\<lparr>h_types :=
     [0 \<mapsto> Struct ((new_struct (Some 9) ''P'')\<lparr>st_members := [5, 6], st_members_in_id_order := [6, 5]\<rparr>),
      2 \<mapsto> Struct ((new_struct (Some 9) ''Q'')\<lparr>st_members := [6, 5], st_members_in_id_order := [6, 5]\<rparr>),
      1 \<mapsto> Base_type (new_base_type ''i32'' TYPE_I32)]\<rparr>"

lemma id_order_canonical_witness:
  "\<exists>s s'. h_types two_points_heap 0 = Some (Struct s) \<and> h_types two_points_heap 2 = Some (Struct s') \<and>
     struct_wf two_points_heap s \<and> struct_wf two_points_heap s' \<and> mset (st_members s) = mset (st_members s') \<and>
     st_members s \<noteq> st_members s' \<and>
     get_fingerprint_material 3 0 two_points_heap = get_fingerprint_material 3 2 two_points_heap"
proof -
  let ?s = "(new_struct (Some 9) ''P'')\<lparr>st_members := [5, 6], st_members_in_id_order := [6, 5]\<rparr>"
  let ?t = "(new_struct (Some 9) ''Q'')\<lparr>st_members := [6, 5], st_members_in_id_order := [6, 5]\<rparr>"
  have s: "h_types two_points_heap 0 = Some (Struct ?s)" "h_types two_points_heap 2 = Some (Struct ?t)"
    by (simp_all add: two_points_heap_def)
  have wf: "struct_wf two_points_heap ?s" "struct_wf two_points_heap ?t"
    by (simp_all add: struct_wf_def two_points_heap_def point_heap_def keys_of_def names_of_def
        new_field_def new_field_unkeyed_def)
  have m: "mset (st_members ?s) = mset (st_members ?t)" by simp
  from id_order_canonical [OF s wf m, of 3] s wf m show ?thesis by (intro exI [of _ ?s] exI [of _ ?t]) simp
qed

section \<open>Unions\<close>

text \<open>What one call of \<^verbatim>\<open>validate_union_member\<close> does to a member of a named union.\<close>

lemma validate_union_member_run:
  assumes "h_types h sa = Some (Struct s)" "st_is_union s" "ty_name s \<noteq> ''''"
    and "h_fields h fa = Some f" "fl_req f = Some req"
  shows "validate_union_member sa fa h =
    (let h1 = (if req = T_REQUIRED then put_field fa (f\<lparr>fl_req := Some T_OPTIONAL\<rparr>) h else h);
         n = st_members_with_value s + 1;
         h2 = put_struct sa (s\<lparr>st_members_with_value := n\<rparr>) h1
     in if fl_value f = None then (Ok (), h1)
        else if 1 < n then (Throw (''Error: Field '' @ fl_name f @ '' provides another default value for union '' @ ty_name s), h2)
        else (Ok (), h2))"
  using assms
  by (simp add: validate_union_member_def run_simps Let_def)

definition relaxed :: "t_field \<Rightarrow> t_field" where
  "relaxed f = (if fl_req f = Some T_REQUIRED then f\<lparr>fl_req := Some T_OPTIONAL\<rparr> else f)"

definition relax_fields :: "addr set \<Rightarrow> heap \<Rightarrow> heap" where
  "relax_fields A h =
     h\<lparr>h_fields := (\<lambda>fa. if fa \<in> A then map_option relaxed (h_fields h fa) else h_fields h fa)\<rparr>"

definition defaulted :: "heap \<Rightarrow> addr \<Rightarrow> bool" where
  "defaulted h fa \<longleftrightarrow> (\<exists>f. h_fields h fa = Some f \<and> fl_value f \<noteq> None)"

definition defaults :: "heap \<Rightarrow> addr list \<Rightarrow> int" where
  "defaults h fas = int (length (filter (defaulted h) fas))"

lemma relaxed_simps [simp]:
  "fl_value (relaxed f) = fl_value f" "fl_name (relaxed f) = fl_name f" "fl_key (relaxed f) = fl_key f"
  "relaxed (relaxed f) = relaxed f" "fl_req (relaxed f) \<noteq> Some T_REQUIRED"
  by (simp_all add: relaxed_def)

lemma relax_fields_simps [simp]:
  "h_types (relax_fields A h) = h_types h" "relax_fields {} h = h"
  "relax_fields A (put_struct sa s h) = put_struct sa s (relax_fields A h)"
  "relax_fields A (relax_fields B h) = relax_fields (A \<union> B) h"
  by (auto simp: relax_fields_def put_struct_def put_type_def fun_eq_iff option.map_comp o_def
      option.map_ident)

lemma put_struct_again [simp]: "put_struct sa s (put_struct sa s' h) = put_struct sa s h"
  by (simp add: put_struct_def put_type_def)

lemma put_struct_same: "h_types h sa = Some (Struct s) \<Longrightarrow> put_struct sa s h = h"
  by (simp add: put_struct_def put_type_def fun_upd_idem)

lemma defaulted_frame [simp]:
  "defaulted (put_struct sa s h) = defaulted h" "defaulted (relax_fields A h) = defaulted h"
  by (auto simp: defaulted_def fun_eq_iff relax_fields_def)

lemma defaults_nonneg: "0 \<le> defaults h fas"
  by (simp add: defaults_def)

lemma defaults_simps [simp]:
  "defaults h [] = 0"
  "defaults h (fa # fas) = (if defaulted h fa then 1 else 0) + defaults h fas"
  "defaults (put_struct sa s h) fas = defaults h fas" "defaults (relax_fields A h) fas = defaults h fas"
  by (simp_all add: defaults_def)

lemma validate_union_member_step:
  assumes s: "h_types h sa = Some (Struct s)" "st_is_union s" "ty_name s \<noteq> ''''"
    and f: "h_fields h fa = Some f" "fl_req f = Some req" and n: "st_members_with_value s \<le> 1"
  shows "if st_members_with_value s + defaults h [fa] \<le> 1
         then validate_union_member sa fa h =
           (Ok (), put_struct sa (s\<lparr>st_members_with_value := st_members_with_value s + defaults h [fa]\<rparr>) (relax_fields {fa} h))
         else \<exists>e. fst (validate_union_member sa fa h) = Throw e"
proof -
  have h1: "(if req = T_REQUIRED then put_field fa (f\<lparr>fl_req := Some T_OPTIONAL\<rparr>) h else h) = relax_fields {fa} h"
    using f by (auto simp: put_field_def relaxed_def relax_fields_def fun_eq_iff intro!: heap.equality)
  have d: "defaults h [fa] = (if fl_value f = None then 0 else 1)" using f by (simp add: defaulted_def)
  have same: "put_struct sa (s\<lparr>st_members_with_value := st_members_with_value s\<rparr>) (relax_fields {fa} h) = relax_fields {fa} h"
    using s by (simp add: put_struct_same)
  show ?thesis
    unfolding validate_union_member_run [OF s f] h1 Let_def d using n same by auto
qed

text \<open>The loop over the members of a union, started with some defaults counted already.\<close>

lemma validate_union_loop:
  assumes "h_types h sa = Some (Struct s)" "st_is_union s" "ty_name s \<noteq> ''''"
    and "\<And>fa. fa \<in> set fas \<Longrightarrow> \<exists>f req. h_fields h fa = Some f \<and> fl_req f = Some req"
    and "st_members_with_value s \<le> 1"
  shows "if st_members_with_value s + defaults h fas \<le> 1
         then for_each fas (validate_union_member sa) h =
           (Ok (), put_struct sa (s\<lparr>st_members_with_value := st_members_with_value s + defaults h fas\<rparr>)
             (relax_fields (set fas) h))
         else \<exists>e. fst (for_each fas (validate_union_member sa) h) = Throw e"
  using assms
proof (induction fas arbitrary: h s)
  case Nil
  then show ?case by (simp add: run_simps put_struct_same)
next
  case (Cons fa fas)
  from Cons.prems(4) [of fa] obtain f req where f: "h_fields h fa = Some f" "fl_req f = Some req" by auto
  note step = validate_union_member_step [OF Cons.prems(1-3) f Cons.prems(5)]
  show ?case
  proof (cases "st_members_with_value s + defaults h [fa] \<le> 1")
    case False
    with step obtain e where "fst (validate_union_member sa fa h) = Throw e" by auto
    then have "fst (for_each (fa # fas) (validate_union_member sa) h) = Throw e"
      by (cases "validate_union_member sa fa h") (simp add: seqA_def bindA_def)
    moreover have "defaults h (fa # fas) = defaults h [fa] + defaults h fas" by simp
    then have "\<not> st_members_with_value s + defaults h (fa # fas) \<le> 1"
      using False defaults_nonneg [of h fas] by linarith
    ultimately show ?thesis by auto
  next
    case True
    let ?s = "s\<lparr>st_members_with_value := st_members_with_value s + defaults h [fa]\<rparr>"
    let ?h = "put_struct sa ?s (relax_fields {fa} h)"
    have ex: "\<exists>f req. h_fields ?h x = Some f \<and> fl_req f = Some req" if "x \<in> set fas" for x
    proof -
      from Cons.prems(4) [of x] that obtain g r where "h_fields h x = Some g" "fl_req g = Some r" by auto
      then show ?thesis by (cases "x = fa"; cases r) (simp_all add: relax_fields_def relaxed_def)
    qed
    have "for_each (fa # fas) (validate_union_member sa) h = for_each fas (validate_union_member sa) ?h"
      using step True by (simp add: run_simps)
    moreover have "defaults h (fa # fas) = defaults h [fa] + defaults h fas" by simp
    ultimately show ?thesis
      using Cons.IH [of ?h ?s, OF _ _ _ ex] Cons.prems(2,3) True by (simp add: add.assoc cong: if_cong)
  qed
qed

text \<open>
  C23: Naming a union checks it. When at most one member has a default value,
  \<^verbatim>\<open>set_name\<close> returns, every required member has become optional, and the struct is marked
  as validated with the number of defaults recorded; with more defaults it throws.
\<close>

theorem union_set_name_validates:
  assumes "h_types h sa = Some (Struct s)" "struct_wf h s" "st_is_union s" "\<not> st_members_validated s"
    and "st_members_with_value s = 0" "name \<noteq> ''''"
    and "\<And>fa. fa \<in> set (st_members s) \<Longrightarrow> \<exists>f req. h_fields h fa = Some f \<and> fl_req f = Some req"
  shows "if defaults h (st_members s) \<le> 1
         then \<exists>h'. struct_set_name sa name h = (Ok (), h') \<and>
            h_types h' = (h_types h)(sa \<mapsto> Struct (s\<lparr>ty_name := name, st_members_with_value := defaults h (st_members s),
                                              st_members_validated := True\<rparr>)) \<and>
            (\<forall>fa \<in> set (st_members s). h_fields h' fa = map_option relaxed (h_fields h fa) \<and>
               (\<forall>f. h_fields h' fa = Some f \<longrightarrow> fl_req f \<noteq> Some T_REQUIRED)) \<and>
            (\<forall>fa. fa \<notin> set (st_members s) \<longrightarrow> h_fields h' fa = h_fields h fa)
         else \<exists>e. fst (struct_set_name sa name h) = Throw e"
proof -
  let ?s = "s\<lparr>ty_name := name\<rparr>" and ?ids = "st_members_in_id_order s"
  let ?h = "put_struct sa ?s h"
  note sets = struct_wf_sets(1) [OF assms(2)]
  have perm: "defaults h ?ids = defaults h (st_members s)"
    using assms(2) by (simp add: struct_wf_def defaults_def) (metis mset_filter size_mset)
  have loop: "if defaults h ?ids \<le> 1
      then for_each ?ids (validate_union_member sa) ?h =
        (Ok (), put_struct sa (?s\<lparr>st_members_with_value := defaults h ?ids\<rparr>) (relax_fields (set ?ids) h))
      else \<exists>e. fst (for_each ?ids (validate_union_member sa) ?h) = Throw e"
    using validate_union_loop [of ?h sa ?s ?ids] assms sets by simp
  have run: "struct_set_name sa name h =
      seqA (for_each ?ids (validate_union_member sa))
        (bindA (getsO (get_struct sa)) (\<lambda>s. modify (put_struct sa (s\<lparr>st_members_validated := True\<rparr>)))) ?h"
    using assms by (simp add: struct_set_name_def validate_union_members_def run_simps)
  show ?thesis
  proof (cases "defaults h (st_members s) \<le> 1")
    case True
    let ?t = "?s\<lparr>st_members_with_value := defaults h ?ids, st_members_validated := True\<rparr>"
    have "struct_set_name sa name h = (Ok (), put_struct sa ?t (relax_fields (set ?ids) h))"
      using loop True perm by (simp add: run run_simps)
    then show ?thesis
      using True perm sets by (auto simp: relax_fields_def)
  next
    case False
    with loop perm obtain e where "fst (for_each ?ids (validate_union_member sa) ?h) = Throw e" by auto
    then have "fst (struct_set_name sa name h) = Throw e"
      unfolding run by (cases "for_each ?ids (validate_union_member sa) ?h") (simp add: seqA_def bindA_def)
    with False show ?thesis by auto
  qed
qed

definition union_heap :: heap where
  "union_heap = point_heap\<lparr>h_types := [0 \<mapsto> Struct ((new_struct (Some 9) '''')\<lparr>st_is_union := True,
       st_members := [5, 6], st_members_in_id_order := [6, 5]\<rparr>)],
     h_fields := [5 \<mapsto> (new_field 1 ''x'' 2)\<lparr>fl_req := Some T_REQUIRED\<rparr>, 6 \<mapsto> new_field 1 ''y'' 1]\<rparr>"

theorem union_set_name_validates_witness:
  "\<exists>s h'. h_types union_heap 0 = Some (Struct s) \<and> struct_wf union_heap s \<and> st_is_union s \<and>
     defaults union_heap (st_members s) \<le> 1 \<and> struct_set_name 0 ''U'' union_heap = (Ok (), h') \<and>
     map_option fl_req (h_fields h' 5) = Some (Some T_OPTIONAL)"
proof -
  let ?s = "(new_struct (Some 9) '''')\<lparr>st_is_union := True, st_members := [5, 6], st_members_in_id_order := [6, 5]\<rparr>"
  note defs = union_heap_def new_field_def new_field_unkeyed_def
  have s: "h_types union_heap 0 = Some (Struct ?s)" by (simp add: union_heap_def)
  have wf: "struct_wf union_heap ?s" by (simp add: struct_wf_def keys_of_def names_of_def defs)
  have d: "defaults union_heap (st_members ?s) \<le> 1" by (simp add: defaulted_def defs)
  have u: "st_is_union ?s" "\<not> st_members_validated ?s" "st_members_with_value ?s = 0"
    by (simp_all add: new_struct_def)
  have m: "\<exists>f req. h_fields union_heap fa = Some f \<and> fl_req f = Some req" if "fa \<in> set (st_members ?s)" for fa
    using that by (auto simp: defs)
  have f: "map_option relaxed (h_fields union_heap 5) = Some ((new_field 1 ''x'' 2)\<lparr>fl_req := Some T_OPTIONAL\<rparr>)"
    by (simp add: defs relaxed_def)
  have "''U'' \<noteq> ''''" by simp
  from union_set_name_validates [OF s wf u this m] d obtain h' where
    h': "struct_set_name 0 ''U'' union_heap = (Ok (), h')"
      "\<forall>fa \<in> set (st_members ?s). h_fields h' fa = map_option relaxed (h_fields union_heap fa)"
    by auto
  from h'(2) f have "map_option fl_req (h_fields h' 5) = Some (Some T_OPTIONAL)" by simp
  with s wf u d h' show ?thesis by blast
qed

end
