(* ===== verification/Const_Value.thy ===== *)
theory Const_Value
  imports Struct
begin

text \<open>
  Constant values (\<^verbatim>\<open>t_const_value.h\<close>) and their resolution against a declared type
  (\<^verbatim>\<open>t_scope::resolve_const_value\<close>). A value is a tree whose nodes carry the address they
  were allocated at; resolution changes a tree in place, and copies the children of a named
  constant by their addresses. Enum values are resolved in both directions: an identifier is tied
  to its enum, and an integer gets the name of the constant it stands for.
\<close>

section \<open>Operations of a constant value\<close>

definition new_const_value :: "addr \<Rightarrow> t_const_value" where
  "new_const_value a = CV a None None None '''' '''' None [] []"

fun set_string :: "string \<Rightarrow> t_const_value \<Rightarrow> t_const_value" where
  "set_string x (CV a t i d s n e l m) = CV a (Some CV_STRING) i d x n e l m"

fun set_integer :: "int \<Rightarrow> t_const_value \<Rightarrow> t_const_value" where
  "set_integer x (CV a t i d s n e l m) = CV a (Some CV_INTEGER) (Some x) d s n e l m"

fun set_double :: "double \<Rightarrow> t_const_value \<Rightarrow> t_const_value" where
  "set_double x (CV a t i d s n e l m) = CV a (Some CV_DOUBLE) i (Some x) s n e l m"

fun set_map :: "t_const_value \<Rightarrow> t_const_value" where
  "set_map (CV a t i d s n e l m) = CV a (Some CV_MAP) i d s n e l m"

fun set_list :: "t_const_value \<Rightarrow> t_const_value" where
  "set_list (CV a t i d s n e l m) = CV a (Some CV_LIST) i d s n e l m"

fun set_identifier :: "string \<Rightarrow> t_const_value \<Rightarrow> t_const_value" where
  "set_identifier x (CV a t i d s n e l m) = CV a (Some CV_IDENTIFIER) i d s x e l m"

fun set_enum :: "addr \<Rightarrow> t_const_value \<Rightarrow> t_const_value" where
  "set_enum x (CV a t i d s n e l m) = CV a t i d s n (Some (Some x)) l m"

fun set_listVal :: "t_const_value list \<Rightarrow> t_const_value \<Rightarrow> t_const_value" where
  "set_listVal x (CV a t i d s n e l m) = CV a t i d s n e x m"

fun set_mapVal :: "(t_const_value \<times> t_const_value) list \<Rightarrow> t_const_value \<Rightarrow> t_const_value" where
  "set_mapVal x (CV a t i d s n e l m) = CV a t i d s n e l x"

definition new_const_integer :: "addr \<Rightarrow> int \<Rightarrow> t_const_value" where
  "new_const_integer a x = set_integer x (new_const_value a)"

definition new_const_string :: "addr \<Rightarrow> string \<Rightarrow> t_const_value" where
  "new_const_string a x = set_string x (new_const_value a)"

text \<open>\<^verbatim>\<open>mapVal_[key] = val\<close>: the map is ordered by the addresses of its keys.\<close>

fun map_insert :: "t_const_value \<Rightarrow> t_const_value \<Rightarrow> (t_const_value \<times> t_const_value) list \<Rightarrow>
    (t_const_value \<times> t_const_value) list" where
  "map_insert key val [] = [(key, val)]"
| "map_insert key val ((k, v) # kvs) =
     (if cv_addr key < cv_addr k then (key, val) # (k, v) # kvs
      else if cv_addr key = cv_addr k then (k, val) # kvs
      else (k, v) # map_insert key val kvs)"

definition add_map :: "t_const_value \<Rightarrow> t_const_value \<Rightarrow> t_const_value \<Rightarrow> t_const_value" where
  "add_map key val cv = set_mapVal (map_insert key val (cv_mapVal cv)) cv"

definition add_list :: "t_const_value \<Rightarrow> t_const_value \<Rightarrow> t_const_value" where
  "add_list val cv = set_listVal (cv_listVal cv @ [val]) cv"

definition enum_object :: "heap \<Rightarrow> addr \<Rightarrow> t_enum outcome" where
  "enum_object h ea = (case h_types h ea of Some (Enum e) \<Rightarrow> Ok e | _ \<Rightarrow> Undefined)"

definition after_last_dot :: "string \<Rightarrow> string" where
  "after_last_dot identifier =
     (case rfind_char (CHR ''.'') identifier of None \<Rightarrow> identifier | Some dot \<Rightarrow> drop (dot + 1) identifier)"

definition get_integer :: "heap \<Rightarrow> t_const_value \<Rightarrow> int outcome" where
  "get_integer h cv =
     bind_outcome (deref (cv_valType cv)) (\<lambda>t.
       if t = CV_IDENTIFIER
       then bind_outcome (deref (cv_enum cv)) (\<lambda>en.
         (case en of
            None \<Rightarrow> Throw (''have identifier \"'' @ cv_identifierVal cv @ ''\", but unset enum on line!'')
          | Some ea \<Rightarrow>
              bind_outcome (enum_object h ea) (\<lambda>e.
              let identifier = after_last_dot (cv_identifierVal cv)
              in (case get_constant_by_name e identifier of
                    None \<Rightarrow> Throw (''Unable to find enum value \"'' @ identifier @ ''\" in enum \"'' @ ty_name e @ ''\"'')
                  | Some val \<Rightarrow> Ok (ev_value val)))))
       else deref (cv_intVal cv))"

definition get_identifier_name :: "t_const_value \<Rightarrow> string outcome" where
  "get_identifier_name cv =
     (let ret = cv_identifierVal cv
      in (case find_char (CHR ''.'') ret of
            None \<Rightarrow> Throw (''error: identifier '' @ ret @ '' is unqualified!'')
          | Some s \<Rightarrow>
              (let ret = drop (s + 1) ret
               in (case find_char (CHR ''.'') ret of None \<Rightarrow> Ok ret | Some s \<Rightarrow> Ok (drop (s + 1) ret)))))"

definition get_identifier_with_parent :: "t_const_value \<Rightarrow> string outcome" where
  "get_identifier_with_parent cv =
     (let ret = cv_identifierVal cv
      in (case find_char (CHR ''.'') ret of
            None \<Rightarrow> Throw (''error: identifier '' @ ret @ '' is unqualified!'')
          | Some s \<Rightarrow>
              (case find_from (CHR ''.'') ret (s + 1) of None \<Rightarrow> Ok ret | Some s2 \<Rightarrow> Ok (drop (s + 1) ret))))"

section \<open>Resolution\<close>

text \<open>Copying a named constant into a value.\<close>

definition copy_constant :: "heap \<Rightarrow> t_type_obj \<Rightarrow> t_const \<Rightarrow> t_const_value \<Rightarrow> t_const_value outcome" where
  "copy_constant h const_type constant cv =
     (let from_value = co_value constant
      in (case const_type of
        Base_type b \<Rightarrow>
          (case bt_base b of
             TYPE_I16 \<Rightarrow> bind_outcome (get_integer h from_value) (\<lambda>i. Ok (set_integer i cv))
           | TYPE_I32 \<Rightarrow> bind_outcome (get_integer h from_value) (\<lambda>i. Ok (set_integer i cv))
           | TYPE_I64 \<Rightarrow> bind_outcome (get_integer h from_value) (\<lambda>i. Ok (set_integer i cv))
           | TYPE_BOOL \<Rightarrow> bind_outcome (get_integer h from_value) (\<lambda>i. Ok (set_integer i cv))
           | TYPE_BYTE \<Rightarrow> bind_outcome (get_integer h from_value) (\<lambda>i. Ok (set_integer i cv))
           | TYPE_STRING \<Rightarrow> Ok (set_string (cv_stringVal from_value) cv)
           | TYPE_DOUBLE \<Rightarrow> bind_outcome (deref (cv_doubleVal from_value)) (\<lambda>d. Ok (set_double d cv))
           | TYPE_VOID \<Rightarrow> Throw ''Constants cannot be of type VOID'')
      | Map_type m \<Rightarrow> Ok (foldl (\<lambda>c (k, v). add_map k v c) (set_map cv) (cv_mapVal from_value))
      | List_type l \<Rightarrow> Ok (foldl (\<lambda>c v. add_list v c) (set_list cv) (cv_listVal from_value))
      | _ \<Rightarrow> Ok cv))"

definition resolve_identifier :: "nat \<Rightarrow> heap \<Rightarrow> t_scope \<Rightarrow> t_const_value \<Rightarrow> t_const_value outcome" where
  "resolve_identifier n h sc cv =
     (case fst (get_constant (cv_identifierVal cv) sc) of
        None \<Rightarrow> Throw (''No enum value or constant found named \"'' @ cv_identifierVal cv @ ''\"!'')
      | Some constant \<Rightarrow>
          bind_outcome (get_true_type n h (co_type constant)) (\<lambda>ta.
          bind_outcome (deref (h_types h ta)) (\<lambda>const_type.
            copy_constant h const_type constant cv)))"

definition resolve_enum_integer :: "heap \<Rightarrow> addr \<Rightarrow> t_enum \<Rightarrow> t_const_value \<Rightarrow> t_const_value outcome" where
  "resolve_enum_integer h ea e cv =
     bind_outcome (get_integer h cv) (\<lambda>i.
       (case get_constant_by_value e i of
          None \<Rightarrow> Throw (''Couldn't find a named value in enum '' @ ty_name e @ '' for value '' @ show_int i)
        | Some val \<Rightarrow> Ok (set_enum ea (set_identifier (ty_name e @ ''.'' @ ev_name val) cv))))"

text \<open>The leaves of the recursion: values whose type is no container and no struct.\<close>

definition resolve_leaf :: "nat \<Rightarrow> heap \<Rightarrow> t_scope \<Rightarrow> addr \<Rightarrow> t_type_obj \<Rightarrow> t_const_value \<Rightarrow> t_const_value outcome" where
  "resolve_leaf n h sc ty t cv =
     bind_outcome (deref (cv_valType cv)) (\<lambda>vt.
       if vt = CV_IDENTIFIER
       then (if is_enum t then Ok (set_enum ty cv) else resolve_identifier n h sc cv)
       else (case t of Enum e \<Rightarrow> resolve_enum_integer h ty e cv | _ \<Rightarrow> Ok cv))"

fun sequence_outcome :: "'a outcome list \<Rightarrow> 'a list outcome" where
  "sequence_outcome [] = Ok []"
| "sequence_outcome (x # xs) = bind_outcome x (\<lambda>y. bind_outcome (sequence_outcome xs) (\<lambda>ys. Ok (y # ys)))"

text \<open>The field of a struct that an entry of a constant names.\<close>

definition struct_field :: "heap \<Rightarrow> addr \<Rightarrow> t_type_obj \<Rightarrow> t_const_value \<Rightarrow> t_field outcome" where
  "struct_field h ty t k =
     bind_outcome (get_field_by_name ty (cv_stringVal k) h) (\<lambda>field.
       (case field of
          None \<Rightarrow> Throw (''No field named \"'' @ cv_stringVal k @ ''\" was found in struct of type \"''
                    @ get_name t @ ''\"'')
        | Some fa \<Rightarrow> deref (h_fields h fa)))"

function (sequential) resolve_const_value ::
  "nat \<Rightarrow> heap \<Rightarrow> t_scope \<Rightarrow> t_const_value \<Rightarrow> addr \<Rightarrow> t_const_value outcome" where
  "resolve_const_value n h sc cv ty =
     bind_outcome (deref (h_types h ty)) (\<lambda>t.
       (case t of
          Map_type m \<Rightarrow>
            bind_outcome (sequence_outcome (map (\<lambda>(k, v).
                bind_outcome (resolve_const_value n h sc k (ma_key_type m)) (\<lambda>k'.
                bind_outcome (resolve_const_value n h sc v (ma_val_type m)) (\<lambda>v'. Ok (k', v')))) (cv_mapVal cv)))
              (\<lambda>kvs. Ok (set_mapVal kvs cv))
        | List_type l \<Rightarrow>
            bind_outcome (sequence_outcome (map (\<lambda>v. resolve_const_value n h sc v (li_elem_type l)) (cv_listVal cv)))
              (\<lambda>vs. Ok (set_listVal vs cv))
        | Set_type l \<Rightarrow>
            bind_outcome (sequence_outcome (map (\<lambda>v. resolve_const_value n h sc v (se_elem_type l)) (cv_listVal cv)))
              (\<lambda>vs. Ok (set_listVal vs cv))
        | _ \<Rightarrow>
            if is_struct t
            then bind_outcome (sequence_outcome (map (\<lambda>(k, v).
                bind_outcome (struct_field h ty t k) (\<lambda>f.
                bind_outcome (resolve_const_value n h sc v (fl_type f)) (\<lambda>v'. Ok (k, v')))) (cv_mapVal cv)))
              (\<lambda>kvs. Ok (set_mapVal kvs cv))
            else resolve_leaf n h sc ty t cv))"
  by pat_completeness auto

lemma cv_children_smaller:
  "v \<in> set (cv_listVal cv) \<Longrightarrow> size v < size cv"
  "(k, v) \<in> set (cv_mapVal cv) \<Longrightarrow> size k < size cv"
  "(k, v) \<in> set (cv_mapVal cv) \<Longrightarrow> size v < size cv"
  by (cases cv; force dest!: size_list_estimation' [where f = size, OF _ order_refl]
      size_list_estimation' [where f = "size_prod size size", OF _ order_refl])+

termination resolve_const_value
  by (relation "measure (\<lambda>(n, h, sc, cv, ty). size cv)") (auto dest: cv_children_smaller)

declare resolve_const_value.simps [simp del]

section \<open>Access after update\<close>

lemma cv_set_simps [simp]:
  "cv_valType (set_string x cv) = Some CV_STRING" "cv_valType (set_integer i cv) = Some CV_INTEGER"
  "cv_valType (set_double d cv) = Some CV_DOUBLE" "cv_valType (set_map cv) = Some CV_MAP"
  "cv_valType (set_list cv) = Some CV_LIST" "cv_valType (set_identifier x cv) = Some CV_IDENTIFIER"
  "cv_valType (set_enum ea cv) = cv_valType cv" "cv_valType (set_mapVal m cv) = cv_valType cv"
  "cv_valType (set_listVal l cv) = cv_valType cv"
  "cv_intVal (set_integer i cv) = Some i" "cv_stringVal (set_string x cv) = x"
  "cv_doubleVal (set_double d cv) = Some d"
  "cv_identifierVal (set_identifier x cv) = x" "cv_identifierVal (set_enum ea cv) = cv_identifierVal cv"
  "cv_enum (set_enum ea cv) = Some (Some ea)"
  "cv_mapVal (set_mapVal m cv) = m" "cv_listVal (set_listVal l cv) = l"
  "set_mapVal m (set_mapVal m' cv) = set_mapVal m cv" "set_listVal l (set_listVal l' cv) = set_listVal l cv"
  "set_enum ea (set_enum ea' cv) = set_enum ea cv"
  by (cases cv; simp)+

lemma cv_addr_set [simp]:
  "cv_addr (set_string x cv) = cv_addr cv" "cv_addr (set_integer i cv) = cv_addr cv"
  "cv_addr (set_double d cv) = cv_addr cv" "cv_addr (set_map cv) = cv_addr cv"
  "cv_addr (set_list cv) = cv_addr cv" "cv_addr (set_identifier x cv) = cv_addr cv"
  "cv_addr (set_enum ea cv) = cv_addr cv" "cv_addr (set_mapVal m cv) = cv_addr cv"
  "cv_addr (set_listVal l cv) = cv_addr cv" "cv_addr (add_map k v cv) = cv_addr cv"
  "cv_addr (add_list v cv) = cv_addr cv"
  by (cases cv; simp add: add_map_def add_list_def)+

lemma valType_add [simp]:
  "cv_valType (add_map k v cv) = cv_valType cv" "cv_valType (add_list v cv) = cv_valType cv"
  by (simp_all add: add_map_def add_list_def)

lemma foldl_add_map_type [simp]:
  "cv_valType (foldl (\<lambda>c (k, v). add_map k v c) cv kvs) = cv_valType cv"
  by (induction kvs arbitrary: cv) (auto split: prod.splits)

lemma foldl_add_list_type [simp]: "cv_valType (foldl (\<lambda>c v. add_list v c) cv vs) = cv_valType cv"
  by (induction vs arbitrary: cv) auto

text \<open>The map stays ordered by address, and copying an ordered map into an empty one copies it.\<close>

abbreviation map_ordered :: "(t_const_value \<times> t_const_value) list \<Rightarrow> bool" where
  "map_ordered kvs \<equiv> sorted_wrt (<) (map (\<lambda>kv. cv_addr (fst kv)) kvs)"

lemma map_insert_keys:
  "set (map (\<lambda>kv. cv_addr (fst kv)) (map_insert k v kvs)) = insert (cv_addr k) (set (map (\<lambda>kv. cv_addr (fst kv)) kvs))"
  by (induction k v kvs rule: map_insert.induct) auto

lemma map_insert_ordered: "map_ordered kvs \<Longrightarrow> map_ordered (map_insert k v kvs)"
proof (induction k v kvs rule: map_insert.induct)
  case (2 key val k v kvs)
  have keys: "(\<forall>x \<in> set (map_insert key val kvs). P (cv_addr (fst x))) \<longleftrightarrow>
      P (cv_addr key) \<and> (\<forall>x \<in> set kvs. P (cv_addr (fst x)))" for P
    using map_insert_keys [of key val kvs] by (auto simp: set_eq_iff image_iff) (metis fst_conv)+
  from 2 show ?case by (auto simp: keys)
qed simp

lemma map_insert_last:
  "(\<And>kv. kv \<in> set kvs \<Longrightarrow> cv_addr (fst kv) < cv_addr k) \<Longrightarrow> map_insert k v kvs = kvs @ [(k, v)]"
  by (induction kvs) fastforce+

lemma foldl_add_map_ordered:
  "map_ordered (cv_mapVal cv @ kvs) \<Longrightarrow>
     cv_mapVal (foldl (\<lambda>c (k, v). add_map k v c) cv kvs) = cv_mapVal cv @ kvs"
proof (induction kvs arbitrary: cv)
  case (Cons kv kvs)
  obtain k v where kv: "kv = (k, v)" by (cases kv)
  have "cv_mapVal (add_map k v cv) = cv_mapVal cv @ [(k, v)]"
    using Cons.prems by (simp add: add_map_def) (rule map_insert_last, auto simp: kv sorted_wrt_append)
  with Cons.IH [of "add_map k v cv"] Cons.prems show ?case by (simp add: kv)
qed simp

lemma foldl_add_list:
  "cv_listVal (foldl (\<lambda>c v. add_list v c) cv vs) = cv_listVal cv @ vs"
  by (induction vs arbitrary: cv) (simp_all add: add_list_def)

section \<open>Identifiers\<close>

text \<open>
  The qualifier of an identifier is dropped as the comments of the grammar describe:
  \<^verbatim>\<open>get_identifier_name\<close> of \<^verbatim>\<open>Enum.NAME\<close> and of \<^verbatim>\<open>prog.Enum.NAME\<close> is
  \<^verbatim>\<open>NAME\<close>, \<^verbatim>\<open>get_identifier_with_parent\<close> of both is \<^verbatim>\<open>Enum.NAME\<close>, and an
  identifier without a dot is an error for both.
\<close>

lemma identifier_parts:
  assumes "CHR ''.'' \<notin> set a" "CHR ''.'' \<notin> set b" "CHR ''.'' \<notin> set c"
  shows "get_identifier_name (set_identifier (a @ ''.'' @ c) cv) = Ok c \<and>
         get_identifier_name (set_identifier (a @ ''.'' @ b @ ''.'' @ c) cv) = Ok c \<and>
         get_identifier_with_parent (set_identifier (b @ ''.'' @ c) cv) = Ok (b @ ''.'' @ c) \<and>
         get_identifier_with_parent (set_identifier (a @ ''.'' @ b @ ''.'' @ c) cv) = Ok (b @ ''.'' @ c) \<and>
         get_identifier_name (set_identifier c cv) = Throw (''error: identifier '' @ c @ '' is unqualified!'') \<and>
         get_identifier_with_parent (set_identifier c cv) = Throw (''error: identifier '' @ c @ '' is unqualified!'')"
  using assms find_char_None [of "CHR ''.''" c]
  by (simp add: get_identifier_name_def get_identifier_with_parent_def find_char_split find_from_def
      Let_def del: find_char_None)

lemma after_last_dot: "CHR ''.'' \<notin> set b \<Longrightarrow> after_last_dot (a @ ''.'' @ b) = b"
  by (simp add: after_last_dot_def rfind_char_split)

section \<open>Enum values\<close>

lemma constant_by_name_unique:
  "distinct (map ev_name cs) \<Longrightarrow> c \<in> set cs \<Longrightarrow> constant_by_name cs (ev_name c) = Some c"
  by (induction cs) force+

text \<open>
  An integer given for an enum: resolution fails when no constant of the enum has the value;
  otherwise the value becomes the identifier of a constant of that value, and reading it as an
  integer gives the number that was written, for an enum whose constants have distinct names
  without dots.
\<close>

lemma enum_integer_roundtrip:
  assumes e: "h_types h ea = Some (Enum e)" "distinct (map ev_name (en_constants e))"
    and dots: "\<And>c. c \<in> set (en_constants e) \<Longrightarrow> CHR ''.'' \<notin> set (ev_name c)"
    and cv: "cv_valType cv = Some CV_INTEGER" "cv_intVal cv = Some i"
  shows "if i \<in> ev_value ` set (en_constants e)
         then \<exists>cv' c. resolve_const_value n h sc cv ea = Ok cv' \<and> c \<in> set (en_constants e) \<and> ev_value c = i \<and>
                cv_identifierVal cv' = ty_name e @ ''.'' @ ev_name c \<and> get_integer h cv' = Ok i
         else \<exists>msg. resolve_const_value n h sc cv ea = Throw msg"
proof -
  have run: "resolve_const_value n h sc cv ea =
      (case get_constant_by_value e i of
         None \<Rightarrow> Throw (''Couldn't find a named value in enum '' @ ty_name e @ '' for value '' @ show_int i)
       | Some val \<Rightarrow> Ok (set_enum ea (set_identifier (ty_name e @ ''.'' @ ev_name val) cv)))"
    using e(1) cv
    by (simp add: resolve_const_value.simps [of n h sc cv ea] resolve_leaf_def resolve_enum_integer_def get_integer_def)
  show ?thesis
  proof (cases "get_constant_by_value e i")
    case None
    then have "i \<notin> ev_value ` set (en_constants e)"
      by (simp add: get_constant_by_value_def constant_by_value_None)
    with run None show ?thesis by simp
  next
    case (Some c)
    then have c: "c \<in> set (en_constants e)" "ev_value c = i"
      using constant_by_value_Some [of "en_constants e" i c] by (simp_all add: get_constant_by_value_def)
    let ?cv = "set_enum ea (set_identifier (ty_name e @ ''.'' @ ev_name c) cv)"
    have "get_integer h ?cv = Ok i"
      using e c dots [OF c(1)] constant_by_name_unique [OF e(2) c(1)]
      by (simp add: get_integer_def enum_object_def after_last_dot [of _ "ty_name e", simplified] get_constant_by_name_def Let_def)
    with run Some c show ?thesis by auto
  qed
qed

definition color_enum :: t_enum where
  "color_enum = (new_enum 9)\<lparr>ty_name := ''Color'', en_constants := [new_enum_value ''RED'' 1, new_enum_value ''BLUE'' 4]\<rparr>"

definition color_heap :: heap where
  "color_heap = \<lparr>h_types = [0 \<mapsto> Enum color_enum, 1 \<mapsto> Base_type (new_base_type ''i32'' TYPE_I32),
       2 \<mapsto> Set_type (new_set 1), 3 \<mapsto> List_type (new_list 0)],
     h_fields = Map.empty, h_programs = Map.empty, h_next = 20\<rparr>"

lemma enum_integer_roundtrip_witness:
  "h_types color_heap 0 = Some (Enum color_enum) \<and>
   (\<exists>cv'. resolve_const_value 1 color_heap sample_scope (new_const_integer 8 4) 0 = Ok cv' \<and>
      get_integer color_heap cv' = Ok 4)"
proof -
  have h: "h_types color_heap 0 = Some (Enum color_enum)" by (simp add: color_heap_def)
  have "distinct (map ev_name (en_constants color_enum))"
    "\<And>c. c \<in> set (en_constants color_enum) \<Longrightarrow> CHR ''.'' \<notin> set (ev_name c)"
    "4 \<in> ev_value ` set (en_constants color_enum)"
    by (auto simp: color_enum_def new_enum_value_def)
  moreover have "cv_valType (new_const_integer 8 4) = Some CV_INTEGER" "cv_intVal (new_const_integer 8 4) = Some 4"
    by (simp_all add: new_const_integer_def)
  ultimately show ?thesis
    using enum_integer_roundtrip [OF h, of "new_const_integer 8 4" 4 1 sample_scope] h by auto
qed

text \<open>
  A string (or any value without an integer) given for an enum makes
  \<^verbatim>\<open>resolve_const_value\<close> read \<^verbatim>\<open>intVal_\<close>, which no constructor has initialised: the
  behaviour is undefined instead of the type error that \<^verbatim>\<open>validate_const_rec\<close> would report.
\<close>

lemma enum_non_integer_undefined:
  assumes "h_types h ea = Some (Enum e)"
  shows "resolve_const_value n h sc (new_const_string a x) ea = Undefined"
  using assms
  by (simp add: resolve_const_value.simps resolve_leaf_def resolve_enum_integer_def get_integer_def
      new_const_string_def new_const_value_def)

lemma enum_non_integer_undefined_witness:
  "h_types color_heap 0 = Some (Enum color_enum) \<and>
   resolve_const_value 1 color_heap sample_scope (new_const_string 8 ''RED'') 0 = Undefined"
  using enum_non_integer_undefined [of color_heap 0 color_enum 1 sample_scope 8 "''RED''"]
  by (simp add: color_heap_def)

section \<open>Named constants\<close>

text \<open>
  An identifier that names a constant takes over its value: the integer of an integer or
  boolean constant, the string of a string constant, the elements of a list and the entries of a
  map in their order. An identifier that names a constant of any other type (a set, a struct, an
  enum) stays an identifier.
\<close>

lemma resolve_named_constant:
  assumes "cv_valType cv = Some CV_IDENTIFIER" "cv_listVal cv = []" "cv_mapVal cv = []"
    and "smap_find (sc_constants sc) (cv_identifierVal cv) = Some (Some c)"
    and "h_types h ty = Some t" "\<not> is_enum t" "\<not> is_struct t" "\<not> is_container t"
    and "get_true_type n h (co_type c) = Ok ta" "h_types h ta = Some ct" "map_ordered (cv_mapVal (co_value c))"
  shows "(case ct of
            Base_type b \<Rightarrow>
              (if bt_base b \<in> {TYPE_BOOL, TYPE_BYTE, TYPE_I16, TYPE_I32, TYPE_I64}
               then resolve_const_value n h sc cv ty = bind_outcome (get_integer h (co_value c)) (\<lambda>i. Ok (set_integer i cv))
               else bt_base b = TYPE_STRING \<longrightarrow>
                 resolve_const_value n h sc cv ty = Ok (set_string (cv_stringVal (co_value c)) cv))
          | List_type l \<Rightarrow>
              \<exists>v. resolve_const_value n h sc cv ty = Ok v \<and> cv_valType v = Some CV_LIST \<and>
                cv_listVal v = cv_listVal (co_value c)
          | Map_type m \<Rightarrow>
              \<exists>v. resolve_const_value n h sc cv ty = Ok v \<and> cv_valType v = Some CV_MAP \<and>
                cv_mapVal v = cv_mapVal (co_value c)
          | _ \<Rightarrow> resolve_const_value n h sc cv ty = Ok cv)"
proof -
  have "resolve_const_value n h sc cv ty = resolve_leaf n h sc ty t cv"
    using assms(5,7,8) by (cases t) (simp_all add: resolve_const_value.simps)
  then have run: "resolve_const_value n h sc cv ty = copy_constant h ct c cv"
    using assms by (simp add: resolve_leaf_def resolve_identifier_def get_constant_def)
  have l: "cv_listVal (set_list cv) = []" and m: "cv_mapVal (set_map cv) = []"
    using assms(2,3) by (cases cv; simp)+
  show ?thesis
  proof (cases ct)
    case (Base_type b)
    then show ?thesis by (cases "bt_base b") (simp_all add: run copy_constant_def)
  next
    case (List_type lt)
    then show ?thesis by (simp add: run copy_constant_def foldl_add_list l)
  next
    case (Map_type mt)
    then show ?thesis using assms(11) m foldl_add_map_ordered [of "set_map cv" "cv_mapVal (co_value c)"]
      by (simp add: run copy_constant_def)
  qed (simp_all add: run copy_constant_def)
qed

definition named_scope :: t_scope where
  "named_scope = sample_scope\<lparr>sc_constants :=
     [(''L'', Some (new_const 3 ''L'' (add_list (new_const_integer 5 1) (set_list (new_const_value 4))))),
      (''N'', Some (new_const 1 ''N'' (new_const_integer 6 7)))]\<rparr>"

section \<open>Resolution is idempotent\<close>

lemma sequence_outcome_Ok:
  "sequence_outcome (map f xs) = Ok ys \<longleftrightarrow> list_all2 (\<lambda>x y. f x = Ok y) xs ys"
  by (induction xs arbitrary: ys) (auto simp: list_all2_Cons1)

lemma sequence_outcome_again:
  assumes "sequence_outcome (map f xs) = Ok ys" "\<And>x y. x \<in> set xs \<Longrightarrow> f x = Ok y \<Longrightarrow> f y = Ok y"
  shows "sequence_outcome (map f ys) = Ok ys"
  using assms
proof (induction xs arbitrary: ys)
  case (Cons x xs)
  then obtain y zs where "f x = Ok y" "sequence_outcome (map f xs) = Ok zs" "ys = y # zs" by auto
  moreover from this have "sequence_outcome (map f zs) = Ok zs"
    using Cons.prems(2) by (intro Cons.IH) auto
  moreover have "f y = Ok y" using Cons.prems(2) [of x y] calculation(1) by simp
  ultimately show ?case by simp
qed simp

lemma copy_constant_type:
  "copy_constant h ct c cv = Ok cv' \<Longrightarrow> cv_valType cv' \<noteq> Some CV_IDENTIFIER \<or> cv' = cv"
  by (auto simp: copy_constant_def Let_def split: t_type_obj.splits t_base.splits)

lemma copy_constant_valType:
  "copy_constant h ct c cv = Ok cv' \<Longrightarrow> cv_valType cv \<noteq> None \<Longrightarrow> cv_valType cv' \<noteq> None"
  by (auto simp: copy_constant_def Let_def split: t_type_obj.splits t_base.splits)

lemma resolve_leaf_again:
  assumes "resolve_leaf n h sc ty t cv = Ok cv'"
  shows "resolve_leaf n h sc ty t cv' = Ok cv'"
proof -
  obtain vt where vt: "cv_valType cv = Some vt" using assms by (auto simp: resolve_leaf_def)
  show ?thesis
  proof (cases "vt = CV_IDENTIFIER \<and> \<not> is_enum t")
    case True
    then have "resolve_identifier n h sc cv = Ok cv'" using assms vt by (simp add: resolve_leaf_def)
    then obtain ct c where "copy_constant h ct c cv = Ok cv'"
      by (auto simp: resolve_identifier_def split: option.splits)
    then have "cv' = cv \<or> (\<exists>vt. cv_valType cv' = Some vt \<and> vt \<noteq> CV_IDENTIFIER)"
      using copy_constant_type copy_constant_valType vt by (metis option.distinct(1) option.exhaust)
    then show ?thesis
    proof
      assume "cv' = cv"
      with assms show ?thesis by simp
    next
      assume "\<exists>vt. cv_valType cv' = Some vt \<and> vt \<noteq> CV_IDENTIFIER"
      with True show ?thesis by (cases t) (auto simp: resolve_leaf_def)
    qed
  next
    case False
    show ?thesis
    proof (cases "is_enum t")
      case True
      then obtain e where e: "t = Enum e" by (cases t) auto
      show ?thesis
      proof (cases "vt = CV_IDENTIFIER")
        case True
        with assms vt e have "cv' = set_enum ty cv" by (simp add: resolve_leaf_def)
        with True vt e show ?thesis by (simp add: resolve_leaf_def)
      next
        case False
        with assms vt e have "resolve_enum_integer h ty e cv = Ok cv'" by (simp add: resolve_leaf_def)
        then obtain x where "cv' = set_enum ty (set_identifier x cv)"
          by (auto simp: resolve_enum_integer_def split: option.splits)
        with e show ?thesis by (simp add: resolve_leaf_def)
      qed
    next
      case no_enum: False
      with False assms vt show ?thesis by (cases t) (auto simp: resolve_leaf_def)
    qed
  qed
qed

text \<open>
  C24: Resolving a constant value against its type is idempotent: a value that has been resolved
  is left as it is by a second resolution, at every depth of lists, maps and structs.
\<close>

theorem resolve_idempotent:
  "resolve_const_value n h sc cv ty = Ok cv' \<Longrightarrow> resolve_const_value n h sc cv' ty = Ok cv'"
proof (induction "size cv" arbitrary: cv ty cv' rule: less_induct)
  case less
  note IH = less.hyps [OF cv_children_smaller(1)] less.hyps [OF cv_children_smaller(2)]
    less.hyps [OF cv_children_smaller(3)]
  from less.prems obtain t where t: "h_types h ty = Some t"
    by (auto simp: resolve_const_value.simps [of n h sc cv ty])
  note run = resolve_const_value.simps [of n h sc _ ty] t
  have leaf: ?case if "resolve_const_value n h sc cv ty = resolve_leaf n h sc ty t cv"
      "resolve_const_value n h sc cv' ty = resolve_leaf n h sc ty t cv'"
    using that less.prems by (simp add: resolve_leaf_again)
  show ?case
  proof (cases t)
    case (Map_type m)
    let ?f = "\<lambda>(k, v). bind_outcome (resolve_const_value n h sc k (ma_key_type m)) (\<lambda>k'.
        bind_outcome (resolve_const_value n h sc v (ma_val_type m)) (\<lambda>v'. Ok (k', v')))"
    from less.prems obtain kvs where kvs: "sequence_outcome (map ?f (cv_mapVal cv)) = Ok kvs" "cv' = set_mapVal kvs cv"
      by (auto simp: run Map_type)
    have "sequence_outcome (map ?f kvs) = Ok kvs"
      by (rule sequence_outcome_again [OF kvs(1)])
        (auto intro: IH(2,3))
    with kvs(2) show ?thesis by (simp add: run Map_type)
  next
    case (List_type l)
    let ?f = "\<lambda>v. resolve_const_value n h sc v (li_elem_type l)"
    from less.prems obtain vs where vs: "sequence_outcome (map ?f (cv_listVal cv)) = Ok vs" "cv' = set_listVal vs cv"
      by (auto simp: run List_type)
    have "sequence_outcome (map ?f vs) = Ok vs"
      by (rule sequence_outcome_again [OF vs(1)]) (rule IH(1))
    with vs(2) show ?thesis by (simp add: run List_type)
  next
    case (Set_type l)
    let ?f = "\<lambda>v. resolve_const_value n h sc v (se_elem_type l)"
    from less.prems obtain vs where vs: "sequence_outcome (map ?f (cv_listVal cv)) = Ok vs" "cv' = set_listVal vs cv"
      by (auto simp: run Set_type)
    have "sequence_outcome (map ?f vs) = Ok vs"
      by (rule sequence_outcome_again [OF vs(1)]) (rule IH(1))
    with vs(2) show ?thesis by (simp add: run Set_type)
  next
    case (Struct s)
    show ?thesis
    proof (cases "is_struct t")
      case True
      let ?f = "\<lambda>(k, v). bind_outcome (struct_field h ty t k) (\<lambda>f.
          bind_outcome (resolve_const_value n h sc v (fl_type f)) (\<lambda>v'. Ok (k, v')))"
      from less.prems True obtain kvs where kvs: "sequence_outcome (map ?f (cv_mapVal cv)) = Ok kvs" "cv' = set_mapVal kvs cv"
        by (auto simp: run Struct)
      have "sequence_outcome (map ?f kvs) = Ok kvs"
        by (rule sequence_outcome_again [OF kvs(1)])
          (auto, erule (1) IH(3))
      with kvs(2) True show ?thesis by (simp add: run Struct)
    next
      case False
      then show ?thesis by (intro leaf) (simp_all add: run Struct)
    qed
  qed (rule leaf; simp add: run)+
qed

theorem resolve_idempotent_witness:
  "\<exists>cv'. resolve_const_value 1 color_heap sample_scope
       (add_list (new_const_integer 5 4) (set_list (new_const_value 4))) 3 = Ok cv' \<and>
     resolve_const_value 1 color_heap sample_scope cv' 3 = Ok cv'"
proof -
  let ?cv = "add_list (new_const_integer 5 4) (set_list (new_const_value 4))"
  let ?cv' = "set_listVal [set_enum 0 (set_identifier ''Color.BLUE'' (new_const_integer 5 4))] ?cv"
  have "resolve_const_value 1 color_heap sample_scope ?cv 3 = Ok ?cv'"
    by (simp add: resolve_const_value.simps color_heap_def color_enum_def new_list_def new_enum_value_def
        new_const_integer_def new_const_value_def add_list_def resolve_leaf_def resolve_enum_integer_def
        get_integer_def get_constant_by_value_def)
  with resolve_idempotent [OF this] show ?thesis by blast
qed

end
