(* ===== verification/Validate.thy ===== *)
theory Validate
  imports Const_Value
begin

text \<open>
  The checks of \<^verbatim>\<open>main.cc\<close> on the parse tree: constants against their declared types
  (\<^verbatim>\<open>validate_const_rec\<close> and its two callers), identifiers without dots, and the
  \<^verbatim>\<open>throws\<close> clauses of functions. The checker is compared with a typing judgement for
  constants that is written as inductive rules.
\<close>

section \<open>The checks\<close>

definition base_type_name_error :: "string \<Rightarrow> string \<Rightarrow> unit outcome" where
  "base_type_name_error name declared = Throw (''type error: const \"'' @ name @ ''\" was declared as '' @ declared)"

definition validate_base :: "string \<Rightarrow> t_base \<Rightarrow> t_const_value_type \<Rightarrow> unit outcome" where
  "validate_base name tbase vt =
     (case tbase of
        TYPE_STRING \<Rightarrow> if vt \<noteq> CV_STRING then base_type_name_error name ''string'' else Ok ()
      | TYPE_BOOL \<Rightarrow> if vt \<noteq> CV_INTEGER then base_type_name_error name ''bool'' else Ok ()
      | TYPE_BYTE \<Rightarrow> if vt \<noteq> CV_INTEGER then base_type_name_error name ''byte'' else Ok ()
      | TYPE_I16 \<Rightarrow> if vt \<noteq> CV_INTEGER then base_type_name_error name ''i16'' else Ok ()
      | TYPE_I32 \<Rightarrow> if vt \<noteq> CV_INTEGER then base_type_name_error name ''i32'' else Ok ()
      | TYPE_I64 \<Rightarrow> if vt \<noteq> CV_INTEGER then base_type_name_error name ''i64'' else Ok ()
      | TYPE_DOUBLE \<Rightarrow>
          if vt \<noteq> CV_INTEGER \<and> vt \<noteq> CV_DOUBLE then base_type_name_error name ''double'' else Ok ()
      | TYPE_VOID \<Rightarrow> Throw (''compiler error: no const of base type '' @ t_base_name tbase @ name))"

definition validate_enum :: "string \<Rightarrow> t_enum \<Rightarrow> t_const_value \<Rightarrow> unit outcome" where
  "validate_enum name e value =
     bind_outcome (deref (cv_valType value)) (\<lambda>vt.
       if vt \<noteq> CV_IDENTIFIER then base_type_name_error name ''enum''
       else bind_outcome (get_identifier_name value) (\<lambda>name_portion.
         if \<exists>c \<in> set (en_constants e). ev_name c = name_portion then Ok ()
         else Throw (''type error: const '' @ name @ '' was declared as type '' @ ty_name e
                @ '' which is an enum, but '' @ cv_identifierVal value
                @ '' is not a valid value for that enum'')))"

text \<open>The scan for the field of an entry goes through all members: the last match counts.\<close>

fun last_field_type :: "t_field list \<Rightarrow> string \<Rightarrow> addr option \<Rightarrow> addr option" where
  "last_field_type [] name field_type = field_type"
| "last_field_type (f # fs) name field_type =
     last_field_type fs name (if fl_name f = name then Some (fl_type f) else field_type)"

definition entry_type :: "heap \<Rightarrow> string \<Rightarrow> t_struct \<Rightarrow> t_const_value \<Rightarrow> addr outcome" where
  "entry_type h name s k =
     bind_outcome (deref (cv_valType k)) (\<lambda>vt.
       if vt \<noteq> CV_STRING then Throw (''type error: '' @ name @ '' struct key must be string'')
       else bind_outcome (read_fields h (st_members s)) (\<lambda>fields.
         (case last_field_type fields (cv_stringVal k) None of
            None \<Rightarrow> Throw (''type error: '' @ ty_name s @ '' has no field '' @ cv_stringVal k)
          | Some ft \<Rightarrow> Ok ft)))"

fun check_all :: "unit outcome list \<Rightarrow> unit outcome" where
  "check_all [] = Ok ()"
| "check_all (x # xs) = bind_outcome x (\<lambda>_. check_all xs)"

function (sequential) validate_const_rec :: "heap \<Rightarrow> string \<Rightarrow> addr \<Rightarrow> t_const_value \<Rightarrow> unit outcome" where
  "validate_const_rec h name ty value =
     bind_outcome (deref (h_types h ty)) (\<lambda>t.
       if is_void t then Throw (''type error: cannot declare a void const: '' @ name)
       else (case t of
          Base_type b \<Rightarrow> bind_outcome (deref (cv_valType value)) (\<lambda>vt. validate_base name (bt_base b) vt)
        | Enum e \<Rightarrow> validate_enum name e value
        | Struct s \<Rightarrow>
            bind_outcome (deref (cv_valType value)) (\<lambda>vt.
              if vt \<noteq> CV_MAP then base_type_name_error name ''struct/xception''
              else check_all (map (\<lambda>(k, v).
                bind_outcome (entry_type h name s k) (\<lambda>ft.
                  validate_const_rec h (name @ ''.'' @ cv_stringVal k) ft v)) (cv_mapVal value)))
        | Map_type m \<Rightarrow>
            check_all (map (\<lambda>(k, v).
              bind_outcome (validate_const_rec h (name @ ''<key>'') (ma_key_type m) k) (\<lambda>_.
                validate_const_rec h (name @ ''<val>'') (ma_val_type m) v)) (cv_mapVal value))
        | List_type l \<Rightarrow>
            check_all (map (\<lambda>v. validate_const_rec h (name @ ''<elem>'') (li_elem_type l) v) (cv_listVal value))
        | Set_type l \<Rightarrow>
            check_all (map (\<lambda>v. validate_const_rec h (name @ ''<elem>'') (se_elem_type l) v) (cv_listVal value))
        | _ \<Rightarrow> Ok ()))"
  by pat_completeness auto

termination validate_const_rec
  by (relation "measure (\<lambda>(h, name, ty, value). size value)") (auto dest: cv_children_smaller)

declare validate_const_rec.simps [simp del]

definition validate_simple_identifier :: "string \<Rightarrow> unit outcome" where
  "validate_simple_identifier identifier =
     (case find_char (CHR ''.'') identifier of
        Some i \<Rightarrow> Exit (''Identifier '' @ identifier @ '' can't have a dot.'')
      | None \<Rightarrow> Ok ())"

definition validate_const_type :: "heap \<Rightarrow> t_const \<Rightarrow> unit outcome" where
  "validate_const_type h c = validate_const_rec h (co_name c) (co_type c) (co_value c)"

definition validate_field_value :: "heap \<Rightarrow> t_field \<Rightarrow> t_const_value \<Rightarrow> unit outcome" where
  "validate_field_value h f cv = validate_const_rec h (fl_name f) (fl_type f) cv"

fun all_xceptions :: "nat \<Rightarrow> heap \<Rightarrow> t_field list \<Rightarrow> bool outcome" where
  "all_xceptions n h [] = Ok True"
| "all_xceptions n h (f # fs) =
     bind_outcome (get_true_type n h (fl_type f)) (\<lambda>ta.
     bind_outcome (deref (h_types h ta)) (\<lambda>t.
       if is_xception t then all_xceptions n h fs else Ok False))"

definition validate_throws :: "nat \<Rightarrow> heap \<Rightarrow> t_struct \<Rightarrow> bool outcome" where
  "validate_throws n h throws =
     bind_outcome (read_fields h (st_members throws)) (all_xceptions n h)"

datatype parse_mode = INCLUDES | PROGRAM

text \<open>Whether \<^verbatim>\<open>check_for_list_of_bytes\<close> prints its warning.\<close>

definition check_for_list_of_bytes :: "parse_mode \<Rightarrow> t_type_obj option \<Rightarrow> bool" where
  "check_for_list_of_bytes mode list_elem_type \<longleftrightarrow>
     mode = PROGRAM \<and> (case list_elem_type of Some (Base_type b) \<Rightarrow> bt_base b = TYPE_BYTE | _ \<Rightarrow> False)"

section \<open>A typing judgement for constants\<close>

text \<open>
  Which values a declared type admits: a value of the right kind for a base type, the qualified
  name of a constant for an enum, entries for fields of a struct, well-typed elements for a
  container. Nothing is asked of a value whose declared type is a typedef or a service.
\<close>

fun base_admits :: "t_base \<Rightarrow> t_const_value_type \<Rightarrow> bool" where
  "base_admits TYPE_VOID vt = False"
| "base_admits TYPE_STRING vt = (vt = CV_STRING)"
| "base_admits TYPE_DOUBLE vt = (vt = CV_INTEGER \<or> vt = CV_DOUBLE)"
| "base_admits _ vt = (vt = CV_INTEGER)"

inductive const_typed :: "heap \<Rightarrow> addr \<Rightarrow> t_const_value \<Rightarrow> bool" for h where
  typed_base: "h_types h ty = Some (Base_type b) \<Longrightarrow> cv_valType v = Some vt \<Longrightarrow> base_admits (bt_base b) vt \<Longrightarrow>
     const_typed h ty v"
| typed_enum: "h_types h ty = Some (Enum e) \<Longrightarrow> cv_valType v = Some CV_IDENTIFIER \<Longrightarrow>
     get_identifier_name v = Ok (ev_name c) \<Longrightarrow> c \<in> set (en_constants e) \<Longrightarrow> const_typed h ty v"
| typed_struct: "h_types h ty = Some (Struct s) \<Longrightarrow> cv_valType v = Some CV_MAP \<Longrightarrow>
     (\<And>k x. (k, x) \<in> set (cv_mapVal v) \<Longrightarrow>
        cv_valType k = Some CV_STRING \<and>
        (\<exists>fa f. fa \<in> set (st_members s) \<and> h_fields h fa = Some f \<and> fl_name f = cv_stringVal k \<and>
           const_typed h (fl_type f) x)) \<Longrightarrow>
     const_typed h ty v"
| typed_map: "h_types h ty = Some (Map_type m) \<Longrightarrow>
     (\<And>k x. (k, x) \<in> set (cv_mapVal v) \<Longrightarrow> const_typed h (ma_key_type m) k \<and> const_typed h (ma_val_type m) x) \<Longrightarrow>
     const_typed h ty v"
| typed_list: "h_types h ty = Some (List_type l) \<Longrightarrow>
     (\<And>x. x \<in> set (cv_listVal v) \<Longrightarrow> const_typed h (li_elem_type l) x) \<Longrightarrow> const_typed h ty v"
| typed_set: "h_types h ty = Some (Set_type l) \<Longrightarrow>
     (\<And>x. x \<in> set (cv_listVal v) \<Longrightarrow> const_typed h (se_elem_type l) x) \<Longrightarrow> const_typed h ty v"
| typed_typedef: "h_types h ty = Some (Typedef td) \<Longrightarrow> const_typed h ty v"
| typed_service: "h_types h ty = Some (Service sv) \<Longrightarrow> const_typed h ty v"

inductive_cases const_typedE: "const_typed h ty v"

lemma check_all_Ok: "check_all xs = Ok () \<longleftrightarrow> (\<forall>x \<in> set xs. x = Ok ())"
  by (induction xs) auto

lemma validate_base_Ok: "validate_base name b vt = Ok () \<longleftrightarrow> base_admits b vt"
  by (cases b) (simp_all add: validate_base_def base_type_name_error_def)

lemma validate_enum_Ok:
  "validate_enum name e v = Ok () \<longleftrightarrow>
     cv_valType v = Some CV_IDENTIFIER \<and> (\<exists>c \<in> set (en_constants e). get_identifier_name v = Ok (ev_name c))"
  by (auto simp: validate_enum_def base_type_name_error_def split: if_splits)

lemma last_field_type_Some:
  "distinct (map fl_name fs) \<Longrightarrow>
     last_field_type fs name acc = Some ft \<longleftrightarrow>
       (\<exists>f \<in> set fs. fl_name f = name \<and> fl_type f = ft) \<or> (name \<notin> fl_name ` set fs \<and> acc = Some ft)"
proof (induction fs arbitrary: acc)
  case (Cons f fs)
  then show ?case by (cases "fl_name f = name") (auto simp: image_iff)
qed simp

lemma entry_type_Ok:
  assumes wf: "struct_wf h s"
  shows "entry_type h name s k = Ok ft \<longleftrightarrow> cv_valType k = Some CV_STRING \<and>
    (\<exists>fa f. fa \<in> set (st_members s) \<and> h_fields h fa = Some f \<and> fl_name f = cv_stringVal k \<and> fl_type f = ft)"
proof -
  let ?fs = "map (\<lambda>fa. the (h_fields h fa)) (st_members s)"
  have dom: "set (st_members s) \<subseteq> dom (h_fields h)" and dist: "distinct (map fl_name ?fs)"
    using wf by (simp_all add: struct_wf_def names_of_def o_def)
  have "last_field_type ?fs x None = Some ft \<longleftrightarrow> (\<exists>f \<in> set ?fs. fl_name f = x \<and> fl_type f = ft)" for x
    using last_field_type_Some [OF dist] by simp
  moreover have "(\<exists>f \<in> set ?fs. fl_name f = x \<and> fl_type f = ft) \<longleftrightarrow>
      (\<exists>fa f. fa \<in> set (st_members s) \<and> h_fields h fa = Some f \<and> fl_name f = x \<and> fl_type f = ft)" for x
    using dom by force
  ultimately have last: "last_field_type ?fs x None = Some ft \<longleftrightarrow>
      (\<exists>fa f. fa \<in> set (st_members s) \<and> h_fields h fa = Some f \<and> fl_name f = x \<and> fl_type f = ft)" for x
    by simp
  have "entry_type h name s k = Ok ft \<longleftrightarrow>
      cv_valType k = Some CV_STRING \<and> last_field_type ?fs (cv_stringVal k) None = Some ft"
    using read_fields_Ok [OF dom] by (auto simp: entry_type_def split: option.splits)
  then show ?thesis unfolding last .
qed
text \<open>
  C13: \<^verbatim>\<open>validate_const_rec\<close> accepts a constant exactly when it is typed by the judgement
  \<open>const_typed\<close>, in a heap whose structs satisfy the invariant that \<^verbatim>\<open>t_struct::append\<close>
  keeps: no ill-typed constant passes, and no well-typed one is refused, at any depth.
\<close>

theorem validate_iff_typed:
  assumes wf: "\<And>a s. h_types h a = Some (Struct s) \<Longrightarrow> struct_wf h s"
  shows "validate_const_rec h name ty v = Ok () \<longleftrightarrow> const_typed h ty v"
proof (induction "size v" arbitrary: v ty name rule: less_induct)
  case less
  note IH = less [OF cv_children_smaller(1)] less [OF cv_children_smaller(2)] less [OF cv_children_smaller(3)]
  show ?case
  proof (cases "h_types h ty")
    case None
    then show ?thesis by (auto simp: validate_const_rec.simps [of h name ty v] elim: const_typedE)
  next
    case (Some t)
    note run = validate_const_rec.simps [of h name ty v] Some check_all_Ok
    show ?thesis
    proof (cases t)
      case (Base_type b)
      then show ?thesis
        using Some by (auto simp: run validate_base_Ok intro: typed_base elim: const_typedE)
    next
      case (Enum e)
      then show ?thesis
        using Some by (auto simp: run validate_enum_Ok intro: typed_enum elim!: const_typedE)
    next
      case (Struct s)
      have entry: "bind_outcome (entry_type h name s k) (\<lambda>ft. validate_const_rec h (name @ ''.'' @ cv_stringVal k) ft x) = Ok () \<longleftrightarrow>
          cv_valType k = Some CV_STRING \<and>
          (\<exists>fa f. fa \<in> set (st_members s) \<and> h_fields h fa = Some f \<and> fl_name f = cv_stringVal k \<and> const_typed h (fl_type f) x)"
        if "(k, x) \<in> set (cv_mapVal v)" for k x
        using IH(3) [OF that] Some Struct wf by (auto simp: entry_type_Ok)
      have "const_typed h ty v \<longleftrightarrow> cv_valType v = Some CV_MAP \<and> (\<forall>(k, x) \<in> set (cv_mapVal v).
          cv_valType k = Some CV_STRING \<and>
          (\<exists>fa f. fa \<in> set (st_members s) \<and> h_fields h fa = Some f \<and> fl_name f = cv_stringVal k \<and> const_typed h (fl_type f) x))"
        using Some Struct by (auto elim!: const_typedE) (rule typed_struct, auto)
      with Struct Some entry show ?thesis
        by (auto simp: run base_type_name_error_def split: if_splits)
    next
      case (Map_type m)
      have "const_typed h ty v \<longleftrightarrow> (\<forall>(k, x) \<in> set (cv_mapVal v). const_typed h (ma_key_type m) k \<and> const_typed h (ma_val_type m) x)"
        using Some Map_type by (auto intro: typed_map elim!: const_typedE)
      with Map_type Some IH(2,3) show ?thesis by (auto simp: run)
    next
      case (List_type l)
      have "const_typed h ty v \<longleftrightarrow> (\<forall>x \<in> set (cv_listVal v). const_typed h (li_elem_type l) x)"
        using Some List_type by (auto intro: typed_list elim!: const_typedE)
      with List_type Some IH(1) show ?thesis by (auto simp: run)
    next
      case (Set_type l)
      have "const_typed h ty v \<longleftrightarrow> (\<forall>x \<in> set (cv_listVal v). const_typed h (se_elem_type l) x)"
        using Some Set_type by (auto intro: typed_set elim!: const_typedE)
      with Set_type Some IH(1) show ?thesis by (auto simp: run)
    qed (use Some in \<open>auto simp: run intro: typed_typedef typed_service\<close>)
  qed
qed

theorem validate_iff_typed_witness:
  "(\<forall>s. h_types color_heap 3 \<noteq> Some (Struct s)) \<and>
   const_typed color_heap 3 (add_list (set_identifier ''Color.RED'' (new_const_value 5)) (set_list (new_const_value 4)))"
proof -
  have wf: "struct_wf color_heap s" if "h_types color_heap a = Some (Struct s)" for a s
    using that by (simp add: color_heap_def split: if_splits)
  have "validate_const_rec color_heap ''c'' 3
      (add_list (set_identifier ''Color.RED'' (new_const_value 5)) (set_list (new_const_value 4))) = Ok ()"
    by (simp add: validate_const_rec.simps color_heap_def color_enum_def new_list_def add_list_def
        new_const_value_def validate_enum_def get_identifier_name_def new_enum_value_def)
  with validate_iff_typed [OF wf] show ?thesis by (simp add: color_heap_def)
qed

text \<open>
  An identifier given for a container is neither resolved nor refused: whatever it names,
  \<^verbatim>\<open>resolve_const_value\<close> leaves it as it is and \<^verbatim>\<open>validate_const_type\<close> accepts it,
  with no element.
\<close>

lemma container_identifier_unchecked:
  assumes "h_types h ty = Some t" "is_container t" "cv_listVal v = []" "cv_mapVal v = []"
  shows "resolve_const_value n h sc v ty = Ok v \<and> validate_const_type h (new_const ty name v) = Ok ()"
proof -
  have "set_listVal [] v = v" "set_mapVal [] v = v" using assms(3,4) by (cases v; simp)+
  with assms show ?thesis
    by (cases t) (simp_all add: resolve_const_value.simps [of n h sc v ty] validate_const_type_def new_const_def
        validate_const_rec.simps [of h name ty v])
qed

section \<open>Throws clauses\<close>

text \<open>
  \<^verbatim>\<open>validate_throws\<close>, when it returns, accepts a clause exactly when the type of every
  field is an exception once its typedefs are resolved.
\<close>

lemma validate_throws_spec:
  assumes dom: "set (st_members s) \<subseteq> dom (h_fields h)"
    and res: "\<And>fa f. fa \<in> set (st_members s) \<Longrightarrow> h_fields h fa = Some f \<Longrightarrow> \<exists>ta. get_true_type n h (fl_type f) = Ok ta"
  shows "\<exists>b. validate_throws n h s = Ok b \<and>
     (b \<longleftrightarrow> (\<forall>fa \<in> set (st_members s). \<exists>f ta t. h_fields h fa = Some f \<and>
        get_true_type n h (fl_type f) = Ok ta \<and> h_types h ta = Some t \<and> is_xception t))"
proof -
  let ?ok = "\<lambda>f. \<exists>ta t. get_true_type n h (fl_type f) = Ok ta \<and> h_types h ta = Some t \<and> is_xception t"
  have loop: "all_xceptions n h fs = Ok (\<forall>f \<in> set fs. ?ok f)"
    if "\<And>f. f \<in> set fs \<Longrightarrow> \<exists>ta. get_true_type n h (fl_type f) = Ok ta" for fs
    using that
  proof (induction fs)
    case (Cons f fs)
    then obtain ta where ta: "get_true_type n h (fl_type f) = Ok ta" by auto
    obtain t where t: "h_types h ta = Some t" using get_true_type_Ok [OF ta] by blast
    from Cons ta t show ?case by auto
  qed simp
  have "validate_throws n h s = Ok (\<forall>f \<in> set (map (\<lambda>fa. the (h_fields h fa)) (st_members s)). ?ok f)"
    unfolding validate_throws_def read_fields_Ok [OF dom] bind_outcome.simps
    by (rule loop) (use dom res in force)
  moreover have "(\<forall>f \<in> set (map (\<lambda>fa. the (h_fields h fa)) (st_members s)). ?ok f) \<longleftrightarrow>
      (\<forall>fa \<in> set (st_members s). \<exists>f ta t. h_fields h fa = Some f \<and>
        get_true_type n h (fl_type f) = Ok ta \<and> h_types h ta = Some t \<and> is_xception t)"
    using dom by force
  ultimately show ?thesis by blast
qed

end
