(* ===== verification/Program.thy ===== *)
theory Program
  imports Validate
begin

text \<open>
  The program object (\<^verbatim>\<open>t_program.h\<close>): output path, includes, namespaces, the collections of
  definitions, and the detection of colliding type names; with the two functions of
  \<^verbatim>\<open>main.cc\<close> that take a path apart. Warnings are not modelled; the result that a warning
  accompanies is.
\<close>

section \<open>Paths\<close>

definition program_name :: "string \<Rightarrow> string" where
  "program_name filename =
     (let filename = (case rfind_char (CHR ''/'') filename of None \<Rightarrow> filename | Some slash \<Rightarrow> drop (slash + 1) filename)
      in (case rfind_char (CHR ''.'') filename of None \<Rightarrow> filename | Some dot \<Rightarrow> take dot filename))"

definition directory_name :: "string \<Rightarrow> string" where
  "directory_name filename =
     (case rfind_char (CHR ''/'') filename of None \<Rightarrow> ''.'' | Some slash \<Rightarrow> take slash filename)"

section \<open>The program object\<close>

definition empty_scope :: t_scope where
  "empty_scope = \<lparr>sc_types = [], sc_constants = [], sc_services = []\<rparr>"

definition new_program_named :: "string \<Rightarrow> string \<Rightarrow> t_program" where
  "new_program_named path name =
     \<lparr>doc = '''', has_doc = False, pr_path = path, pr_name = name, pr_out_path = ''./'',
      pr_out_path_is_absolute = False, pr_namespace = '''', pr_includes = [], pr_include_prefix = '''',
      pr_scope = empty_scope, pr_typedefs = [], pr_enums = [], pr_consts = [], pr_objects = [],
      pr_structs = [], pr_xceptions = [], pr_services = [], pr_namespaces = [], pr_cpp_includes = [],
      pr_c_includes = []\<rparr>"

definition new_program :: "string \<Rightarrow> t_program" where
  "new_program path = new_program_named path (program_name path)"

definition add_typedef :: "addr \<Rightarrow> t_program \<Rightarrow> t_program" where
  "add_typedef td p = p\<lparr>pr_typedefs := pr_typedefs p @ [td]\<rparr>"

definition add_enum :: "addr \<Rightarrow> t_program \<Rightarrow> t_program" where
  "add_enum te p = p\<lparr>pr_enums := pr_enums p @ [te]\<rparr>"

definition add_const :: "t_const \<Rightarrow> t_program \<Rightarrow> t_program" where
  "add_const tc p = p\<lparr>pr_consts := pr_consts p @ [tc]\<rparr>"

definition add_struct :: "addr \<Rightarrow> t_program \<Rightarrow> t_program" where
  "add_struct ts p = p\<lparr>pr_objects := pr_objects p @ [ts], pr_structs := pr_structs p @ [ts]\<rparr>"

definition add_xception :: "addr \<Rightarrow> t_program \<Rightarrow> t_program" where
  "add_xception tx p = p\<lparr>pr_objects := pr_objects p @ [tx], pr_xceptions := pr_xceptions p @ [tx]\<rparr>"

definition program_add_service :: "addr \<Rightarrow> t_program \<Rightarrow> t_program" where
  "program_add_service ts p = p\<lparr>pr_services := pr_services p @ [ts]\<rparr>"

definition add_cpp_include :: "string \<Rightarrow> t_program \<Rightarrow> t_program" where
  "add_cpp_include path p = p\<lparr>pr_cpp_includes := pr_cpp_includes p @ [path]\<rparr>"

definition add_c_include :: "string \<Rightarrow> t_program \<Rightarrow> t_program" where
  "add_c_include path p = p\<lparr>pr_c_includes := pr_c_includes p @ [path]\<rparr>"

text \<open>
  \<^verbatim>\<open>out_path_.at(size - 1)\<close> throws \<^verbatim>\<open>std::out_of_range\<close> for an empty path, which
  nothing catches.
\<close>

definition set_out_path :: "string \<Rightarrow> bool \<Rightarrow> t_program \<Rightarrow> t_program outcome" where
  "set_out_path out_path out_path_is_absolute p =
     (if out_path = '''' then Exit ''std::out_of_range''
      else let c = last out_path;
               out_path = (if \<not> (c = CHR ''/'' \<or> c = CHR 0x5C) then out_path @ ''/'' else out_path)
           in Ok (p\<lparr>pr_out_path := out_path, pr_out_path_is_absolute := out_path_is_absolute\<rparr>))"

definition set_include_prefix :: "string \<Rightarrow> t_program \<Rightarrow> t_program" where
  "set_include_prefix include_prefix p =
     p\<lparr>pr_include_prefix :=
        (if length include_prefix > 0 \<and> include_prefix ! (length include_prefix - 1) \<noteq> CHR ''/''
         then include_prefix @ ''/'' else include_prefix)\<rparr>"

definition alloc_program :: "t_program \<Rightarrow> heap \<Rightarrow> addr \<times> heap" where
  "alloc_program p h = (h_next h, h\<lparr>h_programs := (h_programs h)(h_next h \<mapsto> p), h_next := Suc (h_next h)\<rparr>)"

definition add_include :: "addr \<Rightarrow> string \<Rightarrow> string \<Rightarrow> (heap, unit) action" where
  "add_include pa path include_site =
     bindA (getsO (\<lambda>h. deref (h_programs h pa))) (\<lambda>p.
       (let include_prefix = (case rfind_char (CHR ''/'') include_site of None \<Rightarrow> '''' | Some i \<Rightarrow> take i include_site)
        in modify (\<lambda>h.
          let (ia, h) = alloc_program (set_include_prefix include_prefix (new_program path)) h
          in put_program pa (p\<lparr>pr_includes := pr_includes p @ [ia]\<rparr>) h)))"

text \<open>
  The generators registered with the compiler, each with the sub-namespaces its
  \<^verbatim>\<open>is_valid_namespace\<close> accepts. The checks against them only decide which warnings are printed.
\<close>

type_synonym gen_map = "(string \<times> (string \<Rightarrow> bool)) list"

definition quoted :: "string \<Rightarrow> string" where
  "quoted s = CHR 0x27 # s @ [CHR 0x27]"

definition namespace_warnings :: "gen_map \<Rightarrow> string \<Rightarrow> string list" where
  "namespace_warnings gens language =
     (if language = ''*'' then []
      else
        let sub_index = find_char (CHR ''.'') language;
            prefix = (case sub_index of None \<Rightarrow> language | Some i \<Rightarrow> take i language);
            base_language = (if prefix = ''smalltalk'' then ''st'' else prefix)
        in (if prefix = ''smalltalk''
            then [''Namespace '' @ quoted ''smalltalk'' @ '' is deprecated. Use '' @ quoted ''st'' @ '' instead'']
            else []) @
           (case map_of gens base_language of
              None \<Rightarrow> [''No generator named '' @ quoted base_language @ '' could be found!'']
            | Some is_valid_namespace \<Rightarrow>
                (case sub_index of
                   None \<Rightarrow> []
                 | Some i \<Rightarrow>
                     (let sub_namespace = drop (Suc i) language
                      in if is_valid_namespace sub_namespace then []
                         else [base_language @ '' generator does not accept '' @ quoted sub_namespace @
                               '' as sub-namespace!'']))))"

definition set_namespace :: "gen_map \<Rightarrow> string \<Rightarrow> string \<Rightarrow> t_program \<Rightarrow> string list \<times> t_program" where
  "set_namespace gens language name_space p =
     (namespace_warnings gens language,
      p\<lparr>pr_namespaces := smap_set language name_space (pr_namespaces p)\<rparr>)"

definition get_namespace :: "t_program \<Rightarrow> string \<Rightarrow> string" where
  "get_namespace p language =
     (case smap_find (pr_namespaces p) language of
        Some ns \<Rightarrow> ns
      | None \<Rightarrow> (case smap_find (pr_namespaces p) ''*'' of Some ns \<Rightarrow> ns | None \<Rightarrow> ''''))"

section \<open>Colliding type names\<close>

definition is_common_namespace :: "heap \<Rightarrow> addr \<Rightarrow> t_type_obj \<Rightarrow> bool outcome" where
  "is_common_namespace h pa t =
     (if Some pa = get_program t then Ok True
      else bind_outcome (deref (h_programs h pa)) (\<lambda>prog.
           bind_outcome (deref (get_program t)) (\<lambda>ta.
           bind_outcome (deref (h_programs h ta)) (\<lambda>tprog.
             Ok (list_all (\<lambda>(lang, ns). ns = get_namespace tprog lang) (pr_namespaces prog) \<and>
                 list_all (\<lambda>(lang, ns). ns = get_namespace prog lang) (pr_namespaces tprog))))))"

fun collection_typename_count :: "heap \<Rightarrow> addr \<Rightarrow> addr list \<Rightarrow> addr \<Rightarrow> t_type_obj \<Rightarrow> nat outcome" where
  "collection_typename_count h pa [] ta t = Ok 0"
| "collection_typename_count h pa (ia # rest) ta t =
     bind_outcome (deref (h_types h ia)) (\<lambda>it.
     bind_outcome (if ta \<noteq> ia \<and> get_name t = get_name it then is_common_namespace h pa t else Ok False) (\<lambda>b.
     bind_outcome (collection_typename_count h pa rest ta t) (\<lambda>n. Ok (if b then Suc n else n))))"

definition program_typename_count :: "heap \<Rightarrow> addr \<Rightarrow> addr \<Rightarrow> t_type_obj \<Rightarrow> nat outcome" where
  "program_typename_count h pa ta t =
     bind_outcome (deref (h_programs h pa)) (\<lambda>prog.
     bind_outcome (collection_typename_count h pa (pr_typedefs prog) ta t) (\<lambda>a.
     bind_outcome (collection_typename_count h pa (pr_enums prog) ta t) (\<lambda>b.
     bind_outcome (collection_typename_count h pa (pr_objects prog) ta t) (\<lambda>c.
     bind_outcome (collection_typename_count h pa (pr_services prog) ta t) (\<lambda>d.
       Ok (a + b + c + d))))))"

fun programs_typename_count :: "heap \<Rightarrow> addr list \<Rightarrow> addr \<Rightarrow> t_type_obj \<Rightarrow> nat outcome" where
  "programs_typename_count h [] ta t = Ok 0"
| "programs_typename_count h (pa # pas) ta t =
     bind_outcome (program_typename_count h pa ta t) (\<lambda>n.
     bind_outcome (programs_typename_count h pas ta t) (\<lambda>m. Ok (n + m)))"

definition is_unique_typename :: "heap \<Rightarrow> addr \<Rightarrow> addr \<Rightarrow> bool outcome" where
  "is_unique_typename h pa ta =
     bind_outcome (deref (h_types h ta)) (\<lambda>t.
     bind_outcome (deref (h_programs h pa)) (\<lambda>p.
     bind_outcome (programs_typename_count h (pa # pr_includes p) ta t) (\<lambda>occurrences.
       Ok (0 = occurrences))))"

section \<open>Properties\<close>

text \<open>
  A path \<^verbatim>\<open>dir/name.ext\<close> is taken apart into its directory and its program name, also
  when the directory contains dots; a bare file name has directory \<^verbatim>\<open>.\<close>.
\<close>

lemma path_parts:
  assumes "CHR ''/'' \<notin> set name" "CHR ''/'' \<notin> set ext" "CHR ''.'' \<notin> set ext"
  shows "directory_name (dir @ ''/'' @ name @ ''.'' @ ext) = dir \<and>
         program_name (dir @ ''/'' @ name @ ''.'' @ ext) = name \<and>
         directory_name (name @ ''.'' @ ext) = ''.'' \<and> program_name (name @ ''.'' @ ext) = name"
proof -
  have "rfind_char (CHR ''/'') (name @ ''.'' @ ext) = None" using assms by simp
  then show ?thesis
    using assms rfind_char_split [of "CHR ''/''" "name @ ''.'' @ ext" dir] rfind_char_split [of "CHR ''.''" ext name]
    by (simp add: directory_name_def program_name_def Let_def del: rfind_char_None)
qed

text \<open>
  \<^verbatim>\<open>set_out_path\<close> and \<^verbatim>\<open>set_include_prefix\<close> make their argument a directory prefix:
  the stored path ends with a separator and is the argument with at most one separator added. Only an
  empty output path is refused; an empty include prefix stays empty.
\<close>

lemma out_path_is_prefix:
  "(set_out_path path b p = Exit ''std::out_of_range'' \<longleftrightarrow> path = '''') \<and>
   (\<forall>p'. set_out_path path b p = Ok p' \<longrightarrow>
      pr_out_path p' \<in> {path, path @ ''/''} \<and> pr_out_path p' \<noteq> '''' \<and>
      last (pr_out_path p') \<in> {CHR ''/'', CHR 0x5C} \<and> pr_out_path_is_absolute p' = b) \<and>
   pr_include_prefix (set_include_prefix path p) \<in> {path, path @ ''/''} \<and>
   (path = '''' \<or> last (pr_include_prefix (set_include_prefix path p)) = CHR ''/'')"
  by (auto simp: set_out_path_def set_include_prefix_def Let_def last_conv_nth)

lemma get_namespace_entry:
  "smap_inv (pr_namespaces p) \<Longrightarrow> (lang, ns) \<in> set (pr_namespaces p) \<Longrightarrow> get_namespace p lang = ns"
  by (simp add: get_namespace_def smap_find_def smap_inv_def strict_sorted_iff map_of_is_SomeI)

lemma namespaces_agree:
  assumes "smap_inv (pr_namespaces p)" "smap_inv (pr_namespaces q)"
  shows "list_all (\<lambda>(lang, ns). ns = get_namespace q lang) (pr_namespaces p) \<and>
         list_all (\<lambda>(lang, ns). ns = get_namespace p lang) (pr_namespaces q) \<longleftrightarrow>
         (\<forall>lang. get_namespace p lang = get_namespace q lang)"
    (is "?a p q \<and> ?a q p \<longleftrightarrow> _")
proof
  assume agree: "?a p q \<and> ?a q p"
  then have star: "get_namespace p ''*'' = get_namespace q ''*''"
  proof (cases "smap_find (pr_namespaces p) ''*''")
    case (Some ns)
    then have "(''*'', ns) \<in> set (pr_namespaces p)" by (simp add: smap_find_def map_of_SomeD)
    with agree get_namespace_entry [OF assms(1) this] show ?thesis by (auto simp: list_all_iff)
  next
    case p: None
    show ?thesis
    proof (cases "smap_find (pr_namespaces q) ''*''")
      case (Some ns)
      then have "(''*'', ns) \<in> set (pr_namespaces q)" by (simp add: smap_find_def map_of_SomeD)
      with agree get_namespace_entry [OF assms(2) this] show ?thesis by (auto simp: list_all_iff)
    qed (simp add: get_namespace_def p)
  qed
  show "\<forall>lang. get_namespace p lang = get_namespace q lang"
  proof
    fix lang
    have defined: "get_namespace p lang = get_namespace q lang"
      if "smap_find (pr_namespaces p) lang \<noteq> None \<or> smap_find (pr_namespaces q) lang \<noteq> None"
    proof -
      from that obtain ns where "(lang, ns) \<in> set (pr_namespaces p) \<or> (lang, ns) \<in> set (pr_namespaces q)"
        by (auto simp: smap_find_def dest: map_of_SomeD)
      with agree show ?thesis
        using get_namespace_entry [OF assms(1), of lang ns] get_namespace_entry [OF assms(2), of lang ns]
        by (auto simp: list_all_iff)
    qed
    show "get_namespace p lang = get_namespace q lang"
    proof (cases "smap_find (pr_namespaces p) lang = None \<and> smap_find (pr_namespaces q) lang = None")
      case True
      with star show ?thesis by (simp add: get_namespace_def split: option.splits)
    qed (use defined in blast)
  qed
next
  assume "\<forall>lang. get_namespace p lang = get_namespace q lang"
  then show "?a p q \<and> ?a q p"
    using get_namespace_entry [OF assms(1)] get_namespace_entry [OF assms(2)] by (auto simp: list_all_iff)
qed

text \<open>
  \<^verbatim>\<open>is_common_namespace\<close>, which compares the declared namespaces of two programs in both
  directions, is true exactly when the type lives in the program itself or the two programs have the
  same effective namespace for every language, the wildcard \<^verbatim>\<open>*\<close> taken into account.
\<close>

lemma common_namespace_iff:
  assumes "h_programs h pa = Some p" "get_program t = Some qa" "h_programs h qa = Some q"
    and "smap_inv (pr_namespaces p)" "smap_inv (pr_namespaces q)"
  shows "is_common_namespace h pa t = Ok (pa = qa \<or> (\<forall>lang. get_namespace p lang = get_namespace q lang))"
  using assms namespaces_agree [OF assms(4,5)] by (auto simp: is_common_namespace_def)

definition same_named :: "heap \<Rightarrow> addr \<Rightarrow> t_type_obj \<Rightarrow> addr \<Rightarrow> bool" where
  "same_named h ta t ia \<longleftrightarrow> ta \<noteq> ia \<and> (\<exists>it. h_types h ia = Some it \<and> get_name t = get_name it)"

lemma collection_count:
  assumes "set ias \<subseteq> dom (h_types h)" "is_common_namespace h pa t = Ok b"
  shows "collection_typename_count h pa ias ta t = Ok (if b then length (filter (same_named h ta t) ias) else 0)"
  using assms by (induction ias) (auto simp: same_named_def)

definition declared_types :: "t_program \<Rightarrow> addr list" where
  "declared_types p = pr_typedefs p @ pr_enums p @ pr_objects p @ pr_services p"

lemma program_count:
  assumes "h_programs h pa = Some p" "set (declared_types p) \<subseteq> dom (h_types h)" "is_common_namespace h pa t = Ok b"
  shows "program_typename_count h pa ta t = Ok (if b then length (filter (same_named h ta t) (declared_types p)) else 0)"
  using assms by (auto simp: program_typename_count_def declared_types_def collection_count)

lemma programs_count_zero:
  assumes "\<And>qa. qa \<in> set pas \<Longrightarrow> \<exists>q b. h_programs h qa = Some q \<and> set (declared_types q) \<subseteq> dom (h_types h) \<and>
      is_common_namespace h qa t = Ok b"
  shows "\<exists>n. programs_typename_count h pas ta t = Ok n \<and>
    (n = 0 \<longleftrightarrow> (\<forall>qa \<in> set pas. \<forall>q. h_programs h qa = Some q \<longrightarrow> is_common_namespace h qa t = Ok True \<longrightarrow>
        (\<forall>ia \<in> set (declared_types q). \<not> same_named h ta t ia)))"
  using assms
proof (induction pas)
  case (Cons pa pas)
  then obtain n where n: "programs_typename_count h pas ta t = Ok n"
      "n = 0 \<longleftrightarrow> (\<forall>qa \<in> set pas. \<forall>q. h_programs h qa = Some q \<longrightarrow> is_common_namespace h qa t = Ok True \<longrightarrow>
        (\<forall>ia \<in> set (declared_types q). \<not> same_named h ta t ia))" by auto
  from Cons.prems [of pa] obtain q b where q: "h_programs h pa = Some q" "set (declared_types q) \<subseteq> dom (h_types h)"
      "is_common_namespace h pa t = Ok b" by auto
  show ?case using n q by (auto simp: program_count [OF q] filter_empty_conv)
qed simp


definition twice_heap :: heap where
  "twice_heap = \<lparr>h_types = [3 \<mapsto> Enum ((new_enum 0)\<lparr>ty_name := ''E''\<rparr>), 2 \<mapsto> Enum ((new_enum 0)\<lparr>ty_name := ''E''\<rparr>)],
     h_fields = Map.empty, h_programs = [0 \<mapsto> add_enum 2 (add_enum 3 (new_program ''a.thrift''))], h_next = 9\<rparr>"


end
