(* ===== verification/Doctext.thy ===== *)
theory Doctext
  imports Parse_Tree
begin

text \<open>
  Documentation comments: the global state that carries a comment from the scanner to the
  definition it documents and decides whether the first one documents the whole program
  (\<^verbatim>\<open>clear_doctext\<close>, \<^verbatim>\<open>reset_program_doctext_info\<close>,
  \<^verbatim>\<open>declare_valid_program_doctext\<close> in \<^verbatim>\<open>main.cc\<close>, \<^verbatim>\<open>t_doc::set_doc\<close>, the
  doctext rule of the scanner), and the clean-up of the text (\<^verbatim>\<open>clean_up_doctext\<close>).
\<close>

section \<open>Cleaning up the text\<close>

abbreviation blanks :: string where
  "blanks \<equiv> [CHR '' '', CHR 0x09]"

abbreviation newline :: char where
  "newline \<equiv> CHR 0x0A"

text \<open>The loop that separates the text into lines; a last line of blanks only is dropped.\<close>

function doc_lines :: "string \<Rightarrow> string list" where
  "doc_lines s =
     (case find_char newline s of
        None \<Rightarrow> (case find_first_not_of blanks s of None \<Rightarrow> [] | Some nonwhite \<Rightarrow> [s])
      | Some pos \<Rightarrow> take pos s # doc_lines (drop (pos + 1) s))"
  by pat_completeness auto

termination doc_lines
  by (relation "measure length") (auto dest: find_char_Some)

declare doc_lines.simps [simp del]

definition clear_leading :: "string \<Rightarrow> string" where
  "clear_leading l = (case find_first_not_of blanks l of None \<Rightarrow> '''' | Some pos \<Rightarrow> drop pos l)"

text \<open>
  The scan for a common prefix of blanks and a star. It returns the lines (blank ones truncated),
  whether the prefix survived, and its length; a line that breaks the pattern ends the scan.
\<close>

fun scan_prefix :: "bool \<Rightarrow> nat \<Rightarrow> string list \<Rightarrow> string list \<times> bool \<times> nat" where
  "scan_prefix found prefix_len [] = ([], True, prefix_len)"
| "scan_prefix found prefix_len (l # ls) =
     (if l = '''' then
        (let (ls', have, n) = scan_prefix found prefix_len ls in (l # ls', have, n))
      else
        (case find_first_not_of blanks l of
           None \<Rightarrow> (let (ls', have, n) = scan_prefix found prefix_len ls in ('''' # ls', have, n))
         | Some pos \<Rightarrow>
             if \<not> found then
               (if l ! pos = CHR ''*''
                then (let (ls', have, n) = scan_prefix True pos ls in (l # ls', have, n))
                else (l # ls, False, prefix_len))
             else if length l > pos \<and> l ! pos = CHR ''*'' \<and> pos = prefix_len
                then (let (ls', have, n) = scan_prefix found prefix_len ls in (l # ls', have, n))
                else (l # ls, False, prefix_len)))"

fun min_indent :: "nat option \<Rightarrow> string list \<Rightarrow> nat option" where
  "min_indent prefix_len [] = prefix_len"
| "min_indent prefix_len (l # ls) =
     (if l = '''' then min_indent prefix_len ls
      else (case find_first_not_of blanks l of
              None \<Rightarrow> min_indent prefix_len ls
            | Some pos \<Rightarrow>
                min_indent (case prefix_len of None \<Rightarrow> Some pos | Some n \<Rightarrow> if pos < n then Some pos else Some n) ls))"

definition clear_trailing :: "string \<Rightarrow> string" where
  "clear_trailing l =
     (case find_last_not_of blanks l of
        None \<Rightarrow> l
      | Some pos \<Rightarrow> if pos \<noteq> length l - 1 then take (pos + 1) l else l)"

definition strip_lines :: "string list \<Rightarrow> string list" where
  "strip_lines ls =
     (let (ls, have_prefix, prefix_len) = scan_prefix False 0 ls;
          ls = (if have_prefix then map (drop (prefix_len + 1)) ls else ls)
      in (case min_indent None ls of None \<Rightarrow> ls | Some n \<Rightarrow> map (drop n) ls))"

definition clean_up_doctext :: "string \<Rightarrow> string option" where
  "clean_up_doctext doctext =
     (let docstring = filter (\<lambda>c. c \<noteq> CHR 0x0D) doctext
      in (case doc_lines docstring of
            [] \<Rightarrow> None
          | first # rest \<Rightarrow>
              (let lines = map clear_trailing (clear_leading first # strip_lines rest);
                   lines = (if hd lines = '''' then tl lines else lines)
               in Some (concat (map (\<lambda>l. l @ [newline]) lines)))))"

section \<open>The state of the doctext\<close>

datatype PROGDOCTEXT_STATUS =
    INVALID | STILL_CANDIDATE | ALREADY_PROCESSED | ABSOLUTELY_SURE | NO_PROGRAM_DOCTEXT

record doc_state =
  g_doctext :: "string option"
  g_doctext_lineno :: int
  g_program_doctext_candidate :: "string option"
  g_program_doctext_lineno :: int
  g_program_doctext_status :: PROGDOCTEXT_STATUS

definition clear_doctext :: "doc_state \<Rightarrow> doc_state" where
  "clear_doctext g = g\<lparr>g_doctext := None\<rparr>"

definition reset_program_doctext_info :: "doc_state \<Rightarrow> doc_state" where
  "reset_program_doctext_info g =
     g\<lparr>g_program_doctext_candidate := None, g_program_doctext_lineno := 0, g_program_doctext_status := INVALID\<rparr>"

definition declare_valid_program_doctext :: "doc_state \<Rightarrow> doc_state" where
  "declare_valid_program_doctext g =
     (if g_program_doctext_candidate g \<noteq> None \<and> g_program_doctext_status g = STILL_CANDIDATE
      then g\<lparr>g_program_doctext_status := ABSOLUTELY_SURE\<rparr>
      else g\<lparr>g_program_doctext_status := NO_PROGRAM_DOCTEXT\<rparr>)"

definition set_doc :: "string \<Rightarrow> 'a t_doc_scheme \<Rightarrow> doc_state \<Rightarrow> 'a t_doc_scheme \<times> doc_state" where
  "set_doc d x g =
     (x\<lparr>doc := d, has_doc := True\<rparr>,
      if g_program_doctext_lineno g = g_doctext_lineno g \<and> g_program_doctext_status g = STILL_CANDIDATE
      then g\<lparr>g_program_doctext_status := ALREADY_PROCESSED\<rparr> else g)"

text \<open>
  The doctext rule of the scanner, on the text after the opening \<^verbatim>\<open>/**\<close>. The candidate is a
  copy made with \<^verbatim>\<open>strdup\<close>, which is undefined for the null pointer that the clean-up returns
  for a blank comment.
\<close>

definition lex_doctext :: "string \<Rightarrow> int \<Rightarrow> doc_state \<Rightarrow> unit outcome \<times> doc_state" where
  "lex_doctext text yylineno g =
     (let g = clear_doctext g;
          text = take (length text - 2) text @ '' '';
          g = g\<lparr>g_doctext := clean_up_doctext text, g_doctext_lineno := yylineno\<rparr>
      in if g_program_doctext_candidate g = None \<and> g_program_doctext_status g = INVALID
         then (case g_doctext g of
                 None \<Rightarrow> (Undefined, g)
               | Some d \<Rightarrow> (Ok (), g\<lparr>g_program_doctext_candidate := Some d,
                                     g_program_doctext_lineno := g_doctext_lineno g,
                                     g_program_doctext_status := STILL_CANDIDATE\<rparr>))
         else (Ok (), g))"

text \<open>The reductions of the grammar that take the comment: for a definition, and at the end for the program.\<close>

definition capture_doctext :: "doc_state \<Rightarrow> string option \<times> doc_state" where
  "capture_doctext g = (g_doctext g, g\<lparr>g_doctext := None\<rparr>)"

definition finish_program_doc :: "t_program \<Rightarrow> doc_state \<Rightarrow> t_program \<times> doc_state" where
  "finish_program_doc p g =
     (case g_program_doctext_candidate g of
        Some d \<Rightarrow>
          if g_program_doctext_status g \<noteq> ALREADY_PROCESSED
          then (let (p, g) = set_doc d p g
                in (p, clear_doctext (g\<lparr>g_program_doctext_status := ALREADY_PROCESSED\<rparr>)))
          else (p, clear_doctext g)
      | None \<Rightarrow> (p, clear_doctext g))"

inductive doc_step :: "doc_state \<Rightarrow> doc_state \<Rightarrow> bool" where
  lex: "lex_doctext text line g = (Ok (), g') \<Longrightarrow> doc_step g g'"
| clear: "doc_step g (clear_doctext g)"
| capture: "doc_step g (snd (capture_doctext g))"
| header: "doc_step g (declare_valid_program_doctext g)"
| document: "doc_step g (snd (set_doc d (x :: t_doc) g))"
| file_end: "doc_step g (snd (finish_program_doc p g))"
| file_start: "doc_step g (reset_program_doctext_info g)"

definition doc_init :: "doc_state" where
  "doc_init = \<lparr>g_doctext = None, g_doctext_lineno = 0, g_program_doctext_candidate = None,
     g_program_doctext_lineno = 0, g_program_doctext_status = INVALID\<rparr>"

inductive doc_reachable :: "doc_state \<Rightarrow> bool" where
  start: "doc_reachable doc_init"
| step: "doc_reachable g \<Longrightarrow> doc_step g g' \<Longrightarrow> doc_reachable g'"

definition doc_inv :: "doc_state \<Rightarrow> bool" where
  "doc_inv g \<longleftrightarrow>
     (g_program_doctext_status g \<in> {STILL_CANDIDATE, ABSOLUTELY_SURE} \<longrightarrow> g_program_doctext_candidate g \<noteq> None) \<and>
     (g_program_doctext_status g = INVALID \<longrightarrow> g_program_doctext_candidate g = None)"

lemma lex_doctext_inv: "doc_inv g \<Longrightarrow> doc_inv (snd (lex_doctext text line g))"
  by (auto simp: lex_doctext_def Let_def clear_doctext_def doc_inv_def split: option.splits)

lemma doc_step_inv: "doc_step g g' \<Longrightarrow> doc_inv g \<Longrightarrow> doc_inv g'"
proof (induction rule: doc_step.induct)
  case (lex comment ln g g')
  with lex_doctext_inv [of g comment ln] show ?case by simp
qed (auto simp: doc_inv_def clear_doctext_def capture_doctext_def declare_valid_program_doctext_def
    set_doc_def finish_program_doc_def reset_program_doctext_info_def Let_def split: option.splits)


text \<open>
  A comment of blanks only, such as \<^verbatim>\<open>/** */\<close>, as the first documentation comment of a
  file: the clean-up returns null and the scanner passes it to \<^verbatim>\<open>strdup\<close>.
\<close>

lemma blank_doctext_undefined:
  assumes "set text \<subseteq> set blanks" "g_program_doctext_candidate g = None" "g_program_doctext_status g = INVALID"
  shows "fst (lex_doctext (text @ ''*/'') line g) = Undefined"
proof -
  have "find_char newline (text @ '' '') = None" using assms(1) by auto
  moreover have "find_first_not_of blanks (text @ '' '') = None" using assms(1) by (auto simp: find_first_not_of_None)
  ultimately have "doc_lines (text @ '' '') = []" by (simp add: doc_lines.simps [of "text @ '' ''"] del: find_char_None)
  moreover have "filter (\<lambda>c. c \<noteq> CHR 0x0D) (text @ '' '') = text @ '' ''"
    using assms(1) by (auto simp: filter_id_conv)
  ultimately have "clean_up_doctext (text @ '' '') = None" by (simp add: clean_up_doctext_def Let_def)
  with assms(2,3) show ?thesis by (simp add: lex_doctext_def Let_def clear_doctext_def)
qed

lemma blank_doctext_undefined_witness:
  "g_program_doctext_candidate doc_init = None \<and> fst (lex_doctext '' */'' 1 doc_init) = Undefined"
  using blank_doctext_undefined [of "'' ''" doc_init 1] by (simp add: doc_init_def)

section \<open>Comments in the usual form\<close>

lemma doc_lines_unlines:
  assumes "\<And>l. l \<in> set ls \<Longrightarrow> newline \<notin> set l" "set w \<subseteq> set blanks"
  shows "doc_lines (concat (map (\<lambda>l. l @ [newline]) ls) @ w) = ls"
  using assms(1)
proof (induction ls)
  case Nil
  have "find_char newline w = None" using assms(2) by auto
  moreover have "find_first_not_of blanks w = None" using assms(2) by (auto simp: find_first_not_of_None)
  ultimately show ?case by (simp add: doc_lines.simps [of w] del: find_char_None)
next
  case (Cons l ls)
  let ?rest = "concat (map (\<lambda>l. l @ [newline]) ls) @ w"
  have "find_char newline (l @ newline # ?rest) = Some (length l)"
    using Cons.prems by (intro find_char_split) simp
  then have "doc_lines (l @ newline # ?rest) = l # doc_lines ?rest"
    by (simp add: doc_lines.simps [of "l @ newline # ?rest"])
  with Cons show ?case by simp
qed

text \<open>A line of text: it ends with a character that is not a blank.\<close>

definition text_line :: "string \<Rightarrow> bool" where
  "text_line l \<longleftrightarrow> l \<noteq> '''' \<and> last l \<notin> set blanks \<and> newline \<notin> set l \<and> CHR 0x0D \<notin> set l"

lemma find_first_not_of_prefix:
  "set w \<subseteq> set ws \<Longrightarrow> c \<notin> set ws \<Longrightarrow> find_first_not_of ws (w @ c # l) = Some (length w)"
  by (induction w) auto

lemma scan_prefix_starred:
  assumes "set w \<subseteq> set blanks"
  shows "scan_prefix True (length w) (map (\<lambda>l. w @ CHR ''*'' # l) ls) = (map (\<lambda>l. w @ CHR ''*'' # l) ls, True, length w)"
    and "ls \<noteq> [] \<Longrightarrow> scan_prefix False n (map (\<lambda>l. w @ CHR ''*'' # l) ls) = (map (\<lambda>l. w @ CHR ''*'' # l) ls, True, length w)"
proof -
  note pos = find_first_not_of_prefix [OF assms, of "CHR ''*''"]
  show *: "scan_prefix True (length w) (map (\<lambda>l. w @ CHR ''*'' # l) ls) = (map (\<lambda>l. w @ CHR ''*'' # l) ls, True, length w)" for ls
    by (induction ls) (simp_all add: pos nth_append)
  show "scan_prefix False n (map (\<lambda>l. w @ CHR ''*'' # l) ls) = (map (\<lambda>l. w @ CHR ''*'' # l) ls, True, length w)" if "ls \<noteq> []"
    using that by (cases ls) (simp_all add: pos nth_append *)
qed

lemma find_first_not_of_text:
  "text_line l \<Longrightarrow> \<exists>pos. find_first_not_of blanks l = Some pos"
proof -
  assume "text_line l"
  then have "last l \<in> set l" "last l \<notin> set blanks" by (auto simp: text_line_def)
  then have "find_first_not_of blanks l \<noteq> None" by (auto simp: find_first_not_of_None simp del: set_simps)
  then show ?thesis by blast
qed

lemma min_indent_spaced:
  assumes "\<And>l. l \<in> set ls \<Longrightarrow> text_line l" "acc = None \<or> (\<exists>n. acc = Some (Suc n))"
    and "(\<exists>l \<in> set ls. hd l \<notin> set blanks) \<or> acc = Some 1"
  shows "min_indent acc (map (\<lambda>l. CHR '' '' # l) ls) = Some 1"
  using assms
proof (induction ls arbitrary: acc)
  case (Cons l ls)
  obtain pos where pos: "find_first_not_of blanks l = Some pos"
    using find_first_not_of_text [of l] Cons.prems(1) by auto
  let ?acc = "case acc of None \<Rightarrow> Some (Suc pos) | Some n \<Rightarrow> if Suc pos < n then Some (Suc pos) else Some n"
  have zero: "pos = 0" if "hd l \<notin> set blanks"
    using that pos Cons.prems(1) [of l] by (cases l) (auto simp: text_line_def)
  have "min_indent ?acc (map (\<lambda>l. CHR '' '' # l) ls) = Some 1"
  proof (rule Cons.IH)
    show "?acc = None \<or> (\<exists>n. ?acc = Some (Suc n))" using Cons.prems(2) by (auto split: option.splits)
    show "(\<exists>l \<in> set ls. hd l \<notin> set blanks) \<or> ?acc = Some 1"
      using Cons.prems(2,3) zero by (auto split: option.splits)
  qed (use Cons.prems(1) in auto)
  then show ?case using pos by simp
qed auto

lemma clear_trailing_text: "text_line l \<Longrightarrow> clear_trailing l = l"
proof -
  assume l: "text_line l"
  then obtain xs x where "l = xs @ [x]" "x \<notin> set blanks" by (cases l rule: rev_cases) (auto simp: text_line_def)
  then show ?thesis by (simp add: clear_trailing_def find_last_not_of_def)
qed

text \<open>
  C27: A comment in the usual form, every line of it indented alike and led by a star, is cleaned up
  to exactly its text: the indentation, the stars and the space after them are removed, the
  relative indentation of the lines is kept.
\<close>

theorem clean_up_starred_comment:
  assumes ls: "ls \<noteq> []" "\<And>l. l \<in> set ls \<Longrightarrow> text_line l" "\<exists>l \<in> set ls. hd l \<notin> set blanks"
    and w: "set w \<subseteq> set blanks"
  shows "clean_up_doctext ([newline] @ concat (map (\<lambda>l. w @ ''* '' @ l @ [newline]) ls) @ w) =
    Some (concat (map (\<lambda>l. l @ [newline]) ls))"
proof -
  let ?lines = "map (\<lambda>l. w @ CHR ''*'' # CHR '' '' # l) ls"
  let ?raw = "[newline] @ concat (map (\<lambda>l. w @ ''* '' @ l @ [newline]) ls) @ w"
  have no_cr: "filter (\<lambda>c. c \<noteq> CHR 0x0D) ?raw = ?raw"
    unfolding filter_id_conv using ls(2) w by (auto simp: text_line_def)
  have nl: "newline \<notin> set l" if "l \<in> set ('''' # ?lines)" for l
    using that ls(2) w by (auto simp: text_line_def)
  have "?raw = concat (map (\<lambda>l. l @ [newline]) ('''' # ?lines)) @ w" by (simp add: o_def)
  then have lines: "doc_lines ?raw = '''' # ?lines"
    using doc_lines_unlines [of "'''' # ?lines" w, OF nl w] by simp
  have scan: "scan_prefix False 0 ?lines = (?lines, True, length w)"
    using scan_prefix_starred(2) [OF w, of "map (\<lambda>l. CHR '' '' # l) ls" 0] ls(1) by (simp add: o_def)
  have "map (drop (length w + 1)) ?lines = map (\<lambda>l. CHR '' '' # l) ls" by simp
  moreover have "min_indent None (map (\<lambda>l. CHR '' '' # l) ls) = Some 1"
    using ls by (intro min_indent_spaced) auto
  ultimately have strip: "strip_lines ?lines = ls" by (simp add: strip_lines_def scan o_def)
  have "map clear_trailing ls = ls" using ls(2) by (intro map_idI clear_trailing_text)
  moreover have "clear_trailing (clear_leading '''') = ''''"
    by (simp add: clear_leading_def clear_trailing_def find_last_not_of_def)
  ultimately show ?thesis
    unfolding clean_up_doctext_def Let_def no_cr lines by (simp add: strip del: map_map)
qed

theorem clean_up_starred_comment_witness:
  "text_line ''int x;'' \<and>
   clean_up_doctext ([newline] @ concat (map (\<lambda>l. '' '' @ ''* '' @ l @ [newline]) [''Sum of'', ''  int x;'']) @ '' '') =
     Some (''Sum of'' @ [newline] @ ''  int x;'' @ [newline])"
proof -
  have t: "text_line l" if "l \<in> set [''Sum of'', ''  int x;'']" for l
    using that by (auto simp: text_line_def)
  have "\<exists>l \<in> set [''Sum of'', ''  int x;'']. hd l \<notin> set blanks" by simp
  from clean_up_starred_comment [OF _ t this, of "'' ''"] show ?thesis by (simp add: text_line_def)
qed

end
