(* ===== verification/Driver.thy ===== *)
theory Driver
  imports Program Doctext
begin

text \<open>
  The driver of the compiler (\<^verbatim>\<open>main.cc\<close>): command line, search for included files, the two
  passes over a file and the recursion over its includes, and the recursion of code generation. The
  file system (\<^verbatim>\<open>realpath\<close>, \<^verbatim>\<open>stat\<close>, \<^verbatim>\<open>fopen\<close>), the generated parser's second
  pass and the generators are parameters.
\<close>

section \<open>The file system\<close>

text \<open>\<open>fs_realpath\<close> is null for a path that does not resolve; \<open>fs_stat\<close> and \<open>fs_open\<close> say whether the calls succeed.\<close>

record file_system =
  fs_realpath :: "string \<Rightarrow> string option"
  fs_stat :: "string \<Rightarrow> bool"
  fs_is_directory :: "string \<Rightarrow> bool"
  fs_open :: "string \<Rightarrow> bool"

definition check_is_directory :: "file_system \<Rightarrow> string \<Rightarrow> bool" where
  "check_is_directory fs dir \<longleftrightarrow> fs_stat fs dir \<and> fs_is_directory fs dir"

definition try_path :: "file_system \<Rightarrow> string \<Rightarrow> string option" where
  "try_path fs path =
     (case fs_realpath fs path of None \<Rightarrow> None | Some rp \<Rightarrow> if fs_stat fs rp then Some rp else None)"

fun search_include :: "file_system \<Rightarrow> string list \<Rightarrow> string \<Rightarrow> string option" where
  "search_include fs [] filename = None"
| "search_include fs (dir # sp) filename =
     (case try_path fs (dir @ ''/'' @ filename) of
        Some rp \<Rightarrow> Some rp
      | None \<Rightarrow> search_include fs sp filename)"

text \<open>\<^verbatim>\<open>include_file\<close>: the empty string when nothing was found.\<close>

definition include_file :: "file_system \<Rightarrow> string list \<Rightarrow> string \<Rightarrow> string \<Rightarrow> string" where
  "include_file fs searchpath curdir filename =
     (case (if filename \<noteq> '''' \<and> hd filename = CHR ''/'' then try_path fs filename
            else search_include fs (curdir # searchpath) filename) of
        Some rp \<Rightarrow> rp
      | None \<Rightarrow> '''')"

text \<open>The stream position after looking for a byte order mark.\<close>

definition skip_utf8_bom :: "8 word list \<Rightarrow> bool \<times> nat" where
  "skip_utf8_bom bytes =
     (if bytes \<noteq> [] \<and> bytes ! 0 = 0xEF then
        (if length bytes > 1 \<and> bytes ! 1 = 0xBB then
           (if length bytes > 2 \<and> bytes ! 2 = 0xBF then (True, 3) else (False, 0))
         else (False, 0))
      else (False, 0))"

section \<open>Command line\<close>

record options =
  op_debug :: bool
  op_warn :: nat
  op_strict :: nat
  op_verbose :: bool
  op_gen_recurse :: bool
  op_allow_neg_field_keys :: bool
  op_allow_64bit_consts :: bool
  op_generator_strings :: "string list"
  op_incl_searchpath :: "string list"
  op_out_path :: string
  op_out_path_is_absolute :: bool

definition default_options :: options where
  "default_options = \<lparr>op_debug = False, op_warn = 1, op_strict = 127, op_verbose = False,
     op_gen_recurse = False, op_allow_neg_field_keys = False, op_allow_64bit_consts = False,
     op_generator_strings = [], op_incl_searchpath = [], op_out_path = '''',
     op_out_path_is_absolute = False\<rparr>"

fun split_on :: "char \<Rightarrow> string \<Rightarrow> string list" where
  "split_on c [] = ['''']"
| "split_on c (x # xs) =
     (if x = c then '''' # split_on c xs
      else (case split_on c xs of [] \<Rightarrow> [[x]] | w # ws \<Rightarrow> (x # w) # ws))"

text \<open>The tokens that \<^verbatim>\<open>strtok(argv[i], " ")\<close> delivers.\<close>

definition strtok_tokens :: "string \<Rightarrow> string list" where
  "strtok_tokens s = filter (\<lambda>w. w \<noteq> '''') (split_on (CHR '' '') s)"

text \<open>\<^verbatim>\<open>argv[i]\<close>: the array ends with a null pointer; beyond it the access is undefined.\<close>

definition argv_at :: "string list \<Rightarrow> nat \<Rightarrow> string option outcome" where
  "argv_at argv i =
     (if i < length argv then Ok (Some (argv ! i)) else if i = length argv then Ok None else Undefined)"

text \<open>What one token asks for: to set a flag, to take the next argument, or to end the run.\<close>

datatype arg_action =
    Set_flag "options \<Rightarrow> options"
  | Take_arg string "string \<Rightarrow> options \<Rightarrow> options outcome"
  | Stop string

definition option_action :: "file_system \<Rightarrow> string \<Rightarrow> arg_action" where
  "option_action fs arg =
     (if arg = ''-help'' then Stop ''help''
      else if arg = ''-version'' then Stop ''version''
      else if arg = ''-debug'' then Set_flag (\<lambda>op. op\<lparr>op_debug := True\<rparr>)
      else if arg = ''-nowarn'' then Set_flag (\<lambda>op. op\<lparr>op_warn := 0\<rparr>)
      else if arg = ''-strict'' then Set_flag (\<lambda>op. op\<lparr>op_strict := 255, op_warn := 2\<rparr>)
      else if arg = ''-v'' \<or> arg = ''-verbose'' then Set_flag (\<lambda>op. op\<lparr>op_verbose := True\<rparr>)
      else if arg = ''-r'' \<or> arg = ''-recurse'' then Set_flag (\<lambda>op. op\<lparr>op_gen_recurse := True\<rparr>)
      else if arg = ''-allow-neg-keys'' then Set_flag (\<lambda>op. op\<lparr>op_allow_neg_field_keys := True\<rparr>)
      else if arg = ''-allow-64bit-consts'' then Set_flag (\<lambda>op. op\<lparr>op_allow_64bit_consts := True\<rparr>)
      else if arg = ''-gen''
      then Take_arg ''Missing generator specification''
             (\<lambda>x op. Ok (op\<lparr>op_generator_strings := op_generator_strings op @ [x]\<rparr>))
      else if arg = ''-I''
      then Take_arg ''Missing Include directory''
             (\<lambda>x op. Ok (op\<lparr>op_incl_searchpath := op_incl_searchpath op @ [x]\<rparr>))
      else if arg = ''-o'' \<or> arg = ''-out''
      then Take_arg ''-o: missing output directory''
             (\<lambda>x op. if check_is_directory fs x
                     then Ok (op\<lparr>op_out_path := x, op_out_path_is_absolute := (arg = ''-out'')\<rparr>)
                     else Exit (''Output directory '' @ x @ '' is unusable''))
      else Stop (''Unrecognized option: '' @ arg))"

fun process_tokens :: "file_system \<Rightarrow> string list \<Rightarrow> string list \<Rightarrow> nat \<Rightarrow> options \<Rightarrow> (options \<times> nat) outcome" where
  "process_tokens fs argv [] i op = Ok (op, i)"
| "process_tokens fs argv (tok # toks) i op =
     (case option_action fs (if take 2 tok = ''--'' then tl tok else tok) of
        Stop e \<Rightarrow> Exit e
      | Set_flag f \<Rightarrow> process_tokens fs argv toks i (f op)
      | Take_arg missing f \<Rightarrow>
          bind_outcome (argv_at argv (i + 1)) (\<lambda>a.
            (case a of
               None \<Rightarrow> Exit missing
             | Some x \<Rightarrow> bind_outcome (f x op) (\<lambda>op. process_tokens fs argv toks (i + 1) op))))"

lemma option_action_defined:
  "option_action fs arg = Take_arg missing f \<Longrightarrow> f x op \<noteq> Undefined \<and> f x op \<noteq> Out_of_fuel"
proof -
  let ?ok = "\<lambda>a. case a of Take_arg m f \<Rightarrow> (\<forall>x op. f x op \<noteq> Undefined \<and> f x op \<noteq> Out_of_fuel) | _ \<Rightarrow> True"
  have if_ok: "?ok (if b then a1 else a2)" if "?ok a1" "?ok a2" for b and a1 a2 :: arg_action
    using that by simp
  have "?ok (option_action fs arg)"
    unfolding option_action_def by (intro if_ok) simp_all
  then show "option_action fs arg = Take_arg missing f \<Longrightarrow> f x op \<noteq> Undefined \<and> f x op \<noteq> Out_of_fuel"
    by simp
qed

lemma process_tokens_index:
  "process_tokens fs argv toks i op = Ok (op', i') \<Longrightarrow> i \<le> i' \<and> (i < length argv \<longrightarrow> i' < length argv)"
proof (induction toks arbitrary: i op)
  case (Cons tok toks)
  show ?case
  proof (cases "option_action fs (if take 2 tok = ''--'' then tl tok else tok)")
    case (Set_flag f)
    with Cons.prems Cons.IH [of i "f op"] show ?thesis by simp
  next
    case (Take_arg missing f)
    with Cons.prems obtain x op1 where "argv_at argv (i + 1) = Ok (Some x)"
        "process_tokens fs argv toks (i + 1) op1 = Ok (op', i')"
      by (auto split: option.splits)
    with Cons.IH [of "i + 1" op1] show ?thesis by (auto simp: argv_at_def split: if_splits)
  next
    case (Stop e)
    with Cons.prems show ?thesis by simp
  qed
qed simp

function option_loop :: "file_system \<Rightarrow> string list \<Rightarrow> nat \<Rightarrow> options \<Rightarrow> (options \<times> nat) outcome" where
  "option_loop fs argv i op =
     (if i < length argv - 1
      then bind_outcome (process_tokens fs argv (strtok_tokens (argv ! i)) i op) (\<lambda>r.
             option_loop fs argv (snd r + 1) (fst r))
      else Ok (op, i))"
  by pat_completeness auto

termination option_loop
proof (relation "measure (\<lambda>(fs, argv, i, op). length argv - i)", simp)
  fix fs argv i op r
  assume i: "i < length argv - 1" and "process_tokens fs argv (strtok_tokens (argv ! i)) i op = Ok r"
  then have "i \<le> snd r" using process_tokens_index [of fs argv "strtok_tokens (argv ! i)" i op "fst r" "snd r"] by simp
  with i show "((fs, argv, snd r + 1, fst r), fs, argv, i, op) \<in> measure (\<lambda>(fs, argv, i, op). length argv - i)" by simp
qed

declare option_loop.simps [simp del]

text \<open>The command line up to the name of the input file.\<close>

definition main_options :: "file_system \<Rightarrow> string list \<Rightarrow> (options \<times> string) outcome" where
  "main_options fs argv =
     (if length argv < 2 then Exit ''usage''
      else bind_outcome (option_loop fs argv 1 default_options) (\<lambda>(op, i).
        if last argv = ''-help'' \<or> last argv = ''--help'' then Exit ''help''
        else if last argv = ''-version'' \<or> last argv = ''--version'' then Exit ''version''
        else if op_generator_strings op = [] then Exit ''No output language(s) specified''
        else bind_outcome (argv_at argv i) (\<lambda>a.
          (case a of None \<Rightarrow> Exit ''Missing file name'' | Some file \<Rightarrow> Ok (op, file)))))"

definition main_program :: "file_system \<Rightarrow> options \<Rightarrow> string \<Rightarrow> t_program outcome" where
  "main_program fs op input_filename =
     (case fs_realpath fs input_filename of
        None \<Rightarrow> Exit (''Could not open input file with realpath: '' @ input_filename)
      | Some input_file \<Rightarrow>
          bind_outcome (if op_out_path op \<noteq> '''' then set_out_path (op_out_path op) (op_out_path_is_absolute op) (new_program input_file)
                        else Ok (new_program input_file)) (\<lambda>program.
            let include_prefix = (case rfind_char (CHR ''/'') input_filename of None \<Rightarrow> '''' | Some i \<Rightarrow> take i input_filename)
            in Ok (set_include_prefix include_prefix program)))"

section \<open>Properties of the command line\<close>

lemma process_tokens_defined:
  "i < length argv \<Longrightarrow> process_tokens fs argv toks i op \<noteq> Undefined \<and> process_tokens fs argv toks i op \<noteq> Out_of_fuel"
proof (induction toks arbitrary: i op)
  case (Cons tok toks)
  show ?case
  proof (cases "option_action fs (if take 2 tok = ''--'' then tl tok else tok)")
    case (Take_arg missing f)
    note f = option_action_defined [OF Take_arg]
    show ?thesis
    proof (cases "i + 1 < length argv")
      case True
      then show ?thesis
        using Take_arg f [of "argv ! (i + 1)" op] Cons.IH [OF True] by (cases "f (argv ! (i + 1)) op") (simp_all add: argv_at_def)
    next
      case False
      with Cons.prems have "i + 1 = length argv" by simp
      then show ?thesis using Take_arg by (simp add: argv_at_def)
    qed
  qed (use Cons in simp_all)
qed simp

lemma option_loop_result:
  "i < length argv \<Longrightarrow>
     option_loop fs argv i op \<notin> {Undefined, Out_of_fuel} \<and>
     (\<forall>op' i'. option_loop fs argv i op = Ok (op', i') \<longrightarrow> i' = length argv - 1 \<or> i' = length argv)"
proof (induction fs argv i op rule: option_loop.induct)
  case (1 fs argv i op)
  show ?case
  proof (cases "i < length argv - 1")
    case False
    with "1.prems" show ?thesis by (auto simp: option_loop.simps [of fs argv i op])
  next
    case True
    show ?thesis
    proof (cases "process_tokens fs argv (strtok_tokens (argv ! i)) i op")
      case (Ok r)
      have r: "snd r < length argv"
        using process_tokens_index [of fs argv _ i op "fst r" "snd r"] Ok "1.prems" by simp
      show ?thesis
      proof (cases "snd r + 1 < length argv")
        case True
        with "1.IH" [OF \<open>i < length argv - 1\<close> Ok] Ok \<open>i < length argv - 1\<close> show ?thesis
          by (simp add: option_loop.simps [of fs argv i op])
      next
        case False
        with r have "snd r + 1 = length argv" by simp
        moreover have "option_loop fs argv (length argv) x = Ok (x, length argv)" for x
          by (simp add: option_loop.simps [of fs argv "length argv"] less_diff_conv)
        ultimately have "option_loop fs argv i op = Ok (fst r, length argv)"
          using Ok \<open>i < length argv - 1\<close> by (simp add: option_loop.simps [of fs argv i op])
        then show ?thesis by simp
      qed
    qed (use process_tokens_defined [OF "1.prems", of fs "strtok_tokens (argv ! i)" op] True
         in \<open>auto simp: option_loop.simps [of fs argv i op]\<close>)
  qed
qed

text \<open>
  C28: Whatever the arguments, the command line is read within the bounds of \<^verbatim>\<open>argv\<close>: an option
  whose argument is missing ends in the usage message and never in an access behind the final null
  pointer. When a run is accepted, the input file is the last argument and some generator was named.
\<close>

theorem command_line_in_bounds:
  "main_options fs argv \<noteq> Undefined \<and> main_options fs argv \<noteq> Out_of_fuel \<and>
   (\<forall>op file. main_options fs argv = Ok (op, file) \<longrightarrow> file = last argv \<and> op_generator_strings op \<noteq> [])"
proof (cases "length argv < 2")
  case False
  then have "1 < length argv" by simp
  note loop = option_loop_result [OF this, of fs default_options]
  show ?thesis
  proof (cases "option_loop fs argv 1 default_options")
    case (Ok r)
    obtain op i where r: "r = (op, i)" by (cases r)
    with loop Ok have i: "i = length argv - 1 \<or> i = length argv" by auto
    have "argv_at argv (length argv - 1) = Ok (Some (last argv))" "argv_at argv (length argv) = Ok None"
      using False last_conv_nth [of argv] by (cases argv; simp add: argv_at_def)+
    with i have "argv_at argv i \<in> {Ok (Some (last argv)), Ok None}" by auto
    with Ok r False show ?thesis by (auto simp: main_options_def split: if_splits)
  qed (use loop False in \<open>auto simp: main_options_def\<close>)
qed (simp add: main_options_def)

theorem command_line_in_bounds_witness:
  "main_options \<lparr>fs_realpath = Some, fs_stat = (\<lambda>_. True), fs_is_directory = (\<lambda>_. True), fs_open = (\<lambda>_. True)\<rparr>
     [''thrift'', ''-r'', ''--gen'', ''json'', ''a.thrift''] =
     Ok (default_options\<lparr>op_gen_recurse := True, op_generator_strings := [''json'']\<rparr>, ''a.thrift'') \<and>
   ''a.thrift'' = last [''thrift'', ''-r'', ''--gen'', ''json'', ''a.thrift'']"
proof -
  let ?fs = "\<lparr>fs_realpath = Some, fs_stat = (\<lambda>_. True), fs_is_directory = (\<lambda>_. True), fs_open = (\<lambda>_. True)\<rparr>"
  have "main_options ?fs [''thrift'', ''-r'', ''--gen'', ''json'', ''a.thrift''] =
     Ok (default_options\<lparr>op_gen_recurse := True, op_generator_strings := [''json'']\<rparr>, ''a.thrift'')"
    by (simp add: main_options_def option_loop.simps strtok_tokens_def argv_at_def default_options_def option_action_def)
  with command_line_in_bounds [of ?fs "[''thrift'', ''-r'', ''--gen'', ''json'', ''a.thrift'']"] show ?thesis
    by blast
qed

text \<open>
  \<^verbatim>\<open>include_file\<close> for a relative name returns the first of the current directory and the
  search path, in this order, under which the name resolves to a file, and the empty string exactly
  when there is none (real paths being nonempty).
\<close>

lemma include_file_first:
  assumes "filename = '''' \<or> hd filename \<noteq> CHR ''/''"
    and "\<And>p rp. fs_realpath fs p = Some rp \<Longrightarrow> rp \<noteq> ''''"
  shows "case find (\<lambda>dir. try_path fs (dir @ ''/'' @ filename) \<noteq> None) (curdir # searchpath) of
           None \<Rightarrow> include_file fs searchpath curdir filename = ''''
         | Some dir \<Rightarrow> try_path fs (dir @ ''/'' @ filename) = Some (include_file fs searchpath curdir filename) \<and>
             include_file fs searchpath curdir filename \<noteq> ''''"
proof -
  have search: "search_include fs sp filename =
      (case find (\<lambda>dir. try_path fs (dir @ ''/'' @ filename) \<noteq> None) sp of
         None \<Rightarrow> None | Some dir \<Rightarrow> try_path fs (dir @ ''/'' @ filename))" for sp
    by (induction sp) (auto split: option.splits)
  have nonempty: "rp \<noteq> ''''" if "try_path fs p = Some rp" for p rp
    using that assms(2) by (auto simp: try_path_def split: option.splits if_splits)
  have run: "include_file fs searchpath curdir filename =
      (case search_include fs (curdir # searchpath) filename of Some rp \<Rightarrow> rp | None \<Rightarrow> '''')"
    using assms(1) by (auto simp: include_file_def)
  show ?thesis
  proof (cases "find (\<lambda>dir. try_path fs (dir @ ''/'' @ filename) \<noteq> None) (curdir # searchpath)")
    case None
    then show ?thesis unfolding run search by simp
  next
    case (Some dir)
    then have "try_path fs (dir @ ''/'' @ filename) \<noteq> None" unfolding find_Some_iff by auto
    then obtain rp where "try_path fs (dir @ ''/'' @ filename) = Some rp" by blast
    with Some nonempty show ?thesis unfolding run search by simp
  qed
qed

text \<open>
  The globals of the parser over the heap. \<open>g_scope\<close> and \<open>g_parent_scope\<close> are the programs
  whose scopes they point to.
\<close>

record compiler =
  c_heap :: heap
  c_doc :: doc_state
  g_curdir :: string
  g_curpath :: string
  g_parse_mode :: parse_mode
  g_program :: "addr option"
  g_scope :: "addr option"
  g_parent_scope :: "addr option"
  g_parent_prefix :: string

text \<open>
  What the generated parser does: the literals of the include headers of a file in the first pass
  (or the exception it ends with), and the whole second pass, whose result is that of
  \<^verbatim>\<open>yyparse\<close>.
\<close>

record parse_env =
  pe_fs :: file_system
  pe_searchpath :: "string list"
  pe_includes :: "string \<Rightarrow> string list outcome"
  pe_types :: "(compiler, int) action"

definition on_heap :: "(heap, 'a) action \<Rightarrow> (compiler, 'a) action" where
  "on_heap m c = (case m (c_heap c) of (out, h) \<Rightarrow> (out, c\<lparr>c_heap := h\<rparr>))"

definition include_header :: "parse_env \<Rightarrow> string \<Rightarrow> (compiler, unit) action" where
  "include_header env literal =
     seqA (modify (\<lambda>c. c\<lparr>c_doc := declare_valid_program_doctext (c_doc c)\<rparr>))
      (bindA (gets g_parse_mode) (\<lambda>mode.
       bindA (gets g_curdir) (\<lambda>curdir.
       bindA (getsO (\<lambda>c. deref (g_program c))) (\<lambda>pa.
         whenA (mode = INCLUDES)
           (let path = include_file (pe_fs env) (pe_searchpath env) curdir literal
            in whenA (path \<noteq> '''') (on_heap (add_include pa path literal)))))))"

definition open_file :: "parse_env \<Rightarrow> string \<Rightarrow> (compiler, unit) action" where
  "open_file env path =
     whenA (\<not> fs_open (pe_fs env) path) (exitA (''Could not open input file: '' @ path))"

text \<open>\<^verbatim>\<open>catch (string x) { failure(x.c_str()); }\<close>\<close>

definition catch_failure :: "('s, 'a) action \<Rightarrow> ('s, 'a) action" where
  "catch_failure m s = (case m s of (Throw e, s') \<Rightarrow> (Exit e, s') | r \<Rightarrow> r)"

definition include_pass :: "parse_env \<Rightarrow> string \<Rightarrow> (compiler, unit) action" where
  "include_pass env path =
     catch_failure (bindA (getsO (\<lambda>_. pe_includes env path)) (\<lambda>literals. for_each literals (include_header env)))"

definition types_pass :: "parse_env \<Rightarrow> (compiler, unit) action" where
  "types_pass env =
     catch_failure (bindA (pe_types env) (\<lambda>r.
       if r \<noteq> 0 then exitA ''Parser error during types pass.'' else returnA ()))"

primrec parse :: "nat \<Rightarrow> parse_env \<Rightarrow> addr \<Rightarrow> addr option \<Rightarrow> (compiler, unit) action" where
  "parse 0 = (\<lambda>env pa parent c. (Out_of_fuel, c))"
| "parse (Suc n) = (\<lambda>env pa parent.
     bindA (getsO (\<lambda>c. deref (h_programs (c_heap c) pa))) (\<lambda>program.
      block
       [modify (\<lambda>c. c\<lparr>g_curdir := directory_name (pr_path program), g_curpath := pr_path program\<rparr>),
        open_file env (pr_path program),
        modify (\<lambda>c. c\<lparr>g_parse_mode := INCLUDES, g_program := Some pa, g_scope := Some pa\<rparr>),
        include_pass env (pr_path program),
        bindA (getsO (\<lambda>c. deref (h_programs (c_heap c) pa))) (\<lambda>program.
          for_each (pr_includes program) (\<lambda>ia. parse n env ia (Some pa))),
        modify (\<lambda>c. c\<lparr>c_doc := reset_program_doctext_info (c_doc c)\<rparr>),
        modify (\<lambda>c. c\<lparr>g_parse_mode := PROGRAM, g_program := Some pa, g_scope := Some pa,
                        g_parent_scope := parent, g_parent_prefix := pr_name program @ ''.'',
                        g_curpath := pr_path program\<rparr>),
        open_file env (pr_path program),
        types_pass env]))"

section \<open>Termination of the include recursion\<close>

text \<open>
  Fresh addresses, every include present, and a rank of paths that decreases from a program to its
  includes.
\<close>

definition include_inv :: "(string \<Rightarrow> nat) \<Rightarrow> compiler \<Rightarrow> bool" where
  "include_inv rank c \<longleftrightarrow>
     (\<forall>a. h_next (c_heap c) \<le> a \<longrightarrow> h_programs (c_heap c) a = None) \<and>
     (\<forall>a p ia. h_programs (c_heap c) a = Some p \<longrightarrow> ia \<in> set (pr_includes p) \<longrightarrow>
        (\<exists>q. h_programs (c_heap c) ia = Some q \<and> rank (pr_path q) < rank (pr_path p)))"

lemma include_invD:
  assumes "include_inv rank c" "h_programs (c_heap c) a = Some p" "ia \<in> set (pr_includes p)"
  obtains q where "h_programs (c_heap c) ia = Some q" "rank (pr_path q) < rank (pr_path p)"
  using assms unfolding include_inv_def by metis

definition paths_kept :: "compiler \<Rightarrow> compiler \<Rightarrow> bool" where
  "paths_kept c c' \<longleftrightarrow>
     (\<forall>a p. h_programs (c_heap c) a = Some p \<longrightarrow>
        (\<exists>q. h_programs (c_heap c') a = Some q \<and> pr_path q = pr_path p))"

text \<open>An action that returns, keeps the invariant and forgets no program.\<close>

definition well_behaved :: "(string \<Rightarrow> nat) \<Rightarrow> (compiler, 'a) action \<Rightarrow> compiler \<Rightarrow> bool" where
  "well_behaved rank m c \<longleftrightarrow>
     fst (m c) \<noteq> Out_of_fuel \<and> include_inv rank (snd (m c)) \<and> paths_kept c (snd (m c))"

lemma paths_kept_refl [simp]: "paths_kept c c"
  by (simp add: paths_kept_def)

lemma paths_keptD:
  assumes "paths_kept c c'" "h_programs (c_heap c) a = Some p"
  obtains q where "h_programs (c_heap c') a = Some q" "pr_path q = pr_path p"
  using assms unfolding paths_kept_def by metis

lemma paths_kept_trans: "paths_kept a b \<Longrightarrow> paths_kept b c \<Longrightarrow> paths_kept a c"
  unfolding paths_kept_def by metis

lemma well_behaved_bind:
  assumes "well_behaved rank m c"
    and "\<And>x c'. m c = (Ok x, c') \<Longrightarrow> include_inv rank c' \<Longrightarrow> paths_kept c c' \<Longrightarrow> well_behaved rank (f x) c'"
  shows "well_behaved rank (bindA m f) c"
proof (cases "m c")
  case (Pair out c')
  with assms(1) have c': "include_inv rank c'" "paths_kept c c'" "out \<noteq> Out_of_fuel" by (auto simp: well_behaved_def)
  show ?thesis
  proof (cases out)
    case (Ok x)
    with assms(2) [of x c'] Pair c' show ?thesis by (auto simp: well_behaved_def intro: paths_kept_trans)
  qed (use Pair c' in \<open>auto simp: well_behaved_def bindA_def\<close>)
qed

lemma well_behaved_seq:
  assumes "well_behaved rank m c"
    and "\<And>c'. include_inv rank c' \<Longrightarrow> paths_kept c c' \<Longrightarrow> well_behaved rank n c'"
  shows "well_behaved rank (seqA m n) c"
  unfolding seqA_def using assms by (intro well_behaved_bind) auto

lemma well_behaved_for_each:
  assumes "include_inv rank c"
    and "\<And>x c'. x \<in> set xs \<Longrightarrow> include_inv rank c' \<Longrightarrow> paths_kept c c' \<Longrightarrow> well_behaved rank (f x) c'"
  shows "well_behaved rank (for_each xs f) c"
  using assms
proof (induction xs arbitrary: c)
  case Nil
  then show ?case by (simp add: well_behaved_def returnA_def)
next
  case (Cons x xs)
  have "well_behaved rank (f x) c" using Cons.prems by simp
  then show ?case
    using Cons by (auto intro!: well_behaved_seq Cons.IH intro: paths_kept_trans)
qed

lemma well_behaved_simple:
  "include_inv rank c \<Longrightarrow> well_behaved rank (returnA x) c" "include_inv rank c \<Longrightarrow> well_behaved rank (exitA e) c"
  "include_inv rank c \<Longrightarrow> g c \<noteq> Out_of_fuel \<Longrightarrow> well_behaved rank (getsO g) c"
  "include_inv rank c \<Longrightarrow> c_heap (g' c) = c_heap c \<Longrightarrow> well_behaved rank (modify g') c"
  "include_inv rank c \<Longrightarrow> well_behaved rank (gets k) c"
  by (auto simp: well_behaved_def action_simps include_inv_def paths_kept_def)

lemma well_behaved_when: "include_inv rank c \<Longrightarrow> (b \<Longrightarrow> well_behaved rank m c) \<Longrightarrow> well_behaved rank (whenA b m) c"
  by (auto simp: whenA_def well_behaved_simple)

lemma well_behaved_catch: "well_behaved rank m c \<Longrightarrow> well_behaved rank (catch_failure m) c"
  by (auto simp: well_behaved_def catch_failure_def split: prod.splits outcome.splits)

lemma well_behaved_deref: "include_inv rank c \<Longrightarrow> well_behaved rank (getsO (\<lambda>c. deref (g c))) c"
proof (rule well_behaved_simple)
  show "deref (g c) \<noteq> Out_of_fuel" by (cases "g c") simp_all
qed

lemma well_behaved_add_include:
  assumes inv: "include_inv rank c" and p: "h_programs (c_heap c) pa = Some p" and r: "rank path < rank (pr_path p)"
  shows "well_behaved rank (on_heap (add_include pa path site)) c"
proof -
  let ?h = "c_heap c"
  have fresh: "h_programs ?h (h_next ?h) = None" and pa: "pa \<noteq> h_next ?h"
    using inv p by (auto simp: include_inv_def)
  have path [simp]: "pr_path (set_include_prefix x (new_program path)) = path"
      "pr_includes (set_include_prefix x (new_program path)) = []" for x
    by (simp_all add: set_include_prefix_def new_program_def new_program_named_def)
  obtain q where q: "add_include pa path site ?h = (Ok (), put_program pa (p\<lparr>pr_includes := pr_includes p @ [h_next ?h]\<rparr>)
        (?h\<lparr>h_programs := (h_programs ?h)(h_next ?h \<mapsto> q), h_next := Suc (h_next ?h)\<rparr>))"
      "pr_path q = path" "pr_includes q = []"
    using p path by (simp add: add_include_def run_simps alloc_program_def Let_def)
  let ?p = "p\<lparr>pr_includes := pr_includes p @ [h_next ?h]\<rparr>"
  let ?c = "c\<lparr>c_heap := put_program pa ?p (?h\<lparr>h_programs := (h_programs ?h)(h_next ?h \<mapsto> q), h_next := Suc (h_next ?h)\<rparr>)\<rparr>"
  have progs: "h_programs (c_heap ?c) = (h_programs ?h)(h_next ?h \<mapsto> q, pa \<mapsto> ?p)" by simp
  have kept: "\<exists>y. h_programs (c_heap ?c) a = Some y \<and> pr_path y = pr_path x" if "h_programs ?h a = Some x" for a x
    using that p fresh unfolding progs by (cases "a = pa") auto
  have "include_inv rank ?c"
    unfolding include_inv_def
  proof (intro conjI allI impI)
    fix a assume "h_next (c_heap ?c) \<le> a"
    then have "h_next ?h \<le> a" "a \<noteq> h_next ?h" by simp_all
    then show "h_programs (c_heap ?c) a = None" using inv p unfolding progs by (auto simp: include_inv_def)
  next
    fix a x ia assume x: "h_programs (c_heap ?c) a = Some x" "ia \<in> set (pr_includes x)"
    consider "a = pa" "x = ?p" | "a \<noteq> pa" "h_programs ?h a = Some x"
      using x q(3) unfolding progs by (auto split: if_splits)
    then show "\<exists>y. h_programs (c_heap ?c) ia = Some y \<and> rank (pr_path y) < rank (pr_path x)"
    proof cases
      case 1
      show ?thesis
      proof (cases "ia = h_next ?h")
        case True
        with q(2) r pa 1 show ?thesis unfolding progs by simp
      next
        case False
        with x(2) 1 have "ia \<in> set (pr_includes p)" by simp
        with inv p obtain y where "h_programs ?h ia = Some y" "rank (pr_path y) < rank (pr_path p)"
          by (rule include_invD)
        with kept 1 show ?thesis by fastforce
      qed
    next
      case 2
      from inv 2(2) x(2) obtain y where "h_programs ?h ia = Some y" "rank (pr_path y) < rank (pr_path x)"
        by (rule include_invD)
      with kept show ?thesis by fastforce
    qed
  qed
  moreover have "paths_kept c ?c" using kept unfolding paths_kept_def by blast
  ultimately show ?thesis using q(1) by (simp add: well_behaved_def on_heap_def)
qed

lemma well_behaved_include_pass:
  assumes inv: "include_inv rank c" and p: "h_programs (c_heap c) pa = Some p"
    and mode: "g_parse_mode c = INCLUDES" "g_program c = Some pa" "g_curdir c = directory_name (pr_path p)"
    and scan: "pe_includes env (pr_path p) \<noteq> Out_of_fuel"
    and dec: "\<And>literals l. pe_includes env (pr_path p) = Ok literals \<Longrightarrow> l \<in> set literals \<Longrightarrow>
        include_file (pe_fs env) (pe_searchpath env) (directory_name (pr_path p)) l \<noteq> '''' \<Longrightarrow>
        rank (include_file (pe_fs env) (pe_searchpath env) (directory_name (pr_path p)) l) < rank (pr_path p)"
  shows "well_behaved rank (include_pass env (pr_path p)) c"
proof -
  have header: "well_behaved rank (include_header env l) c' \<and>
      (\<forall>x c''. include_header env l c' = (x, c'') \<longrightarrow>
         g_parse_mode c'' = INCLUDES \<and> g_program c'' = Some pa \<and> g_curdir c'' = directory_name (pr_path p))"
    if c': "include_inv rank c'" "h_programs (c_heap c') pa = Some p'" "pr_path p' = pr_path p"
      "g_parse_mode c' = INCLUDES" "g_program c' = Some pa" "g_curdir c' = directory_name (pr_path p)"
      and l: "pe_includes env (pr_path p) = Ok literals" "l \<in> set literals" for c' p' l literals
  proof -
    let ?path = "include_file (pe_fs env) (pe_searchpath env) (directory_name (pr_path p)) l"
    let ?c = "c'\<lparr>c_doc := declare_valid_program_doctext (c_doc c')\<rparr>"
    have run: "include_header env l c' = whenA (?path \<noteq> '''') (on_heap (add_include pa ?path l)) ?c"
      using c' by (simp add: include_header_def run_simps Let_def)
    have inv': "include_inv rank ?c" using c'(1) by (simp add: include_inv_def)
    have "well_behaved rank (whenA (?path \<noteq> '''') (on_heap (add_include pa ?path l))) ?c"
      using inv' c'(2,3) dec [OF l]
      by (intro well_behaved_when well_behaved_add_include [of _ _ _ p']) auto
    then have "well_behaved rank (include_header env l) c'"
      unfolding well_behaved_def run by (simp add: paths_kept_def)
    moreover have "g_parse_mode c'' = INCLUDES \<and> g_program c'' = Some pa \<and> g_curdir c'' = directory_name (pr_path p)"
      if "include_header env l c' = (x, c'')" for x c''
      using that c'(4-6) by (auto simp: run whenA_def returnA_def on_heap_def split: if_splits prod.splits)
    ultimately show ?thesis by blast
  qed
  have loop: "well_behaved rank (for_each ls (include_header env)) c'"
    if "include_inv rank c'" "h_programs (c_heap c') pa = Some p'" "pr_path p' = pr_path p"
      "g_parse_mode c' = INCLUDES" "g_program c' = Some pa" "g_curdir c' = directory_name (pr_path p)"
      and l: "pe_includes env (pr_path p) = Ok literals" "set ls \<subseteq> set literals" for c' p' ls literals
    using that
  proof (induction ls arbitrary: c' p')
    case Nil
    then show ?case by (simp add: well_behaved_simple)
  next
    case (Cons l ls)
    have l: "l \<in> set literals" using Cons.prems(8) by simp
    note h = header [OF Cons.prems(1-7) l]
    show ?case
      unfolding for_each.simps seqA_def
    proof (rule well_behaved_bind)
      show "well_behaved rank (include_header env l) c'" using h by blast
      fix x c'' assume c'': "include_header env l c' = (Ok x, c'')" "include_inv rank c''" "paths_kept c' c''"
      obtain p'' where "h_programs (c_heap c'') pa = Some p''" "pr_path p'' = pr_path p"
        using paths_keptD [OF c''(3) Cons.prems(2)] Cons.prems(3) by metis
      moreover have "g_parse_mode c'' = INCLUDES" "g_program c'' = Some pa" "g_curdir c'' = directory_name (pr_path p)"
        using h c''(1) by blast+
      ultimately show "well_behaved rank (for_each ls (include_header env)) c''"
        using Cons.prems(7,8) c''(2) by (intro Cons.IH [of c'' p'']) auto
    qed
  qed
  show ?thesis
    unfolding include_pass_def
  proof (rule well_behaved_catch, rule well_behaved_bind)
    show "well_behaved rank (getsO (\<lambda>_. pe_includes env (pr_path p))) c"
      using inv scan by (intro well_behaved_simple)
    fix literals c' assume "getsO (\<lambda>_. pe_includes env (pr_path p)) c = (Ok literals, c')"
    then have "pe_includes env (pr_path p) = Ok literals" "c' = c" by simp_all
    then show "well_behaved rank (for_each literals (include_header env)) c'"
      using loop [OF inv p _ mode] by simp
  qed
qed

lemma well_behaved_open: "include_inv rank c \<Longrightarrow> well_behaved rank (open_file env path) c"
  unfolding open_file_def by (intro well_behaved_when well_behaved_simple)


definition demo_fs :: file_system where
  "demo_fs = \<lparr>fs_realpath = Some, fs_stat = (\<lambda>_. True), fs_is_directory = (\<lambda>_. True), fs_open = (\<lambda>_. True)\<rparr>"

definition demo_env :: parse_env where
  "demo_env = \<lparr>pe_fs = demo_fs, pe_searchpath = [],
     pe_includes = (\<lambda>p. Ok (if p = ''/a.thrift'' then [''b.thrift''] else [])), pe_types = returnA 0\<rparr>"

definition demo_compiler :: "string \<Rightarrow> compiler" where
  "demo_compiler path = \<lparr>c_heap = \<lparr>h_types = Map.empty, h_fields = Map.empty, h_programs = [0 \<mapsto> new_program path], h_next = 1\<rparr>,
     c_doc = doc_init, g_curdir = '''', g_curpath = '''', g_parse_mode = INCLUDES, g_program = None,
     g_scope = None, g_parent_scope = None, g_parent_prefix = ''''\<rparr>"

lemma demo_inv: "include_inv rank (demo_compiler path)"
  by (auto simp: include_inv_def demo_compiler_def new_program_def new_program_named_def)


definition fresh_programs :: "compiler \<Rightarrow> bool" where
  "fresh_programs c \<longleftrightarrow> (\<forall>a. h_next (c_heap c) \<le> a \<longrightarrow> h_programs (c_heap c) a = None)"

text \<open>
  C30: A file whose include header resolves to the file itself sends \<^verbatim>\<open>parse\<close> into unbounded
  recursion: no amount of fuel is enough. Nothing in \<^verbatim>\<open>parse\<close> or \<^verbatim>\<open>add_include\<close> looks for
  a file that is being parsed already.
\<close>

theorem self_include_diverges:
  assumes scan: "pe_includes env path = Ok [l]"
    and self: "include_file (pe_fs env) (pe_searchpath env) (directory_name path) l = path" "path \<noteq> ''''"
    and ok: "fs_open (pe_fs env) path"
    and start: "fresh_programs c" "h_programs (c_heap c) pa = Some p" "pr_path p = path" "pr_includes p = []"
  shows "fst (parse n env pa parent c) = Out_of_fuel"
  using start
proof (induction n arbitrary: pa p parent c)
  case (Suc n)
  let ?h = "c_heap c"
  let ?c1 = "c\<lparr>g_curdir := directory_name path, g_curpath := path, g_parse_mode := INCLUDES, g_program := Some pa, g_scope := Some pa\<rparr>"
  let ?q = "set_include_prefix (case rfind_char (CHR ''/'') l of None \<Rightarrow> '''' | Some i \<Rightarrow> take i l) (new_program path)"
  let ?c2 = "?c1\<lparr>c_doc := declare_valid_program_doctext (c_doc c),
      c_heap := put_program pa (p\<lparr>pr_includes := [h_next ?h]\<rparr>)
        (?h\<lparr>h_programs := (h_programs ?h)(h_next ?h \<mapsto> ?q), h_next := Suc (h_next ?h)\<rparr>)\<rparr>"
  have fresh: "h_programs ?h a = None" if "h_next ?h \<le> a" for a
    using Suc.prems(1) that by (simp add: fresh_programs_def)
  then have pa: "pa < h_next ?h" using Suc.prems(2) by (metis not_less option.distinct(1))
  have pass: "include_pass env path ?c1 = (Ok (), ?c2)"
    using scan self Suc.prems(2,4) 
    by (simp add: include_pass_def catch_failure_def include_header_def run_simps Let_def on_heap_def
        add_include_def alloc_program_def)
  have "fst (parse n env (h_next ?h) (Some pa) ?c2) = Out_of_fuel"
  proof (rule Suc.IH)
    show "h_programs (c_heap ?c2) (h_next ?h) = Some ?q" using pa by simp
    show "pr_path ?q = path" "pr_includes ?q = []"
      by (simp_all add: set_include_prefix_def new_program_def new_program_named_def)
    show "fresh_programs ?c2" using fresh pa by (simp add: fresh_programs_def)
  qed
  then have "fst (for_each [h_next ?h] (\<lambda>ia. parse n env ia (Some pa)) ?c2) = Out_of_fuel"
    by (cases "parse n env (h_next ?h) (Some pa) ?c2") (simp add: seqA_def bindA_def)
  then have loop: "fst (seqA (for_each [h_next ?h] (\<lambda>ia. parse n env ia (Some pa))) m ?c2) = Out_of_fuel" for m :: "(compiler, unit) action"
    by (cases "for_each [h_next ?h] (\<lambda>ia. parse n env ia (Some pa)) ?c2") (simp add: seqA_def bindA_def)
  have progs: "h_programs (c_heap ?c2) pa = Some (p\<lparr>pr_includes := [h_next ?h]\<rparr>)" by simp
  have "fst (seqA (bindA (getsO (\<lambda>c. deref (h_programs (c_heap c) pa))) (\<lambda>program.
      for_each (pr_includes program) (\<lambda>ia. parse n env ia (Some pa)))) m ?c2) = Out_of_fuel" for m :: "(compiler, unit) action"
  proof -
    have "deref (h_programs (c_heap ?c2) pa) = Ok (p\<lparr>pr_includes := [h_next ?h]\<rparr>)" using progs by simp
    from run_getsO(1) [where g = "\<lambda>c. deref (h_programs (c_heap c) pa)", OF this] loop [of m] show ?thesis
      unfolding run_seq_bind by simp
  qed
  with Suc.prems(2,3) ok pass show ?case by (simp add: run_simps open_file_def)
qed simp

theorem self_include_diverges_witness:
  "\<forall>n. fst (parse n (demo_env\<lparr>pe_includes := (\<lambda>_. Ok [''a.thrift''])\<rparr>) 0 None (demo_compiler ''/a.thrift'')) = Out_of_fuel"
proof (rule allI, rule self_include_diverges [where p = "new_program ''/a.thrift''"])
  have "directory_name ''/a.thrift'' = ''''" by code_simp
  then show "include_file (pe_fs (demo_env\<lparr>pe_includes := (\<lambda>_. Ok [''a.thrift''])\<rparr>))
      (pe_searchpath (demo_env\<lparr>pe_includes := (\<lambda>_. Ok [''a.thrift''])\<rparr>)) (directory_name ''/a.thrift'') ''a.thrift'' = ''/a.thrift''"
    by (simp add: include_file_def try_path_def demo_env_def demo_fs_def)
qed (simp_all add: demo_env_def demo_fs_def demo_compiler_def fresh_programs_def new_program_def new_program_named_def)

end
