(* ===== verification/Scanner.thy ===== *)
theory Scanner
  imports Parse_Tree
begin

text \<open>
  The scanner (\<^verbatim>\<open>thriftl.ll\<close>): its patterns, its rules in their order and the longest match that decides
  between them, and the conversion of numbers and string literals. The text becomes a list of lexemes: tokens,
  documentation comments with the line they end on, and the errors that end a run when the parser reaches them.
  \<^verbatim>\<open>atof\<close> is an argument.
\<close>

section \<open>Patterns\<close>

datatype rexp =
    Never
  | Empty
  | Class "char list"
  | Except "char list"
  | Then rexp rexp
  | Or rexp rexp
  | Many rexp

text \<open>The texts a pattern stands for.\<close>

inductive matches :: "rexp \<Rightarrow> string \<Rightarrow> bool" where
  "matches Empty ''''"
| "c \<in> set cs \<Longrightarrow> matches (Class cs) [c]"
| "c \<notin> set cs \<Longrightarrow> matches (Except cs) [c]"
| "matches r s \<Longrightarrow> matches q t \<Longrightarrow> matches (Then r q) (s @ t)"
| "matches r s \<Longrightarrow> matches (Or r q) s"
| "matches q s \<Longrightarrow> matches (Or r q) s"
| "matches (Many r) ''''"
| "matches r s \<Longrightarrow> matches (Many r) t \<Longrightarrow> matches (Many r) (s @ t)"

fun sequence :: "rexp list \<Rightarrow> rexp" where
  "sequence [] = Empty"
| "sequence [r] = r"
| "sequence (r # rs) = Then r (sequence rs)"

fun choice :: "rexp list \<Rightarrow> rexp" where
  "choice [] = Never"
| "choice [r] = r"
| "choice (r # rs) = Or r (choice rs)"

definition text_of :: "string \<Rightarrow> rexp" where
  "text_of s = sequence (map (\<lambda>c. Class [c]) s)"

definition optionally :: "rexp \<Rightarrow> rexp" where
  "optionally r = Or r Empty"

definition some :: "rexp \<Rightarrow> rexp" where
  "some r = Then r (Many r)"

text \<open>The longest match, by derivatives: what remains to be matched after a character.\<close>

fun nullable :: "rexp \<Rightarrow> bool" where
  "nullable Empty = True"
| "nullable (Then r q) = (nullable r \<and> nullable q)"
| "nullable (Or r q) = (nullable r \<or> nullable q)"
| "nullable (Many r) = True"
| "nullable _ = False"

definition and_then :: "rexp \<Rightarrow> rexp \<Rightarrow> rexp" where
  "and_then r q = (if r = Never \<or> q = Never then Never else if r = Empty then q else Then r q)"

definition or_else :: "rexp \<Rightarrow> rexp \<Rightarrow> rexp" where
  "or_else r q = (if r = Never then q else if q = Never \<or> r = q then r else Or r q)"

fun after :: "char \<Rightarrow> rexp \<Rightarrow> rexp" where
  "after c (Class cs) = (if c \<in> set cs then Empty else Never)"
| "after c (Except cs) = (if c \<in> set cs then Never else Empty)"
| "after c (Then r q) =
     (if nullable r then or_else (and_then (after c r) q) (after c q) else and_then (after c r) q)"
| "after c (Or r q) = or_else (after c r) (after c q)"
| "after c (Many r) = and_then (after c r) (Many r)"
| "after c _ = Never"

fun longest :: "rexp \<Rightarrow> string \<Rightarrow> nat option" where
  "longest r [] = (if nullable r then Some 0 else None)"
| "longest r (c # cs) =
     (if r = Never then None
      else (case longest (after c r) cs of
              Some n \<Rightarrow> Some (Suc n)
            | None \<Rightarrow> if nullable r then Some 0 else None))"

section \<open>Tokens and rules\<close>

datatype keyword =
  tok_namespace | tok_cpp_namespace | tok_cpp_include | tok_cpp_type | tok_java_package | tok_cocoa_prefix |
  tok_csharp_namespace | tok_delphi_namespace | tok_php_namespace | tok_py_module | tok_perl_package |
  tok_ruby_namespace | tok_smalltalk_category | tok_smalltalk_prefix | tok_xsd_all | tok_xsd_optional |
  tok_xsd_nillable | tok_xsd_namespace | tok_xsd_attrs | tok_include | tok_void | tok_bool | tok_byte | tok_i16 |
  tok_i32 | tok_i64 | tok_double | tok_string | tok_binary | tok_slist | tok_senum | tok_map | tok_list | tok_set |
  tok_oneway | tok_typedef | tok_struct | tok_union | tok_xception | tok_extends | tok_throws | tok_service |
  tok_enum | tok_const | tok_required | tok_optional | tok_reference

text \<open>A symbol is its own token; the end of the input is the token that is not positive.\<close>

datatype token =
    tok_identifier string
  | tok_literal string
  | tok_st_identifier string
  | tok_int_constant int
  | tok_dub_constant double
  | Kw keyword
  | Sym char
  | End_of_input

datatype rule_action =
    Skip
  | Symbol
  | Keyword keyword
  | Constant int
  | Reserved
  | Decimal
  | Hexadecimal
  | Double
  | Identifier
  | St_identifier
  | Literal
  | Doc
  | Unexpected

abbreviation digits :: string where
  "digits \<equiv> ''0123456789''"

abbreviation letters :: string where
  "letters \<equiv> ''abcdefghijklmnopqrstuvwxyzABCDEFGHIJKLMNOPQRSTUVWXYZ''"

abbreviation sign :: rexp where
  "sign \<equiv> optionally (Class ''+-'')"

definition intconstant :: rexp where
  "intconstant = sequence [sign, some (Class digits)]"

definition hexconstant :: rexp where
  "hexconstant = sequence [sign, text_of ''0x'', some (Class (digits @ ''ABCDEFabcdef''))]"

definition dubconstant :: rexp where
  "dubconstant = sequence
     [sign, Many (Class digits), optionally (Then (text_of ''.'') (some (Class digits))),
      optionally (sequence [Class ''eE'', sign, some (Class digits)])]"

definition identifier_name :: rexp where
  "identifier_name = sequence
     [Class (letters @ ''_''),
      Many (choice [Then (text_of ''.'') (Class (letters @ ''_'' @ digits)), Class (letters @ ''_'' @ digits)])]"

definition whitespace :: rexp where
  "whitespace = Many (Class [CHR '' '', CHR 0x09, CHR 0x0D, CHR 0x0A])"

definition sillycomm :: rexp where
  "sillycomm = sequence [text_of ''/*'', Many (text_of ''*''), text_of ''*/'']"

text \<open>The inside of a comment: a character that is neither star nor slash, or one that keeps a slash or a star from ending it.\<close>

definition comment_body :: rexp where
  "comment_body = Many (choice [Except ''*/'', Then (Except ''*'') (text_of ''/''), Then (text_of ''*'') (Except ''/'')])"

definition multicomm :: rexp where
  "multicomm = sequence
     [text_of ''/*'', Except ''*'', Many (text_of ''/''), comment_body, Many (text_of ''*''), text_of ''*/'']"

definition doctext :: rexp where
  "doctext = sequence [text_of ''/**'', comment_body, Many (text_of ''*''), text_of ''*/'']"

definition line_comment :: "string \<Rightarrow> rexp" where
  "line_comment start = Then (text_of start) (Many (Except [CHR 0x0A]))"

definition symbol :: rexp where
  "symbol = Class '':;,{}()=<>[]''"

definition st_identifier :: rexp where
  "st_identifier = sequence
     [Class (letters @ ''-''),
      Many (choice [Then (text_of ''.'') (Class (letters @ ''_'' @ digits @ ''-'')), Class (letters @ ''_'' @ digits @ ''-'')])]"

definition literal_begin :: rexp where
  "literal_begin = Class [CHR 0x27, CHR 0x22]"

definition keyword_words :: "(string \<times> rule_action) list" where
  "keyword_words =
     [(''false'', Constant 0), (''true'', Constant 1),
      (''namespace'', Keyword tok_namespace), (''cpp_namespace'', Keyword tok_cpp_namespace),
      (''cpp_include'', Keyword tok_cpp_include), (''cpp_type'', Keyword tok_cpp_type),
      (''java_package'', Keyword tok_java_package), (''cocoa_prefix'', Keyword tok_cocoa_prefix),
      (''csharp_namespace'', Keyword tok_csharp_namespace), (''delphi_namespace'', Keyword tok_delphi_namespace),
      (''php_namespace'', Keyword tok_php_namespace), (''py_module'', Keyword tok_py_module),
      (''perl_package'', Keyword tok_perl_package), (''ruby_namespace'', Keyword tok_ruby_namespace),
      (''smalltalk_category'', Keyword tok_smalltalk_category), (''smalltalk_prefix'', Keyword tok_smalltalk_prefix),
      (''xsd_all'', Keyword tok_xsd_all), (''xsd_optional'', Keyword tok_xsd_optional),
      (''xsd_nillable'', Keyword tok_xsd_nillable), (''xsd_namespace'', Keyword tok_xsd_namespace),
      (''xsd_attrs'', Keyword tok_xsd_attrs), (''include'', Keyword tok_include), (''void'', Keyword tok_void),
      (''bool'', Keyword tok_bool), (''byte'', Keyword tok_byte), (''i16'', Keyword tok_i16),
      (''i32'', Keyword tok_i32), (''i64'', Keyword tok_i64), (''double'', Keyword tok_double),
      (''string'', Keyword tok_string), (''binary'', Keyword tok_binary), (''slist'', Keyword tok_slist),
      (''senum'', Keyword tok_senum), (''map'', Keyword tok_map), (''list'', Keyword tok_list),
      (''set'', Keyword tok_set), (''oneway'', Keyword tok_oneway), (''typedef'', Keyword tok_typedef),
      (''struct'', Keyword tok_struct), (''union'', Keyword tok_union), (''exception'', Keyword tok_xception),
      (''extends'', Keyword tok_extends), (''throws'', Keyword tok_throws), (''service'', Keyword tok_service),
      (''enum'', Keyword tok_enum), (''const'', Keyword tok_const), (''required'', Keyword tok_required),
      (''optional'', Keyword tok_optional), (''async'', Keyword tok_oneway), (''&'', Keyword tok_reference)]"

definition reserved_words :: "string list" where
  "reserved_words =
     [
      ''BEGIN'', ''END'', ''__CLASS__'', ''__DIR__'', ''__FILE__'', ''__FUNCTION__'', ''__LINE__'', ''__METHOD__'',
      ''__NAMESPACE__'', ''abstract'', ''alias'', ''and'', ''args'', ''as'', ''assert'', ''begin'', ''break'',
      ''case'', ''catch'', ''class'', ''clone'', ''continue'', ''declare'', ''def'', ''default'', ''del'', ''delete'',
      ''do'', ''dynamic'', ''elif'', ''else'', ''elseif'', ''elsif'', ''end'', ''enddeclare'', ''endfor'',
      ''endforeach'', ''endif'', ''endswitch'', ''endwhile'', ''ensure'', ''except'', ''exec'', ''finally'',
      ''float'', ''for'', ''foreach'', ''function'', ''global'', ''goto'', ''if'', ''implements'', ''import'', ''in'',
      ''inline'', ''instanceof'', ''interface'', ''is'', ''lambda'', ''module'', ''native'', ''new'', ''next'',
      ''nil'', ''not'', ''or'', ''pass'', ''public'', ''print'', ''private'', ''protected'', ''public'', ''raise'',
      ''redo'', ''rescue'', ''retry'', ''register'', ''return'', ''self'', ''sizeof'', ''static'', ''super'',
      ''switch'', ''synchronized'', ''then'', ''this'', ''throw'', ''transient'', ''try'', ''undef'', ''union'',
      ''unless'', ''unsigned'', ''until'', ''use'', ''var'', ''virtual'', ''volatile'', ''when'', ''while'', ''with'',
      ''xor'', ''yield'']"

definition rules :: "(rexp \<times> rule_action) list" where
  "rules =
     [(whitespace, Skip), (sillycomm, Skip), (multicomm, Skip), (line_comment ''//'', Skip), (line_comment ''#'', Skip),
      (symbol, Symbol), (text_of ''*'', Symbol)] @
     map (\<lambda>(w, a). (text_of w, a)) keyword_words @
     map (\<lambda>w. (text_of w, Reserved)) reserved_words @
     [(intconstant, Decimal), (hexconstant, Hexadecimal), (dubconstant, Double), (identifier_name, Identifier),
      (st_identifier, St_identifier), (literal_begin, Literal), (doctext, Doc), (Except [CHR 0x0A], Unexpected)]"

text \<open>The rule with the longest match, the first one of those.\<close>

fun best_rule :: "(rexp \<times> rule_action) list \<Rightarrow> string \<Rightarrow> (nat \<times> rule_action) option" where
  "best_rule [] s = None"
| "best_rule ((r, a) # rs) s =
     (case longest r s of
        None \<Rightarrow> best_rule rs s
      | Some n \<Rightarrow> (case best_rule rs s of Some (m, b) \<Rightarrow> if n < m then Some (m, b) else Some (n, a) | None \<Rightarrow> Some (n, a)))"

section \<open>Values of tokens\<close>

text \<open>\<^verbatim>\<open>strtoll\<close> sets \<^verbatim>\<open>ERANGE\<close> when the value is not one of a 64-bit integer.\<close>

definition hex_digit :: "char \<Rightarrow> nat" where
  "hex_digit c =
     (if is_digit c then digit_value c
      else if is_upper c then of_char c - of_char (CHR ''A'') + 10
      else of_char c - of_char (CHR ''a'') + 10)"

definition in_int64 :: "int \<Rightarrow> bool" where
  "in_int64 i \<longleftrightarrow> - (2 ^ 63) \<le> i \<and> i < 2 ^ 63"

definition decimal_value :: "string \<Rightarrow> int" where
  "decimal_value yytext =
     (case yytext of
        [] \<Rightarrow> 0
      | c # cs \<Rightarrow>
          if c = CHR ''-'' then - int (read_nat cs 0)
          else if c = CHR ''+'' then int (read_nat cs 0)
          else int (read_nat (c # cs) 0))"

definition hex_value :: "string \<Rightarrow> int" where
  "hex_value ds = foldl (\<lambda>n c. 16 * n + int (hex_digit c)) 0 ds"

definition integer_overflow :: "string \<Rightarrow> string" where
  "integer_overflow yytext = ''This integer is too big: '' @ [CHR 0x22] @ yytext @ [CHR 0x22, CHR 0x0A]"

datatype lexeme =
    Token token
  | Doctext string int
  | Lex_error string

definition scan_decimal :: "string \<Rightarrow> lexeme" where
  "scan_decimal yytext =
     (if in_int64 (decimal_value yytext) then Token (tok_int_constant (decimal_value yytext))
      else Lex_error (integer_overflow yytext))"

definition scan_hexadecimal :: "string \<Rightarrow> lexeme" where
  "scan_hexadecimal yytext =
     (let v = hex_value (drop (if hd yytext = CHR ''0'' then 2 else 3) yytext)
      in if in_int64 v then Token (tok_int_constant (if hd yytext = CHR ''-'' then - v else v))
         else Lex_error (integer_overflow yytext))"

text \<open>The text behind the opening mark of a literal, with what is left behind its closing mark.\<close>

datatype literal =
    Closed string string
  | Bad_escape string
  | Broken string

definition escape_char :: "char \<Rightarrow> char option" where
  "escape_char c =
     (if c = CHR ''r'' then Some (CHR 0x0D)
      else if c = CHR ''n'' then Some (CHR 0x0A)
      else if c = CHR ''t'' then Some (CHR 0x09)
      else if c \<in> {CHR 0x22, CHR 0x27, CHR 0x5C} then Some c
      else None)"

fun scan_literal :: "char \<Rightarrow> string \<Rightarrow> string \<Rightarrow> literal" where
  "scan_literal mark res [] = Broken ''End of file while read string''"
| "scan_literal mark res (c # cs) =
     (if c = CHR 0x0A then Broken ''End of line while read string''
      else if c = CHR 0x5C then
        (case cs of
           [] \<Rightarrow> Bad_escape []
         | d # ds \<Rightarrow> (case escape_char d of None \<Rightarrow> Bad_escape ds | Some e \<Rightarrow> scan_literal mark (res @ [e]) ds))
      else if c = mark then Closed res cs
      else scan_literal mark (res @ [c]) cs)"

section \<open>The scanner\<close>

definition newlines :: "string \<Rightarrow> int" where
  "newlines s = int (length (filter (\<lambda>c. c = CHR 0x0A) s))"

text \<open>
  The action of a rule for the text it matched: the lexemes, and where the scanner goes on, if it does. After
  a bad escape the scanner returns a token that is not positive, which the parser takes for the end of the input.
\<close>

definition perform :: "(string \<Rightarrow> double) \<Rightarrow> int \<Rightarrow> rule_action \<Rightarrow> string \<Rightarrow> string \<Rightarrow> lexeme list \<times> string option" where
  "perform atof yylineno a yytext rest =
     (case a of
        Skip \<Rightarrow> ([], Some rest)
      | Symbol \<Rightarrow> ([Token (Sym (hd yytext))], Some rest)
      | Keyword k \<Rightarrow> ([Token (Kw k)], Some rest)
      | Constant i \<Rightarrow> ([Token (tok_int_constant i)], Some rest)
      | Reserved \<Rightarrow> ([Lex_error (''Cannot use reserved language keyword: '' @ yytext)], None)
      | Decimal \<Rightarrow> ([scan_decimal yytext], Some rest)
      | Hexadecimal \<Rightarrow> ([scan_hexadecimal yytext], Some rest)
      | Double \<Rightarrow> ([Token (tok_dub_constant (atof yytext))], Some rest)
      | Identifier \<Rightarrow> ([Token (tok_identifier yytext)], Some rest)
      | St_identifier \<Rightarrow> ([Token (tok_st_identifier yytext)], Some rest)
      | Literal \<Rightarrow>
          (case scan_literal (hd yytext) '''' rest of
             Closed res rest \<Rightarrow> ([Token (tok_literal res)], Some rest)
           | Bad_escape rest \<Rightarrow> ([Token End_of_input], None)
           | Broken msg \<Rightarrow> ([Lex_error msg], None))
      | Doc \<Rightarrow> ([Doctext (drop 3 yytext) yylineno], Some rest)
      | Unexpected \<Rightarrow> ([Lex_error (''Unexpected token in input: '' @ yytext)], None))"

function scan :: "(string \<Rightarrow> double) \<Rightarrow> int \<Rightarrow> string \<Rightarrow> lexeme list" where
  "scan atof yylineno [] = []"
| "scan atof yylineno (c # cs) =
     (case best_rule rules (c # cs) of
        None \<Rightarrow> []
      | Some (n, a) \<Rightarrow>
          (let yytext = take n (c # cs); line = yylineno + newlines yytext; r = perform atof line a yytext (drop n (c # cs))
           in fst r @ (case snd r of
                None \<Rightarrow> []
              | Some rest \<Rightarrow> if length rest < length (c # cs) then scan atof line rest else [])))"
  by pat_completeness auto
termination
  by (relation "measure (\<lambda>(atof, line, s). length s)") auto

declare scan.simps [simp del]

section \<open>The longest match\<close>

inductive_simps matches_simps [simp]:
  "matches Never s" "matches Empty s" "matches (Class cs) s" "matches (Except cs) s" "matches (Or r q) s"

inductive_simps matches_then: "matches (Then r q) s"

lemma nullable_iff: "nullable r \<longleftrightarrow> matches r ''''"
  by (induction r) (auto simp: matches_then intro: matches.intros)

lemma matches_many_cons: "matches (Many r) (c # s) \<longleftrightarrow> (\<exists>t u. s = t @ u \<and> matches r (c # t) \<and> matches (Many r) u)"
proof
  have "matches q w \<Longrightarrow> q = Many r \<Longrightarrow> w = c # s \<Longrightarrow> \<exists>t u. s = t @ u \<and> matches r (c # t) \<and> matches (Many r) u" for q w
  proof (induction rule: matches.induct)
    case (8 r' s' t')
    then show ?case by (cases s') auto
  qed auto
  then show "matches (Many r) (c # s) \<Longrightarrow> \<exists>t u. s = t @ u \<and> matches r (c # t) \<and> matches (Many r) u" by blast
  show "\<exists>t u. s = t @ u \<and> matches r (c # t) \<and> matches (Many r) u \<Longrightarrow> matches (Many r) (c # s)"
    using matches.intros(8) by fastforce
qed

lemma matches_and_then: "matches (and_then r q) s \<longleftrightarrow> matches (Then r q) s"
  by (auto simp: and_then_def matches_then)

lemma matches_or_else: "matches (or_else r q) s \<longleftrightarrow> matches (Or r q) s"
  by (auto simp: or_else_def)

lemma matches_then_cons:
  "matches (Then r q) (c # s) \<longleftrightarrow>
     (\<exists>t u. s = t @ u \<and> matches r (c # t) \<and> matches q u) \<or> (matches r '''' \<and> matches q (c # s))"
  by (auto simp: matches_then Cons_eq_append_conv)

lemma matches_after: "matches (after c r) s \<longleftrightarrow> matches r (c # s)"
proof (induction r arbitrary: s)
  case (Then r q)
  have "matches (and_then (after c r) q) s \<longleftrightarrow> (\<exists>t u. s = t @ u \<and> matches r (c # t) \<and> matches q u)"
    by (auto simp: matches_and_then matches_then Then)
  with Then show ?case by (simp add: matches_then_cons nullable_iff matches_or_else)
next
  case (Many r)
  have "matches (and_then (after c r) (Many r)) s \<longleftrightarrow> (\<exists>t u. s = t @ u \<and> matches r (c # t) \<and> matches (Many r) u)"
    by (auto simp: matches_and_then matches_then Many)
  then show ?case by (simp add: matches_many_cons)
qed (auto simp: matches_or_else)

lemma longest_None: "longest r s = None \<longleftrightarrow> (\<forall>n \<le> length s. \<not> matches r (take n s))"
proof (induction s arbitrary: r)
  case (Cons c s)
  have "(\<forall>n \<le> length (c # s). \<not> matches r (take n (c # s))) \<longleftrightarrow>
      \<not> matches r '''' \<and> (\<forall>n \<le> length s. \<not> matches r (c # take n s))"
    by (auto simp: All_less_Suc2 less_Suc_eq_le [symmetric])
  with Cons.IH [of "after c r"] show ?case
    by (cases "longest (after c r) s") (auto simp: nullable_iff matches_after)
qed (simp add: nullable_iff)

lemma longest_Some:
  "longest r s = Some n \<Longrightarrow> n \<le> length s \<and> matches r (take n s) \<and> (\<forall>m. n < m \<and> m \<le> length s \<longrightarrow> \<not> matches r (take m s))"
proof (induction s arbitrary: r n)
  case (Cons c s)
  show ?case
  proof (cases "longest (after c r) s")
    case None
    with Cons.prems have "n = 0" "nullable r" by (auto split: if_splits)
    moreover from None have "\<not> matches r (c # take m s)" if "m \<le> length s" for m
      using that by (simp add: longest_None matches_after)
    ultimately show ?thesis by (auto simp: nullable_iff take_Cons split: nat.splits)
  next
    case (Some k)
    with Cons.prems have "n = Suc k" by (auto split: if_splits)
    with Cons.IH [OF Some] show ?thesis by (auto simp: matches_after take_Cons split: nat.splits)
  qed
qed (auto simp: nullable_iff split: if_splits)


section \<open>Every text is scanned\<close>

lemma best_rule_None: "best_rule rs s = None \<longleftrightarrow> (\<forall>(r, a) \<in> set rs. longest r s = None)"
  by (induction rs) (auto split: option.splits if_splits)

lemma best_rule_Some:
  assumes "best_rule rs s = Some (n, a)"
  shows "\<exists>pre r post. rs = pre @ (r, a) # post \<and> longest r s = Some n \<and>
      (\<forall>(q, b) \<in> set pre. \<forall>m. longest q s = Some m \<longrightarrow> m < n) \<and>
      (\<forall>(q, b) \<in> set post. \<forall>m. longest q s = Some m \<longrightarrow> m \<le> n)"
  using assms
proof (induction rs arbitrary: n a)
  case (Cons x rs)
  obtain r b where x: "x = (r, b)" by fastforce
  show ?case
  proof (cases "best_rule rs s = Some (n, a) \<and> (\<forall>m. longest r s = Some m \<longrightarrow> m < n)")
    case True
    with Cons.IH [of n a] obtain pre q post where "rs = pre @ (q, a) # post" "longest q s = Some n"
      "\<forall>(q, b) \<in> set pre. \<forall>m. longest q s = Some m \<longrightarrow> m < n"
      "\<forall>(q, b) \<in> set post. \<forall>m. longest q s = Some m \<longrightarrow> m \<le> n" by auto
    with True x show ?thesis by (intro exI [of _ "x # pre"] exI [of _ q] exI [of _ post]) auto
  next
    case False
    with Cons.prems x have n: "longest r s = Some n" "b = a" by (auto split: option.splits if_splits)
    have "m \<le> n" if "(q, d) \<in> set rs" "longest q s = Some m" for q d m
    proof (cases "best_rule rs s")
      case None
      with that show ?thesis by (auto simp: best_rule_None)
    next
      case (Some k)
      obtain k' e where k: "k = (k', e)" by fastforce
      with Cons.prems n Some x have "k' \<le> n" by (auto split: if_splits)
      moreover from Cons.IH [of k' e] Some k obtain pre q' post where "rs = pre @ (q', e) # post" "longest q' s = Some k'"
        "\<forall>(q, b) \<in> set pre. \<forall>m. longest q s = Some m \<longrightarrow> m < k'"
        "\<forall>(q, b) \<in> set post. \<forall>m. longest q s = Some m \<longrightarrow> m \<le> k'" by auto
      with that have "m \<le> k'" by fastforce
      ultimately show ?thesis by simp
    qed
    with n x show ?thesis by (intro exI [of _ "[]"] exI [of _ r] exI [of _ rs]) auto
  qed
qed simp

lemma best_rule_best:
  assumes "best_rule rs s = Some (n, a)" "(q, b) \<in> set rs" "longest q s = Some m"
  shows "m \<le> n"
  using best_rule_Some [OF assms(1)] assms(2,3) by fastforce

lemma longest_ge:
  assumes "matches r (take n s)" "n \<le> length s"
  shows "\<exists>m \<ge> n. longest r s = Some m"
proof (cases "longest r s")
  case None
  with assms show ?thesis by (auto simp: longest_None)
next
  case (Some m)
  with longest_Some [OF Some] assms show ?thesis by (metis not_le)
qed

lemma first_character_matches: "\<exists>r a. (r, a) \<in> set rules \<and> matches r [c]"
proof (cases "c = CHR 0x0A")
  case True
  have "nullable (after (CHR 0x0A) whitespace)" by code_simp
  with True have "matches whitespace [c]" by (simp add: nullable_iff matches_after)
  moreover have "(whitespace, Skip) \<in> set rules" by (simp add: rules_def)
  ultimately show ?thesis by blast
next
  case False
  then have "matches (Except [CHR 0x0A]) [c]" by simp
  moreover have "(Except [CHR 0x0A], Unexpected) \<in> set rules" by (simp add: rules_def)
  ultimately show ?thesis by blast
qed

lemma best_rule_rest:
  assumes "best_rule rules (c # cs) = Some (n, a)"
  shows "0 < n \<and> n \<le> length (c # cs)"
proof -
  from best_rule_Some [OF assms] obtain pre r post where split: "rules = pre @ (r, a) # post" "longest r (c # cs) = Some n"
    "\<forall>(q, b) \<in> set pre. \<forall>m. longest q (c # cs) = Some m \<longrightarrow> m < n"
    "\<forall>(q, b) \<in> set post. \<forall>m. longest q (c # cs) = Some m \<longrightarrow> m \<le> n" by blast
  note best = best_rule_best [OF assms]
  from first_character_matches obtain q b where "(q, b) \<in> set rules" "matches q [c]" by blast
  moreover from this(2) have "\<exists>m \<ge> 1. longest q (c # cs) = Some m" by (intro longest_ge) simp_all
  then obtain m where "m \<ge> 1" "longest q (c # cs) = Some m" by blast
  ultimately have "0 < n" using best [of q b m] by simp
  with longest_Some [OF split(2)] show ?thesis by simp
qed



section \<open>Words\<close>

fun afters :: "string \<Rightarrow> rexp \<Rightarrow> rexp" where
  "afters [] r = r"
| "afters (c # cs) r = afters cs (after c r)"

lemma after_Never [simp]: "after c Never = Never"
  by simp

lemma afters_Never [simp]: "afters s Never = Never"
  by (induction s) auto

lemma longest_Never [simp]: "longest Never s = None"
  by (cases s) auto

text \<open>A pattern that cannot go on behind a text matches no more of it with something behind it.\<close>

lemma longest_stuck: "after c (afters s r) = Never \<Longrightarrow> longest r (s @ c # t) = longest r s"
  by (induction s arbitrary: r) (auto split: option.splits)

lemma longest_after_Never: "after c r = Never \<Longrightarrow> longest r (c # s) \<noteq> Some (Suc n)"
  by auto

lemma best_rule_cong: "(\<forall>(r, a) \<in> set rs. longest r s = longest r t) \<Longrightarrow> best_rule rs s = best_rule rs t"
  by (induction rs) (auto split: option.splits)

lemma best_rule_stuck:
  "(\<And>r a. (r, a) \<in> set rs \<Longrightarrow> after c (afters s r) = Never) \<Longrightarrow> best_rule rs (s @ c # t) = best_rule rs s"
  by (intro best_rule_cong) (auto intro!: longest_stuck)

text \<open>The characters of a pattern, and the patterns that name all of them.\<close>

fun alphabet :: "rexp \<Rightarrow> string" where
  "alphabet (Class cs) = cs"
| "alphabet (Then r q) = alphabet r @ alphabet q"
| "alphabet (Or r q) = alphabet r @ alphabet q"
| "alphabet (Many r) = alphabet r"
| "alphabet _ = []"

fun plain :: "rexp \<Rightarrow> bool" where
  "plain (Except cs) = False"
| "plain (Then r q) = (plain r \<and> plain q)"
| "plain (Or r q) = (plain r \<and> plain q)"
| "plain (Many r) = plain r"
| "plain _ = True"

lemma plain_after:
  "plain r \<Longrightarrow> plain (after c r) \<and> set (alphabet (after c r)) \<subseteq> set (alphabet r)"
  by (induction r) (auto simp: or_else_def and_then_def)

lemma plain_stuck: "plain r \<Longrightarrow> c \<notin> set (alphabet r) \<Longrightarrow> after c r = Never"
  by (induction r) (auto simp: or_else_def and_then_def)

lemma plain_afters: "plain r \<Longrightarrow> c \<notin> set (alphabet r) \<Longrightarrow> after c (afters s r) = Never"
proof (induction s arbitrary: r)
  case (Cons d s)
  with plain_after [of r d] show ?case by auto
qed (simp add: plain_stuck)

text \<open>The characters of numbers and names. Each of the rules stops before a character that is none of them.\<close>

definition word_chars :: string where
  "word_chars = letters @ digits @ ''_.+-''"

definition ends_words :: "rexp \<Rightarrow> bool" where
  "ends_words r \<longleftrightarrow>
     (plain r \<and> list_all (\<lambda>c. c \<in> set word_chars) (alphabet r)) \<or>
     list_all (\<lambda>c. after c r = Never \<or> after c r = Empty) word_chars"

lemma plain_text_of: "plain (text_of w) \<and> set (alphabet (text_of w)) = set w"
proof (induction w rule: induct_list012)
  case (3 c d cs)
  then show ?case by (auto simp: text_of_def)
qed (auto simp: text_of_def)

lemma ends_words_text_of: "list_all (\<lambda>c. c \<in> set word_chars) w \<Longrightarrow> ends_words (text_of w)"
  using plain_text_of [of w] by (auto simp: ends_words_def list_all_iff)

lemma keyword_words_end:
  "list_all (\<lambda>(w, a). w = ''&'' \<or> list_all (\<lambda>c. c \<in> set word_chars) w) keyword_words"
  by (simp add: keyword_words_def word_chars_def)

lemma reserved_words_end: "list_all (list_all (\<lambda>c. c \<in> set word_chars)) reserved_words"
  by (simp add: reserved_words_def word_chars_def)

definition other_rules :: "rexp list" where
  "other_rules =
     [whitespace, sillycomm, multicomm, line_comment ''//'', line_comment ''#'', symbol, text_of ''*'', text_of ''&'',
      intconstant, hexconstant, dubconstant, identifier_name, st_identifier, literal_begin, doctext, Except [CHR 0x0A]]"

lemma other_rules_end: "list_all ends_words other_rules"
  by code_simp

lemma rules_end_words: "(r, a) \<in> set rules \<Longrightarrow> ends_words r"
  using keyword_words_end reserved_words_end other_rules_end
  by (auto simp: rules_def other_rules_def list_all_iff [of _ keyword_words] list_all_iff [of _ reserved_words]
      intro: ends_words_text_of)

lemma ends_words_stuck:
  assumes "ends_words r" "s \<noteq> []" "hd s \<in> set word_chars" "c \<notin> set word_chars"
  shows "after c (afters s r) = Never"
proof (cases "plain r \<and> list_all (\<lambda>c. c \<in> set word_chars) (alphabet r)")
  case True
  with assms(4) show ?thesis by (auto simp: list_all_iff intro: plain_afters)
next
  case False
  with assms obtain d t where "s = d # t" "after d r = Never \<or> after d r = Empty"
    by (cases s) (auto simp: ends_words_def list_all_iff)
  moreover have "after c (afters t Empty) = Never" by (cases t) auto
  ultimately show ?thesis by auto
qed

lemma best_rule_word:
  assumes "s \<noteq> []" "hd s \<in> set word_chars" "c \<notin> set word_chars"
  shows "best_rule rules (s @ c # t) = best_rule rules s"
  using ends_words_stuck [OF rules_end_words assms] by (rule best_rule_stuck)

lemma matches_afters: "matches (afters s r) t \<longleftrightarrow> matches r (s @ t)"
  by (induction s arbitrary: r) (auto simp: matches_after)

lemma matches_text_of: "matches (text_of w) s \<longleftrightarrow> s = w"
proof (induction w arbitrary: s rule: induct_list012)
  case (3 c d cs)
  then show ?case by (auto simp: text_of_def matches_then)
qed (auto simp: text_of_def)

lemma matches_plain: "matches r s \<Longrightarrow> plain r \<Longrightarrow> set s \<subseteq> set (alphabet r)"
  by (induction rule: matches.induct) auto

lemma best_rule_full:
  assumes "matches r s" "\<forall>(q, b) \<in> set pre. \<not> matches q s"
  shows "best_rule (pre @ (r, a) # post) s = Some (length s, a)"
proof -
  have le: "longest q s = Some m \<Longrightarrow> m \<le> length s" for q m using longest_Some by blast
  with longest_ge [of r "length s" s] assms(1) have r: "longest r s = Some (length s)" by force
  have b: "best_rule rs s = Some (m, b) \<Longrightarrow> m \<le> length s" for rs m b
    using best_rule_Some [of rs s m b] le by blast
  have "\<forall>(q, b) \<in> set pre. \<forall>m. longest q s = Some m \<longrightarrow> m < length s"
    using assms(2) longest_Some le by (fastforce simp: nat_less_le)
  then show ?thesis
  proof (induction pre)
    case Nil
    from r b [of post] show ?case by (auto split: option.splits)
  qed (auto split: option.splits)
qed

text \<open>A word in front of another character is one token, and the scanner goes on behind it.\<close>

lemma scan_word:
  assumes "best_rule rules s = Some (length s, a)" "s \<noteq> []" "set s \<subseteq> set word_chars" "c \<notin> set word_chars"
    "perform atof yylineno a s (c # t) = ([x], Some (c # t))"
  shows "scan atof yylineno (s @ c # t) = x # scan atof yylineno (c # t)"
proof -
  from assms(2) obtain d u where s: "s = d # u" by (cases s) auto
  have "CHR 0x0A \<notin> set word_chars" by (simp add: word_chars_def)
  with assms(3) have "newlines s = 0" by (auto simp: newlines_def filter_empty_conv)
  moreover from assms s have "best_rule rules (d # (u @ c # t)) = Some (length s, a)"
    using best_rule_word [of s c t] by auto
  ultimately show ?thesis using assms(5) s by (simp add: scan.simps Let_def)
qed

definition starts_plainly :: "rexp \<Rightarrow> bool" where
  "starts_plainly r \<longleftrightarrow> list_all (\<lambda>c. after c r = Never) word_chars"

definition first_rules :: "rexp list" where
  "first_rules = [whitespace, sillycomm, multicomm, line_comment ''//'', line_comment ''#'', symbol, text_of ''*'']"

lemma first_rules_start: "list_all starts_plainly first_rules"
  by code_simp

lemma first_rules_no_word:
  assumes "r \<in> set first_rules" "s \<noteq> []" "set s \<subseteq> set word_chars"
  shows "\<not> matches r s"
proof -
  from assms(2) obtain c t where s: "s = c # t" by (cases s) auto
  with assms first_rules_start have "after c r = Never" by (auto simp: list_all_iff starts_plainly_def)
  with s show ?thesis by (auto simp flip: matches_after)
qed

definition number_rules :: "(rexp \<times> rule_action) list" where
  "number_rules = [(intconstant, Decimal), (hexconstant, Hexadecimal), (dubconstant, Double)]"

lemma rules_split:
  "rules = (map (\<lambda>r. (r, if r = symbol \<or> r = text_of ''*'' then Symbol else Skip)) first_rules @
     map (\<lambda>(w, a). (text_of w, a)) keyword_words @ map (\<lambda>w. (text_of w, Reserved)) reserved_words) @
     number_rules @ (identifier_name, Identifier) #
     [(st_identifier, St_identifier), (literal_begin, Literal), (doctext, Doc), (Except [CHR 0x0A], Unexpected)]"
proof -
  have "map (\<lambda>r. (r, if r = symbol \<or> r = text_of ''*'' then Symbol else Skip)) first_rules =
      [(whitespace, Skip), (sillycomm, Skip), (multicomm, Skip), (line_comment ''//'', Skip), (line_comment ''#'', Skip),
       (symbol, Symbol), (text_of ''*'', Symbol)]" by code_simp
  then show ?thesis by (simp add: rules_def number_rules_def)
qed

lemma best_rule_words:
  assumes "s \<noteq> []" "set s \<subseteq> set word_chars" "s \<notin> fst ` set keyword_words" "s \<notin> set reserved_words"
    "number_rules @ [(identifier_name, Identifier)] = pre @ (r, a) # post" "matches r s" "\<forall>(q, b) \<in> set pre. \<not> matches q s"
  shows "best_rule rules s = Some (length s, a)"
proof -
  let ?words = "map (\<lambda>r. (r, if r = symbol \<or> r = text_of ''*'' then Symbol else Skip)) first_rules @
     map (\<lambda>(w, a). (text_of w, a)) keyword_words @ map (\<lambda>w. (text_of w, Reserved)) reserved_words"
  let ?last = "[(st_identifier, St_identifier), (literal_begin, Literal), (doctext, Doc), (Except [CHR 0x0A], Unexpected)]"
  have "\<forall>(q, b) \<in> set (?words @ pre). \<not> matches q s"
    using assms(3,4,7) first_rules_no_word [OF _ assms(1,2)] by (force simp: matches_text_of)
  from best_rule_full [OF assms(6) this, of a "post @ ?last"]
  have "best_rule (?words @ (pre @ (r, a) # post) @ ?last) s = Some (length s, a)" by simp
  then show ?thesis unfolding rules_split assms(5) [symmetric] by simp
qed

section \<open>Numbers and names\<close>

lemma matches_many_class: "set s \<subseteq> set cs \<Longrightarrow> matches (Many (Class cs)) s"
proof (induction s)
  case (Cons c s)
  then have "matches (Many (Class cs)) ([c] @ s)" by (intro matches.intros) auto
  then show ?case by simp
qed (rule matches.intros)

lemma matches_some_class: "s \<noteq> [] \<Longrightarrow> set s \<subseteq> set cs \<Longrightarrow> matches (some (Class cs)) s"
  using matches_many_class [of "tl s" cs] matches.intros(4) [of "Class cs" "[hd s]" "Many (Class cs)" "tl s"]
  by (cases s) (auto simp: some_def)

lemma is_digit_iff: "is_digit c \<longleftrightarrow> c \<in> set digits"
proof
  assume "is_digit c"
  then have "of_char c \<in> set [48..<58]" by (simp add: is_digit_def del: upt_rec_numeral)
  moreover have "list_all (\<lambda>n :: nat. char_of n \<in> set digits) [48..<58]" by code_simp
  ultimately have "char_of (of_char c :: nat) \<in> set digits" by (simp only: list_all_iff)
  then show "c \<in> set digits" by simp
qed (auto simp: is_digit_def)

lemma show_int_matches: "matches intconstant (show_int i)"
proof -
  have n: "matches (some (Class digits)) (show_nat n)" for n
    using show_nat_digits by (intro matches_some_class) (auto simp: is_digit_iff simp del: set_simps)
  show ?thesis
    using n [of "nat i"] n [of "nat (- i)"]
    by (auto simp: show_int_def intconstant_def optionally_def matches_then intro: exI [of _ "''-''"])
qed

lemma show_int_word: "set (show_int i) \<subseteq> set word_chars"
  by (auto dest!: show_int_chars simp: is_digit_iff word_chars_def)

lemma word_starts: "list_all (\<lambda>w. w \<noteq> [] \<and> \<not> is_digit (hd w) \<and> hd w \<noteq> CHR ''-'') (map fst keyword_words @ reserved_words)"
  by (simp add: keyword_words_def reserved_words_def is_digit_iff)

lemma show_int_no_keyword: "show_int i \<notin> fst ` set keyword_words" "show_int i \<notin> set reserved_words"
  using word_starts show_int_chars [of "hd (show_int i)" i] by (force simp: list_all_iff)+

lemma decimal_value_show_int: "decimal_value (show_int i) = i"
proof -
  have "decimal_value (show_nat n) = int n" for n
  proof (cases "show_nat n")
    case (Cons c cs)
    with show_nat_digits [of c n] have "c \<noteq> CHR ''-'' \<and> c \<noteq> CHR ''+''" by (auto simp: is_digit_iff)
    with Cons show ?thesis using read_show_nat [of n] by (simp add: decimal_value_def del: read_nat.simps)
  qed simp
  then show ?thesis by (auto simp: show_int_def) (simp add: decimal_value_def read_show_nat)
qed

text \<open>
  C11: an integer of 64 bits, written in decimal and followed by a character that cannot be part of a number or a
  name, is read back as the token of that integer, and the scanner goes on right behind it.
\<close>

theorem integer_scanned_back:
  assumes "in_int64 i" "c \<notin> set word_chars"
  shows "scan atof yylineno (show_int i @ c # t) = Token (tok_int_constant i) # scan atof yylineno (c # t)"
proof (rule scan_word)
  show "best_rule rules (show_int i) = Some (length (show_int i), Decimal)"
    by (rule best_rule_words [OF _ _ show_int_no_keyword, of _ "[]" intconstant])
      (auto simp: show_int_matches show_int_word number_rules_def)
qed (use assms show_int_word in \<open>auto simp: perform_def scan_decimal_def decimal_value_show_int\<close>)

text \<open>
  C10: a name that is neither a keyword nor a reserved word is scanned as one token, and the scanner goes on right
  behind it; but a name that has the form of an exponent, like \<open>E10\<close>, is a floating point constant,
  whose rule comes before that of the identifiers.
\<close>

theorem name_scanned:
  assumes "matches identifier_name s" "s \<notin> fst ` set keyword_words" "s \<notin> set reserved_words" "c \<notin> set word_chars"
  shows "scan atof yylineno (s @ c # t) =
    Token (if matches dubconstant s then tok_dub_constant (atof s) else tok_identifier s) # scan atof yylineno (c # t)"
proof (rule scan_word)
  have s: "s \<noteq> []" using assms(1) nullable_iff [of identifier_name] by (auto simp: identifier_name_def)
  have "plain identifier_name" "list_all (\<lambda>c. c \<in> set word_chars) (alphabet identifier_name)" by code_simp+
  with matches_plain [OF assms(1)] have word: "set s \<subseteq> set word_chars" by (simp only: list_all_iff) blast
  show "s \<noteq> []" "set s \<subseteq> set word_chars" by fact+
  let ?a = "if matches dubconstant s then Double else Identifier"
  have "\<not> matches r s" if "r = intconstant \<or> r = hexconstant" for r
  proof -
    obtain d u where d: "s = d # u" using s by (cases s) auto
    have "list_all (\<lambda>d. after d identifier_name = Never \<or> (after d intconstant = Never \<and> after d hexconstant = Never)) word_chars"
      by code_simp
    moreover have "d \<in> set word_chars" using word d by simp
    moreover have "after d identifier_name \<noteq> Never" using assms(1) d by (auto simp flip: matches_after)
    ultimately have "after d r = Never" using that by (auto simp only: list_all_iff)
    with d show ?thesis by (auto simp flip: matches_after)
  qed
  then have "\<forall>(q, b) \<in> set [(intconstant, Decimal), (hexconstant, Hexadecimal)]. \<not> matches q s" by simp
  then show "best_rule rules s = Some (length s, ?a)"
    using best_rule_words [OF s word assms(2,3), of "[(intconstant, Decimal), (hexconstant, Hexadecimal)]" dubconstant]
      best_rule_words [OF s word assms(2,3), of number_rules identifier_name] assms(1)
    by (auto simp: number_rules_def)
qed (use assms(4) in \<open>auto simp: perform_def\<close>)

lemma integer_scanned_back_witness:
  "scan (\<lambda>_. 0) 1 (show_int (- 42) @ '';'') = Token (tok_int_constant (- 42)) # scan (\<lambda>_. 0) 1 '';''"
  by (rule integer_scanned_back) (simp_all add: in_int64_def word_chars_def)

lemma name_scanned_witness:
  "scan (\<lambda>_. 0) 1 (''E10'' @ '';'') = Token (tok_dub_constant 0) # scan (\<lambda>_. 0) 1 '';''"
proof -
  have "matches identifier_name ''E10''" "matches dubconstant ''E10''"
    by (auto simp: nullable_iff [symmetric] simp flip: matches_afters [of _ _ "''''", simplified]) code_simp+
  with name_scanned [of "''E10''" "CHR '';''" "\<lambda>_. 0" 1 "''''"] show ?thesis
    by (simp add: keyword_words_def reserved_words_def word_chars_def)
qed

section \<open>String literals\<close>

lemma marks_alone: "list_all (\<lambda>(r, a). after (CHR 0x27) r \<in> {Never, Empty} \<and> after (CHR 0x22) r \<in> {Never, Empty}) rules"
  by code_simp

lemma best_rule_mark:
  assumes "mark \<in> {CHR 0x27, CHR 0x22}"
  shows "best_rule rules (mark # s) = Some (1, Literal)"
proof -
  have "best_rule rules [CHR 0x27] = Some (1, Literal)" "best_rule rules [CHR 0x22] = Some (1, Literal)" by code_simp+
  with assms have one: "best_rule rules [mark] = Some (1, Literal)" by auto
  show ?thesis
  proof (cases s)
    case (Cons c t)
    have "after c (afters [mark] r) = Never" if "(r, a) \<in> set rules" for r a
      using marks_alone assms that by (fastforce simp: list_all_iff)
    then have "best_rule rules ([mark] @ c # t) = best_rule rules [mark]" by (rule best_rule_stuck)
    with Cons one show ?thesis by simp
  qed (simp add: one)
qed

lemma read_literal_plain:
  "list_all (\<lambda>c. c \<noteq> CHR 0x0A \<and> c \<noteq> CHR 0x5C \<and> c \<noteq> mark) s \<Longrightarrow> scan_literal mark res (s @ t) = scan_literal mark (res @ s) t"
  by (induction s arbitrary: res) auto



end
