(* ===== verification/Grammar.thy ===== *)
theory Grammar
  imports Driver Scanner
begin

text \<open>
  The parser (\<^verbatim>\<open>thrifty.yy\<close>): one action for each nonterminal, with the semantic actions of its productions
  in the order in which the generated parser reduces them. The grammar is LL(1), so a nonterminal decides by the next
  token. The next token is read only where the parser cannot reduce without it; reading it runs the scanner over the
  documentation comments in front of it, which decides what the reductions find in the documentation state.
  A syntax error makes \<^verbatim>\<open>yyparse\<close> return 1. Warnings are left out.
\<close>

section \<open>The state of the parser\<close>

record type_globals =
  g_type_void :: addr
  g_type_string :: addr
  g_type_binary :: addr
  g_type_slist :: addr
  g_type_bool :: addr
  g_type_byte :: addr
  g_type_i16 :: addr
  g_type_i32 :: addr
  g_type_i64 :: addr
  g_type_double :: addr

text \<open>What stays fixed during a parse; \<open>ye_fuel\<close> bounds the chains of typedefs that are followed.\<close>

record yy_env =
  ye_parse :: parse_env
  ye_types :: type_globals
  ye_options :: options
  ye_gens :: gen_map
  ye_fuel :: nat

record yy_state =
  yy_compiler :: compiler
  yy_input :: "lexeme list"
  yy_char :: "token option"
  y_field_val :: int
  y_enum_val :: int
  g_arglist :: bool
  yy_failed :: bool

type_synonym 'a yy = "(yy_state, 'a) action"

definition on_compiler :: "(compiler, 'a) action \<Rightarrow> 'a yy" where
  "on_compiler m s = (case m (yy_compiler s) of (out, c) \<Rightarrow> (out, s\<lparr>yy_compiler := c\<rparr>))"

definition on_yy_heap :: "(heap, 'a) action \<Rightarrow> 'a yy" where
  "on_yy_heap m = on_compiler (on_heap m)"

definition on_doc :: "(doc_state \<Rightarrow> doc_state) \<Rightarrow> unit yy" where
  "on_doc f = on_compiler (modify (\<lambda>c. c\<lparr>c_doc := f (c_doc c)\<rparr>))"

abbreviation yy_heap :: "yy_state \<Rightarrow> heap" where
  "yy_heap s \<equiv> c_heap (yy_compiler s)"

definition yy_mode :: "parse_mode yy" where
  "yy_mode = gets (\<lambda>s. g_parse_mode (yy_compiler s))"

definition in_program :: "unit yy \<Rightarrow> unit yy" where
  "in_program m = bindA yy_mode (\<lambda>mode. whenA (mode = PROGRAM) m)"

definition yy_program :: "addr yy" where
  "yy_program = getsO (\<lambda>s. deref (g_program (yy_compiler s)))"

definition change_program :: "addr \<Rightarrow> (t_program \<Rightarrow> t_program) \<Rightarrow> unit yy" where
  "change_program pa f =
     on_yy_heap (bindA (getsO (\<lambda>h. deref (h_programs h pa))) (\<lambda>p. modify (put_program pa (f p))))"

definition on_program :: "(t_program \<Rightarrow> t_program) \<Rightarrow> unit yy" where
  "on_program f = bindA yy_program (\<lambda>pa. change_program pa f)"

text \<open>\<^verbatim>\<open>g_scope\<close> is the scope of the program; \<^verbatim>\<open>g_parent_scope\<close> that of the program that includes it, if any.\<close>

definition change_scope :: "addr \<Rightarrow> (t_scope \<Rightarrow> t_scope outcome) \<Rightarrow> unit yy" where
  "change_scope pa f =
     on_yy_heap (bindA (getsO (\<lambda>h. deref (h_programs h pa))) (\<lambda>p.
       bindA (getsO (\<lambda>_. f (pr_scope p))) (\<lambda>sc. modify (put_program pa (p\<lparr>pr_scope := sc\<rparr>)))))"

definition yy_scope :: "addr yy" where
  "yy_scope = getsO (\<lambda>s. deref (g_scope (yy_compiler s)))"

definition in_scopes :: "(string \<Rightarrow> t_scope \<Rightarrow> t_scope outcome) \<Rightarrow> string \<Rightarrow> unit yy" where
  "in_scopes f name =
     seqA (bindA yy_scope (\<lambda>sa. change_scope sa (f name)))
      (bindA (gets (\<lambda>s. (g_parent_scope (yy_compiler s), g_parent_prefix (yy_compiler s)))) (\<lambda>(parent, prefix).
         (case parent of None \<Rightarrow> returnA () | Some qa \<Rightarrow> change_scope qa (f (prefix @ name)))))"

text \<open>A lookup in the scope, which stores a null entry for a name it does not find.\<close>

definition look_up :: "(string \<Rightarrow> t_scope \<Rightarrow> addr option \<times> t_scope) \<Rightarrow> string \<Rightarrow> addr option yy" where
  "look_up get name =
     bindA yy_scope (\<lambda>sa.
     bindA (getsO (\<lambda>s. deref (h_programs (yy_heap s) sa))) (\<lambda>p.
       seqA (change_scope sa (\<lambda>sc. Ok (snd (get name sc)))) (returnA (fst (get name (pr_scope p))))))"

definition new_type :: "t_type_obj \<Rightarrow> addr yy" where
  "new_type t = on_yy_heap (\<lambda>h. case alloc_type t h of (a, h) \<Rightarrow> (Ok a, h))"

definition new_field_object :: "t_field \<Rightarrow> addr yy" where
  "new_field_object f = on_yy_heap (\<lambda>h. case alloc_field f h of (a, h) \<Rightarrow> (Ok a, h))"

definition new_address :: "addr yy" where
  "new_address = on_yy_heap (\<lambda>h. (Ok (h_next h), h\<lparr>h_next := Suc (h_next h)\<rparr>))"

definition yy_type :: "addr \<Rightarrow> t_type_obj yy" where
  "yy_type a = getsO (\<lambda>s. deref (h_types (yy_heap s) a))"

definition set_type :: "addr \<Rightarrow> t_type_obj \<Rightarrow> unit yy" where
  "set_type a t = on_yy_heap (modify (put_type a t))"

text \<open>
  In the first pass the types of fields are null. No object has the address 0, so a null pointer in a member that
  is an address is represented by it, and reading through it is undefined.
\<close>

definition type_pointer :: "addr option \<Rightarrow> addr" where
  "type_pointer p = (case p of None \<Rightarrow> 0 | Some a \<Rightarrow> a)"

text \<open>The error routines.\<close>

definition yyerror_exit :: "string \<Rightarrow> 'a yy" where
  "yyerror_exit msg = exitA msg"

definition failure :: "string \<Rightarrow> 'a yy" where
  "failure msg = exitA msg"

definition syntax_error :: "'a yy" where
  "syntax_error = seqA (modify (\<lambda>s. s\<lparr>yy_failed := True\<rparr>)) (throwA ''syntax error'')"

definition check_name :: "string \<Rightarrow> unit yy" where
  "check_name name = getsO (\<lambda>_. validate_simple_identifier name)"

section \<open>Tokens\<close>

fun fetch :: "parse_mode \<Rightarrow> lexeme list \<Rightarrow> doc_state \<Rightarrow> token outcome \<times> lexeme list \<times> doc_state" where
  "fetch mode [] d = (Ok End_of_input, [], d)"
| "fetch mode (Token t # ls) d = (Ok t, ls, d)"
| "fetch mode (Lex_error msg # ls) d = (Exit msg, ls, d)"
| "fetch mode (Doctext text line # ls) d =
     (if mode = PROGRAM
      then (case lex_doctext text line d of (Ok _, d) \<Rightarrow> fetch mode ls d | (_, d) \<Rightarrow> (Undefined, ls, d))
      else fetch mode ls d)"

text \<open>The lookahead token, read if there is none yet.\<close>

definition peek :: "token yy" where
  "peek s =
     (case yy_char s of
        Some t \<Rightarrow> (Ok t, s)
      | None \<Rightarrow>
          (case fetch (g_parse_mode (yy_compiler s)) (yy_input s) (c_doc (yy_compiler s)) of
             (out, ls, d) \<Rightarrow>
               (out, s\<lparr>yy_input := ls, yy_compiler := (yy_compiler s)\<lparr>c_doc := d\<rparr>,
                       yy_char := (case out of Ok t \<Rightarrow> Some t | _ \<Rightarrow> None)\<rparr>)))"

definition shift :: "unit yy" where
  "shift = modify (\<lambda>s. s\<lparr>yy_char := None\<rparr>)"

definition expect :: "token \<Rightarrow> unit yy" where
  "expect t = bindA peek (\<lambda>t'. if t' = t then shift else syntax_error)"

definition expect_identifier :: "string yy" where
  "expect_identifier =
     bindA peek (\<lambda>t. case t of tok_identifier name \<Rightarrow> seqA shift (returnA name) | _ \<Rightarrow> syntax_error)"

definition expect_literal :: "string yy" where
  "expect_literal =
     bindA peek (\<lambda>t. case t of tok_literal lit \<Rightarrow> seqA shift (returnA lit) | _ \<Rightarrow> syntax_error)"

text \<open>A token that may be there: whether it is, and then it is shifted.\<close>

definition optional_token :: "token \<Rightarrow> bool yy" where
  "optional_token t = bindA peek (\<lambda>t'. if t' = t then seqA shift (returnA True) else returnA False)"

definition CommaOrSemicolonOptional :: "unit yy" where
  "CommaOrSemicolonOptional =
     bindA peek (\<lambda>t. if t = Sym (CHR '','') \<or> t = Sym (CHR '';'') then shift else returnA ())"

definition out_of_fuel :: "'a yy" where
  "out_of_fuel s = (Out_of_fuel, s)"

section \<open>Annotations\<close>

definition TypeAnnotationValue :: "string yy" where
  "TypeAnnotationValue =
     bindA (optional_token (Sym (CHR ''=''))) (\<lambda>b. if b then expect_literal else returnA ''1'')"

definition TypeAnnotation :: "(string \<times> string) yy" where
  "TypeAnnotation =
     bindA expect_identifier (\<lambda>key.
     bindA TypeAnnotationValue (\<lambda>val.
       seqA CommaOrSemicolonOptional (returnA (key, val))))"

primrec TypeAnnotationList :: "nat \<Rightarrow> annotations \<Rightarrow> annotations yy" where
  "TypeAnnotationList 0 = (\<lambda>_. out_of_fuel)"
| "TypeAnnotationList (Suc n) = (\<lambda>annotations.
     bindA peek (\<lambda>t.
       if t = Sym (CHR '')'') then returnA annotations
       else bindA TypeAnnotation (\<lambda>(key, val). TypeAnnotationList n (smap_set key val annotations))))"

definition TypeAnnotations :: "nat \<Rightarrow> annotations option yy" where
  "TypeAnnotations n =
     bindA (optional_token (Sym (CHR ''(''))) (\<lambda>b.
       if b then bindA (TypeAnnotationList n []) (\<lambda>annotations. seqA (expect (Sym (CHR '')''))) (returnA (Some annotations)))
       else returnA None)"

text \<open>The annotations of a type object.\<close>

fun with_annotations :: "annotations \<Rightarrow> t_type_obj \<Rightarrow> t_type_obj" where
  "with_annotations as (Base_type x) = Base_type (x\<lparr>ty_annotations := as\<rparr>)"
| "with_annotations as (Typedef x) = Typedef (x\<lparr>ty_annotations := as\<rparr>)"
| "with_annotations as (Enum x) = Enum (x\<lparr>ty_annotations := as\<rparr>)"
| "with_annotations as (Struct x) = Struct (x\<lparr>ty_annotations := as\<rparr>)"
| "with_annotations as (List_type x) = List_type (x\<lparr>ty_annotations := as\<rparr>)"
| "with_annotations as (Set_type x) = Set_type (x\<lparr>ty_annotations := as\<rparr>)"
| "with_annotations as (Map_type x) = Map_type (x\<lparr>ty_annotations := as\<rparr>)"
| "with_annotations as (Service x) = Service (x\<lparr>ty_annotations := as\<rparr>)"

definition annotate :: "addr \<Rightarrow> annotations option \<Rightarrow> unit yy" where
  "annotate a as =
     (case as of None \<Rightarrow> returnA () | Some as \<Rightarrow> bindA (yy_type a) (\<lambda>t. set_type a (with_annotations as t)))"

section \<open>Types\<close>

definition CppType :: "string option yy" where
  "CppType =
     bindA (optional_token (Kw tok_cpp_type)) (\<lambda>b.
       if b then bindA expect_literal (\<lambda>lit. returnA (Some lit)) else returnA None)"

fun with_cpp_name :: "string option \<Rightarrow> 'a t_container_scheme \<Rightarrow> 'a t_container_scheme" where
  "with_cpp_name None c = c"
| "with_cpp_name (Some name) c = set_cpp_name name c"

definition simple_base_type :: "type_globals \<Rightarrow> keyword \<Rightarrow> addr option" where
  "simple_base_type g k =
     (case k of
        tok_string \<Rightarrow> Some (g_type_string g)
      | tok_binary \<Rightarrow> Some (g_type_binary g)
      | tok_slist \<Rightarrow> Some (g_type_slist g)
      | tok_bool \<Rightarrow> Some (g_type_bool g)
      | tok_byte \<Rightarrow> Some (g_type_byte g)
      | tok_i16 \<Rightarrow> Some (g_type_i16 g)
      | tok_i32 \<Rightarrow> Some (g_type_i32 g)
      | tok_i64 \<Rightarrow> Some (g_type_i64 g)
      | tok_double \<Rightarrow> Some (g_type_double g)
      | _ \<Rightarrow> None)"

definition BaseType :: "yy_env \<Rightarrow> nat \<Rightarrow> keyword \<Rightarrow> addr option yy" where
  "BaseType env n k =
     (case simple_base_type (ye_types env) k of
        None \<Rightarrow> syntax_error
      | Some a \<Rightarrow>
          seqA shift
           (bindA (TypeAnnotations n) (\<lambda>as.
             (case as of
                None \<Rightarrow> returnA (Some a)
              | Some as \<Rightarrow> bindA (yy_type a) (\<lambda>t. bindA (new_type (with_annotations as t)) (\<lambda>b. returnA (Some b)))))))"

definition identifier_type :: "string \<Rightarrow> addr option yy" where
  "identifier_type name =
     bindA yy_mode (\<lambda>mode.
       if mode = INCLUDES then returnA None
       else bindA (look_up get_type name) (\<lambda>p.
         (case p of
            Some a \<Rightarrow> returnA (Some a)
          | None \<Rightarrow> bindA yy_program (\<lambda>pa. bindA (new_type (Typedef (new_forward_typedef pa name True))) (\<lambda>a. returnA (Some a))))))"

text \<open>A container and the annotations behind it.\<close>

definition ContainerType :: "nat \<Rightarrow> addr yy \<Rightarrow> addr option yy" where
  "ContainerType n SimpleContainerType =
     bindA SimpleContainerType (\<lambda>a. bindA (TypeAnnotations n) (\<lambda>as. seqA (annotate a as) (returnA (Some a))))"

primrec FieldType :: "nat \<Rightarrow> yy_env \<Rightarrow> addr option yy" where
  "FieldType 0 = (\<lambda>_. out_of_fuel)"
| "FieldType (Suc n) = (\<lambda>env.
     bindA peek (\<lambda>t.
       (case t of
          tok_identifier name \<Rightarrow> seqA shift (identifier_type name)
        | Kw tok_map \<Rightarrow>
            ContainerType n
             (seqA shift
               (bindA CppType (\<lambda>cpp.
                seqA (expect (Sym (CHR ''<'')))
                 (bindA (FieldType n env) (\<lambda>key.
                  seqA (expect (Sym (CHR '','')))
                   (bindA (FieldType n env) (\<lambda>val.
                    seqA (expect (Sym (CHR ''>'')))
                     (new_type (Map_type (with_cpp_name cpp (new_map (type_pointer key) (type_pointer val))))))))))))
        | Kw tok_set \<Rightarrow>
            ContainerType n
             (seqA shift
               (bindA CppType (\<lambda>cpp.
                seqA (expect (Sym (CHR ''<'')))
                 (bindA (FieldType n env) (\<lambda>elem.
                  seqA (expect (Sym (CHR ''>'')))
                   (new_type (Set_type (with_cpp_name cpp (new_set (type_pointer elem))))))))))
        | Kw tok_list \<Rightarrow>
            ContainerType n
             (seqA shift
               (seqA (expect (Sym (CHR ''<'')))
                 (bindA (FieldType n env) (\<lambda>elem.
                  seqA (expect (Sym (CHR ''>'')))
                   (bindA CppType (\<lambda>cpp.
                     new_type (List_type (with_cpp_name cpp (new_list (type_pointer elem))))))))))
        | Kw k \<Rightarrow> BaseType env n k
        | _ \<Rightarrow> syntax_error)))"

definition FunctionType :: "yy_env \<Rightarrow> nat \<Rightarrow> addr option yy" where
  "FunctionType env n =
     bindA (optional_token (Kw tok_void)) (\<lambda>b. if b then returnA (Some (g_type_void (ye_types env))) else FieldType n env)"

section \<open>Constants\<close>

definition new_value :: "(t_const_value \<Rightarrow> t_const_value) \<Rightarrow> t_const_value yy" where
  "new_value f = bindA new_address (\<lambda>a. returnA (f (new_const_value a)))"

text \<open>The contents of a list and of a map are read up to the bracket that closes them.\<close>

fun ConstValue :: "nat \<Rightarrow> t_const_value yy"
  and ConstListContents :: "nat \<Rightarrow> t_const_value \<Rightarrow> t_const_value yy"
  and ConstMapContents :: "nat \<Rightarrow> t_const_value \<Rightarrow> t_const_value yy"
where
  "ConstValue 0 = out_of_fuel"
| "ConstValue (Suc n) =
     bindA peek (\<lambda>t.
       (case t of
          tok_int_constant i \<Rightarrow> seqA shift (new_value (set_integer i))
        | tok_dub_constant d \<Rightarrow> seqA shift (new_value (set_double d))
        | tok_literal lit \<Rightarrow> seqA shift (new_value (set_string lit))
        | tok_identifier name \<Rightarrow> seqA shift (new_value (set_identifier name))
        | Sym c \<Rightarrow>
            if c = CHR ''['' then
              seqA shift
               (bindA (new_value set_list) (\<lambda>v.
                bindA (ConstListContents n v) (\<lambda>v. seqA (expect (Sym (CHR '']''))) (returnA v))))
            else if c = CHR ''{'' then
              seqA shift
               (bindA (new_value set_map) (\<lambda>v.
                bindA (ConstMapContents n v) (\<lambda>v. seqA (expect (Sym (CHR ''}''))) (returnA v))))
            else syntax_error
        | _ \<Rightarrow> syntax_error))"
| "ConstListContents 0 v = out_of_fuel"
| "ConstListContents (Suc n) v =
     bindA peek (\<lambda>t.
       if t = Sym (CHR '']'') then returnA v
       else
         bindA (ConstValue n) (\<lambda>x.
         seqA CommaOrSemicolonOptional
           (ConstListContents n (add_list x v))))"
| "ConstMapContents 0 v = out_of_fuel"
| "ConstMapContents (Suc n) v =
     bindA peek (\<lambda>t.
       if t = Sym (CHR ''}'') then returnA v
       else
         bindA (ConstValue n) (\<lambda>key.
         seqA (expect (Sym (CHR '':'')))
          (bindA (ConstValue n) (\<lambda>val.
           seqA CommaOrSemicolonOptional
             (ConstMapContents n (add_map key val v))))))"

text \<open>A constant, checked and entered into the scopes in the second pass; in the first one there is no object.\<close>

definition yy_resolve :: "yy_env \<Rightarrow> t_const_value \<Rightarrow> addr \<Rightarrow> t_const_value yy" where
  "yy_resolve env value ty =
     bindA yy_scope (\<lambda>sa.
     bindA (getsO (\<lambda>s. deref (h_programs (yy_heap s) sa))) (\<lambda>p.
       getsO (\<lambda>s. resolve_const_value (ye_fuel env) (yy_heap s) (pr_scope p) value ty)))"

definition enter_constant :: "yy_env \<Rightarrow> addr \<Rightarrow> string \<Rightarrow> t_const_value \<Rightarrow> t_const yy" where
  "enter_constant env ty name value =
     seqA (check_name name)
      (bindA (yy_resolve env value ty) (\<lambda>value.
        let c = new_const ty name value
        in seqA (getsO (\<lambda>s. validate_const_type (yy_heap s) c))
            (seqA (in_scopes (\<lambda>name. add_constant name c) name) (returnA c))))"

definition Const :: "yy_env \<Rightarrow> nat \<Rightarrow> t_const option yy" where
  "Const env n =
     seqA shift
      (bindA (FieldType n env) (\<lambda>ty.
       bindA expect_identifier (\<lambda>name.
       seqA (expect (Sym (CHR ''='')))
        (bindA (ConstValue n) (\<lambda>value.
         seqA CommaOrSemicolonOptional
          (bindA yy_mode (\<lambda>mode.
            if mode = INCLUDES then returnA None
            else bindA (enter_constant env (type_pointer ty) name value) (\<lambda>c. returnA (Some c)))))))))"

section \<open>Enumerations\<close>

definition EnumValue :: "t_enum_value yy" where
  "EnumValue =
     bindA expect_identifier (\<lambda>name.
     bindA (optional_token (Sym (CHR ''=''))) (\<lambda>b.
       if b then
         bindA peek (\<lambda>t.
           (case t of
              tok_int_constant i \<Rightarrow>
                seqA shift
                 (seqA (if i < INT32_MIN \<or> INT32_MAX < i
                        then failure (''64-bit value supplied for enum '' @ name @ '' will be truncated.'') else returnA ())
                  (seqA (modify (\<lambda>s. s\<lparr>y_enum_val := to_int32 i\<rparr>))
                    (returnA (new_enum_value name (to_int32 i)))))
            | _ \<Rightarrow> syntax_error))
       else
         seqA (check_name name)
          (bindA (gets y_enum_val) (\<lambda>i.
             if i = INT32_MAX then failure (''enum value overflow at enum '' @ name)
             else seqA (modify (\<lambda>s. s\<lparr>y_enum_val := i + 1\<rparr>)) (returnA (new_enum_value name (i + 1)))))))"

text \<open>The documentation a definition takes with it; there is none in the first pass.\<close>

definition CaptureDocText :: "string option yy" where
  "CaptureDocText =
     bindA yy_mode (\<lambda>mode.
       if mode = PROGRAM then
         bindA (gets (\<lambda>s. fst (capture_doctext (c_doc (yy_compiler s))))) (\<lambda>d.
           seqA (on_doc (\<lambda>g. snd (capture_doctext g))) (returnA d))
       else returnA None)"

text \<open>\<^verbatim>\<open>set_doc\<close> on an object that is still in hand.\<close>

definition document :: "string option \<Rightarrow> 'a t_doc_scheme \<Rightarrow> 'a t_doc_scheme yy" where
  "document d x =
     (case d of
        None \<Rightarrow> returnA x
      | Some d \<Rightarrow>
          bindA (gets (\<lambda>s. fst (set_doc d x (c_doc (yy_compiler s))))) (\<lambda>y.
            seqA (on_doc (\<lambda>g. snd (set_doc d x g))) (returnA y)))"

definition EnumDef :: "nat \<Rightarrow> t_enum_value yy" where
  "EnumDef n =
     bindA CaptureDocText (\<lambda>d.
     bindA EnumValue (\<lambda>v.
     bindA (TypeAnnotations n) (\<lambda>as.
       seqA CommaOrSemicolonOptional
        (bindA (document d v) (\<lambda>v.
          returnA (case as of None \<Rightarrow> v | Some as \<Rightarrow> v\<lparr>ev_annotations := as\<rparr>))))))"

definition append_enum_value :: "addr \<Rightarrow> t_enum_value \<Rightarrow> unit yy" where
  "append_enum_value ea v =
     bindA (yy_type ea) (\<lambda>t. case t of Enum e \<Rightarrow> set_type ea (Enum (enum_append v e)) | _ \<Rightarrow> getsO (\<lambda>_. Undefined))"

primrec EnumDefList :: "nat \<Rightarrow> addr \<Rightarrow> unit yy" where
  "EnumDefList 0 = (\<lambda>_. out_of_fuel)"
| "EnumDefList (Suc n) = (\<lambda>ea.
     bindA peek (\<lambda>t.
       if t = Sym (CHR ''}'') then returnA ()
       else bindA (EnumDef n) (\<lambda>v. seqA (append_enum_value ea v) (EnumDefList n ea))))"

text \<open>The constants a program gets for the values of an enumeration.\<close>

definition enum_constant :: "yy_env \<Rightarrow> addr \<Rightarrow> string \<Rightarrow> t_enum_value \<Rightarrow> unit yy" where
  "enum_constant env ea enum_name v =
     bindA new_address (\<lambda>a.
       in_scopes (\<lambda>name. add_constant name
           (new_const (g_type_i32 (ye_types env)) (ev_name v) (set_enum ea (new_const_integer a (ev_value v)))))
         (enum_name @ ''.'' @ ev_name v))"

definition with_name :: "addr \<Rightarrow> string \<Rightarrow> unit yy" where
  "with_name a name =
     bindA (yy_type a) (\<lambda>t.
       (case t of
          Enum e \<Rightarrow> set_type a (Enum (e\<lparr>ty_name := name\<rparr>))
        | Service sv \<Rightarrow> set_type a (Service (sv\<lparr>ty_name := name\<rparr>))
        | _ \<Rightarrow> getsO (\<lambda>_. Undefined)))"

definition enum_values :: "addr \<Rightarrow> t_enum_value list yy" where
  "enum_values ea =
     bindA (yy_type ea) (\<lambda>t. case t of Enum e \<Rightarrow> returnA (en_constants e) | _ \<Rightarrow> getsO (\<lambda>_. Undefined))"

definition Enum_definition :: "yy_env \<Rightarrow> nat \<Rightarrow> addr yy" where
  "Enum_definition env n =
     seqA shift
      (bindA expect_identifier (\<lambda>name.
       seqA (expect (Sym (CHR ''{'')))
        (bindA yy_program (\<lambda>pa.
         bindA (new_type (Enum (new_enum pa))) (\<lambda>ea.
         seqA (modify (\<lambda>s. s\<lparr>y_enum_val := - 1\<rparr>))
         (seqA (EnumDefList n ea)
         (seqA (expect (Sym (CHR ''}'')))
          (bindA (TypeAnnotations n) (\<lambda>as.
           seqA (check_name name)
           (seqA (with_name ea name)
           (seqA (annotate ea as)
           (seqA (in_program (bindA (enum_values ea) (\<lambda>vs. for_each vs (enum_constant env ea name))))
             (returnA ea)))))))))))))"

section \<open>Typedefs and string enumerations\<close>

definition new_typedef_object :: "addr option \<Rightarrow> string \<Rightarrow> annotations option \<Rightarrow> addr yy" where
  "new_typedef_object ty name as =
     bindA yy_program (\<lambda>pa.
     bindA (new_type (Typedef ((new_typedef pa (type_pointer ty) name)\<lparr>td_type := ty\<rparr>))) (\<lambda>td.
       seqA (annotate td as) (returnA td)))"

definition Typedef_definition :: "yy_env \<Rightarrow> nat \<Rightarrow> addr yy" where
  "Typedef_definition env n =
     seqA shift
      (bindA (FieldType n env) (\<lambda>ty.
       bindA expect_identifier (\<lambda>name.
       bindA (TypeAnnotations n) (\<lambda>as.
         seqA CommaOrSemicolonOptional
          (seqA (check_name name) (new_typedef_object ty name as))))))"

primrec SenumDefList :: "nat \<Rightarrow> addr \<Rightarrow> unit yy" where
  "SenumDefList 0 = (\<lambda>_. out_of_fuel)"
| "SenumDefList (Suc n) = (\<lambda>ba.
     bindA peek (\<lambda>t.
       if t = Sym (CHR ''}'') then returnA ()
       else
         bindA expect_literal (\<lambda>lit.
         seqA CommaOrSemicolonOptional
          (seqA (bindA (yy_type ba) (\<lambda>t.
              case t of Base_type b \<Rightarrow> set_type ba (Base_type (add_string_enum_val lit b)) | _ \<Rightarrow> getsO (\<lambda>_. Undefined)))
            (SenumDefList n ba)))))"

definition Senum :: "nat \<Rightarrow> addr yy" where
  "Senum n =
     seqA shift
      (bindA expect_identifier (\<lambda>name.
       seqA (expect (Sym (CHR ''{'')))
        (bindA (new_type (Base_type ((new_base_type ''string'' TYPE_STRING)\<lparr>bt_string_enum := True\<rparr>))) (\<lambda>ba.
         seqA (SenumDefList n ba)
         (seqA (expect (Sym (CHR ''}'')))
          (bindA (TypeAnnotations n) (\<lambda>as.
           seqA (check_name name) (new_typedef_object (Some ba) name as))))))))"

end
