(* ===== verification/Grammar_Definitions.thy ===== *)
theory Grammar_Definitions
  imports Grammar
begin

text \<open>
  The definitions of a file (\<^verbatim>\<open>thrifty.yy\<close>): fields, structs, exceptions, functions, services, headers, the
  file as a whole, and the parser as the driver calls it.
\<close>

section \<open>Fields\<close>

text \<open>Automatic field keys count down; below the smallest integer the decrement is undefined.\<close>

definition auto_field_key :: "int yy" where
  "auto_field_key =
     bindA (gets y_field_val) (\<lambda>i.
       if i = INT32_MIN then getsO (\<lambda>_. Undefined)
       else seqA (modify (\<lambda>s. s\<lparr>y_field_val := i - 1\<rparr>)) (returnA i))"

text \<open>The key of a field and whether it was assigned automatically.\<close>

definition FieldIdentifier :: "yy_env \<Rightarrow> (int \<times> bool) yy" where
  "FieldIdentifier env =
     bindA peek (\<lambda>t.
       (case t of
          tok_int_constant i \<Rightarrow>
            seqA shift
             (seqA (expect (Sym (CHR '':'')))
               (if 0 < i then returnA (to_int32 i, False)
                else if op_allow_neg_field_keys (ye_options env) then
                  (if \<not> in_int64 (i - 1) then getsO (\<lambda>_. Undefined)
                   else seqA (modify (\<lambda>s. s\<lparr>y_field_val := to_int32 (i - 1)\<rparr>)) (returnA (to_int32 i, False)))
                else bindA auto_field_key (\<lambda>key. returnA (key, True))))
        | _ \<Rightarrow> bindA auto_field_key (\<lambda>key. returnA (key, True))))"

definition FieldRequiredness :: "e_req yy" where
  "FieldRequiredness =
     bindA peek (\<lambda>t.
       if t = Kw tok_required then seqA shift (returnA T_REQUIRED)
       else if t = Kw tok_optional then
         seqA shift (bindA (gets g_arglist) (\<lambda>b. returnA (if b then T_OPT_IN_REQ_OUT else T_OPTIONAL)))
       else returnA T_OPT_IN_REQ_OUT)"

definition FieldValue :: "nat \<Rightarrow> t_const_value option yy" where
  "FieldValue n =
     bindA (optional_token (Sym (CHR ''=''))) (\<lambda>b.
       if b then bindA (ConstValue n) (\<lambda>v. bindA yy_mode (\<lambda>mode. returnA (if mode = PROGRAM then Some v else None)))
       else returnA None)"

text \<open>A field list starts over with the automatic keys and a struct without a name.\<close>

definition new_field_list :: "addr yy" where
  "new_field_list =
     seqA (modify (\<lambda>s. s\<lparr>y_field_val := - 1\<rparr>))
      (bindA yy_program (\<lambda>pa. new_type (Struct (new_struct (Some pa) ''''))))"

definition append_field :: "addr \<Rightarrow> addr \<Rightarrow> unit yy" where
  "append_field sa fa =
     bindA (on_yy_heap (struct_append sa fa)) (\<lambda>b.
       if b then returnA () else yyerror_exit ''field identifier/name has already been used'')"

definition check_field_key :: "yy_env \<Rightarrow> bool \<Rightarrow> unit yy" where
  "check_field_key env auto_assigned =
     whenA (auto_assigned \<and> 192 \<le> op_strict (ye_options env))
       (yyerror_exit ''Implicit field keys are deprecated and not allowed with -strict'')"

text \<open>The default value of a field, resolved and checked against its type.\<close>

definition field_default :: "yy_env \<Rightarrow> t_field \<Rightarrow> t_const_value option \<Rightarrow> t_field yy" where
  "field_default env f value =
     (case value of
        None \<Rightarrow> returnA f
      | Some v \<Rightarrow>
          bindA (yy_resolve env v (fl_type f)) (\<lambda>v.
            seqA (getsO (\<lambda>s. validate_field_value (yy_heap s) f v)) (returnA (f\<lparr>fl_value := Some v\<rparr>))))"

text \<open>The actions of a field, once its parts are there: the object they build.\<close>

definition build_field ::
  "yy_env \<Rightarrow> string option \<Rightarrow> int \<times> bool \<Rightarrow> e_req \<Rightarrow> addr option \<Rightarrow> bool \<Rightarrow> string \<Rightarrow> t_const_value option \<Rightarrow> bool \<Rightarrow> bool \<Rightarrow>
   addr option \<Rightarrow> annotations option \<Rightarrow> addr yy"
where
  "build_field env d ident req ty reference name value xsd_optional xsd_nillable attrs as =
     seqA (check_field_key env (snd ident))
     (seqA (check_name name)
      (bindA (field_default env ((new_field (type_pointer ty) name (fst ident))\<lparr>fl_reference := reference, fl_req := Some req\<rparr>) value)
        (\<lambda>f.
        bindA (document d (f\<lparr>fl_xsd_optional := xsd_optional, fl_xsd_nillable := xsd_nillable\<rparr>)) (\<lambda>f.
          new_field_object
            (f\<lparr>fl_xsd_attrs := attrs, fl_annotations := (case as of None \<Rightarrow> [] | Some as \<Rightarrow> as)\<rparr>)))))"

fun Field :: "nat \<Rightarrow> yy_env \<Rightarrow> addr yy"
  and Fields :: "nat \<Rightarrow> yy_env \<Rightarrow> addr \<Rightarrow> unit yy"
where
  "Field 0 env = out_of_fuel"
| "Field (Suc n) env =
     bindA CaptureDocText (\<lambda>d.
     bindA (FieldIdentifier env) (\<lambda>ident.
     bindA FieldRequiredness (\<lambda>req.
     bindA (FieldType n env) (\<lambda>ty.
     bindA (optional_token (Kw tok_reference)) (\<lambda>reference.
     bindA expect_identifier (\<lambda>name.
     bindA (FieldValue n) (\<lambda>value.
     bindA (optional_token (Kw tok_xsd_optional)) (\<lambda>xsd_optional.
     bindA (optional_token (Kw tok_xsd_nillable)) (\<lambda>xsd_nillable.
     bindA (optional_token (Kw tok_xsd_attrs)) (\<lambda>b.
     bindA (if b
            then seqA (expect (Sym (CHR ''{'')))
                  (bindA new_field_list (\<lambda>sa.
                   seqA (Fields n env sa) (seqA (expect (Sym (CHR ''}''))) (returnA (Some sa)))))
            else returnA None) (\<lambda>attrs.
     bindA (TypeAnnotations n) (\<lambda>as.
     seqA CommaOrSemicolonOptional
       (build_field env d ident req ty reference name value xsd_optional xsd_nillable attrs as)))))))))))))"
| "Fields 0 env sa = out_of_fuel"
| "Fields (Suc n) env sa =
     bindA peek (\<lambda>t.
       if t = Sym (CHR ''}'') \<or> t = Sym (CHR '')'') then returnA ()
       else bindA (Field n env) (\<lambda>fa. seqA (append_field sa fa) (Fields n env sa)))"

text \<open>\<^verbatim>\<open>FieldList\<close>: the struct of the fields up to the bracket that closes them.\<close>

definition FieldList :: "nat \<Rightarrow> yy_env \<Rightarrow> addr yy" where
  "FieldList n env = bindA new_field_list (\<lambda>sa. seqA (Fields n env sa) (returnA sa))"

section \<open>Structs and exceptions\<close>

definition Struct_definition :: "yy_env \<Rightarrow> nat \<Rightarrow> bool \<Rightarrow> addr yy" where
  "Struct_definition env n is_union =
     seqA shift
      (bindA expect_identifier (\<lambda>name.
       bindA (optional_token (Kw tok_xsd_all)) (\<lambda>xsd_all.
       seqA (expect (Sym (CHR ''{'')))
        (bindA (FieldList n env) (\<lambda>sa.
         seqA (expect (Sym (CHR ''}'')))
          (bindA (TypeAnnotations n) (\<lambda>as.
           seqA (check_name name)
           (seqA (on_yy_heap (set_xsd_all sa xsd_all))
           (seqA (on_yy_heap (set_union sa is_union))
           (seqA (on_yy_heap (struct_set_name sa name))
           (seqA (annotate sa as) (returnA sa))))))))))))"

definition Xception :: "yy_env \<Rightarrow> nat \<Rightarrow> addr yy" where
  "Xception env n =
     seqA shift
      (bindA expect_identifier (\<lambda>name.
       seqA (expect (Sym (CHR ''{'')))
        (bindA (FieldList n env) (\<lambda>sa.
         seqA (expect (Sym (CHR ''}'')))
          (bindA (TypeAnnotations n) (\<lambda>as.
           seqA (check_name name)
           (seqA (on_yy_heap (struct_set_name sa name))
           (seqA (on_yy_heap (set_xception sa True))
           (seqA (annotate sa as) (returnA sa))))))))))"

section \<open>Functions and services\<close>

definition Throws :: "yy_env \<Rightarrow> nat \<Rightarrow> addr yy" where
  "Throws env n =
     bindA (optional_token (Kw tok_throws)) (\<lambda>b.
       if b then
         seqA (expect (Sym (CHR ''('')))
          (bindA (FieldList n env) (\<lambda>sa.
           seqA (expect (Sym (CHR '')'')))
            (seqA (in_program
                (bindA (getsO (\<lambda>s. bind_outcome (get_struct sa (yy_heap s)) (validate_throws (ye_fuel env) (yy_heap s)))) (\<lambda>ok.
                   if ok then returnA () else yyerror_exit ''Throws clause may not contain non-exception types'')))
              (returnA sa))))
       else bindA yy_program (\<lambda>pa. new_type (Struct (new_struct (Some pa) ''''))))"

text \<open>
  The constructor of a function reads the exceptions of a oneway function, and then the class of its return type,
  also where the first pass has no object for that type.
\<close>

definition build_function ::
  "string option \<Rightarrow> bool \<Rightarrow> addr option \<Rightarrow> string \<Rightarrow> addr \<Rightarrow> addr \<Rightarrow> annotations option \<Rightarrow> t_function yy"
where
  "build_function d oneway ty name args xceptions as =
     seqA (check_name name)
     (seqA (on_yy_heap (struct_set_name args (name @ ''_args'')))
      (bindA (getsO (\<lambda>s. new_function (type_pointer ty) name args xceptions oneway (yy_heap s))) (\<lambda>f.
       seqA (whenA oneway (bindA (yy_type (type_pointer ty)) (\<lambda>_. returnA ())))
        (bindA (document d f) (\<lambda>f.
          returnA (f\<lparr>fn_annotations := (case as of None \<Rightarrow> [] | Some as \<Rightarrow> as)\<rparr>))))))"

definition Function :: "yy_env \<Rightarrow> nat \<Rightarrow> t_function yy" where
  "Function env n =
     bindA CaptureDocText (\<lambda>d.
     bindA (optional_token (Kw tok_oneway)) (\<lambda>oneway.
     bindA (FunctionType env n) (\<lambda>ty.
     bindA expect_identifier (\<lambda>name.
     seqA (expect (Sym (CHR ''('')))
      (bindA (FieldList n env) (\<lambda>args.
       seqA (expect (Sym (CHR '')'')))
        (bindA (Throws env n) (\<lambda>xceptions.
         bindA (TypeAnnotations n) (\<lambda>as.
         seqA CommaOrSemicolonOptional (build_function d oneway ty name args xceptions as))))))))))"

definition yy_service :: "addr \<Rightarrow> t_service yy" where
  "yy_service a = bindA (yy_type a) (\<lambda>t. case t of Service sv \<Rightarrow> returnA sv | _ \<Rightarrow> getsO (\<lambda>_. Undefined))"

primrec FunctionList :: "nat \<Rightarrow> yy_env \<Rightarrow> addr \<Rightarrow> unit yy" where
  "FunctionList 0 = (\<lambda>_ _. out_of_fuel)"
| "FunctionList (Suc n) = (\<lambda>env va.
     bindA peek (\<lambda>t.
       if t = Sym (CHR ''}'') then returnA ()
       else
         bindA (Function env n) (\<lambda>f.
         bindA (yy_service va) (\<lambda>sv.
         bindA (getsO (\<lambda>_. add_function f sv)) (\<lambda>sv.
           seqA (set_type va (Service sv)) (FunctionList n env va))))))"

definition Extends :: "addr option yy" where
  "Extends =
     bindA (optional_token (Kw tok_extends)) (\<lambda>b.
       if b then
         bindA expect_identifier (\<lambda>name.
         bindA yy_mode (\<lambda>mode.
           if mode = PROGRAM then
             bindA (look_up get_service name) (\<lambda>p.
               (case p of
                  None \<Rightarrow> yyerror_exit (''Service '' @ name @ '' has not been defined.'')
                | Some a \<Rightarrow> returnA (Some a)))
           else returnA None))
       else returnA None)"

definition Service_definition :: "yy_env \<Rightarrow> nat \<Rightarrow> addr yy" where
  "Service_definition env n =
     seqA shift
      (bindA expect_identifier (\<lambda>name.
       bindA Extends (\<lambda>extends.
       seqA (expect (Sym (CHR ''{'')))
       (seqA (modify (\<lambda>s. s\<lparr>g_arglist := True\<rparr>))
        (bindA yy_program (\<lambda>pa.
         bindA (new_type (Service (new_service pa))) (\<lambda>va.
         seqA (FunctionList n env va)
         (seqA (modify (\<lambda>s. s\<lparr>g_arglist := False\<rparr>))
         (seqA (expect (Sym (CHR ''}'')))
          (bindA (TypeAnnotations n) (\<lambda>as.
           seqA (check_name name)
           (seqA (with_name va name)
            (bindA (yy_service va) (\<lambda>sv.
             seqA (set_type va (Service (set_extends extends sv)))
             (seqA (annotate va as) (returnA va))))))))))))))))"

section \<open>Definitions\<close>

text \<open>What a definition leaves to be documented: a type, a constant, or nothing.\<close>

datatype defined = Defined_type addr | Defined_const t_const | Defined_nothing

definition type_name :: "addr \<Rightarrow> string yy" where
  "type_name a = bindA (yy_type a) (\<lambda>t. returnA (get_name t))"

definition require_unique_typename :: "addr \<Rightarrow> string \<Rightarrow> unit yy" where
  "require_unique_typename a name =
     bindA yy_program (\<lambda>pa.
     bindA (getsO (\<lambda>s. is_unique_typename (yy_heap s) pa a)) (\<lambda>unique.
       if unique then returnA () else yyerror_exit (''Type '' @ name @ '' is already defined.'')))"

text \<open>A type is entered into its program, in the second pass.\<close>

definition entered :: "(addr \<Rightarrow> t_program \<Rightarrow> t_program) \<Rightarrow> addr yy \<Rightarrow> addr yy" where
  "entered add m = bindA m (\<lambda>a. seqA (in_program (on_program (add a))) (returnA a))"

definition TypeDefinition :: "yy_env \<Rightarrow> nat \<Rightarrow> addr yy" where
  "TypeDefinition env n =
     bindA peek (\<lambda>t.
       if t = Kw tok_typedef then entered add_typedef (Typedef_definition env n)
       else if t = Kw tok_enum then entered add_enum (Enum_definition env n)
       else if t = Kw tok_senum then entered add_typedef (Senum n)
       else if t = Kw tok_struct then entered add_struct (Struct_definition env n False)
       else if t = Kw tok_union then entered add_struct (Struct_definition env n True)
       else if t = Kw tok_xception then entered add_xception (Xception env n)
       else syntax_error)"

text \<open>A definition; only the second pass enters it into the program and the scopes.\<close>

definition Definition :: "yy_env \<Rightarrow> nat \<Rightarrow> defined yy" where
  "Definition env n =
     bindA peek (\<lambda>t.
       if t = Kw tok_const then
         bindA (Const env n) (\<lambda>c.
           (case c of
              None \<Rightarrow> returnA Defined_nothing
            | Some c \<Rightarrow> seqA (in_program (on_program (add_const c))) (returnA (Defined_const c))))
       else if t = Kw tok_service then
         bindA (Service_definition env n) (\<lambda>a.
           seqA (in_program
             (bindA (type_name a) (\<lambda>name.
               seqA (in_scopes (\<lambda>name sc. Ok (add_service name a sc)) name)
               (seqA (on_program (program_add_service a)) (require_unique_typename a name)))))
            (returnA (Defined_type a)))
       else
         bindA (TypeDefinition env n) (\<lambda>a.
           seqA (in_program
             (bindA (type_name a) (\<lambda>name.
               seqA (in_scopes (\<lambda>name sc. Ok (add_type name a sc)) name) (require_unique_typename a name))))
            (returnA (Defined_type a))))"

text \<open>\<^verbatim>\<open>set_doc\<close> on a type object.\<close>

fun with_doc :: "t_doc \<Rightarrow> t_type_obj \<Rightarrow> t_type_obj" where
  "with_doc d (Base_type x) = Base_type (x\<lparr>doc := doc d, has_doc := has_doc d\<rparr>)"
| "with_doc d (Typedef x) = Typedef (x\<lparr>doc := doc d, has_doc := has_doc d\<rparr>)"
| "with_doc d (Enum x) = Enum (x\<lparr>doc := doc d, has_doc := has_doc d\<rparr>)"
| "with_doc d (Struct x) = Struct (x\<lparr>doc := doc d, has_doc := has_doc d\<rparr>)"
| "with_doc d (List_type x) = List_type (x\<lparr>doc := doc d, has_doc := has_doc d\<rparr>)"
| "with_doc d (Set_type x) = Set_type (x\<lparr>doc := doc d, has_doc := has_doc d\<rparr>)"
| "with_doc d (Map_type x) = Map_type (x\<lparr>doc := doc d, has_doc := has_doc d\<rparr>)"
| "with_doc d (Service x) = Service (x\<lparr>doc := doc d, has_doc := has_doc d\<rparr>)"

text \<open>
  A constant is one object behind the vector of its program and the tables of the scopes: its documentation
  changes there. It is the last constant of the program, and only the second pass makes one.
\<close>

definition redocument :: "t_const \<Rightarrow> t_program \<Rightarrow> t_program" where
  "redocument c p = p\<lparr>pr_consts := butlast (pr_consts p) @ [c]\<rparr>"

definition rescope :: "t_const \<Rightarrow> string \<Rightarrow> t_scope \<Rightarrow> t_scope outcome" where
  "rescope c name sc = Ok (sc\<lparr>sc_constants := smap_set name (Some c) (sc_constants sc)\<rparr>)"

definition document_definition :: "string option \<Rightarrow> defined \<Rightarrow> unit yy" where
  "document_definition d x =
     (case x of
        Defined_nothing \<Rightarrow> returnA ()
      | Defined_type a \<Rightarrow>
          (if d = None then returnA ()
           else bindA (yy_type a) (\<lambda>t.
                bindA (document d (t_doc.truncate (type_part t))) (\<lambda>doc. set_type a (with_doc doc t))))
      | Defined_const c \<Rightarrow>
          (if d = None then returnA ()
           else bindA (document d c) (\<lambda>c.
                in_program (seqA (on_program (redocument c)) (in_scopes (rescope c) (co_name c))))))"

primrec DefinitionList :: "nat \<Rightarrow> yy_env \<Rightarrow> unit yy" where
  "DefinitionList 0 = (\<lambda>_. out_of_fuel)"
| "DefinitionList (Suc n) = (\<lambda>env.
     bindA peek (\<lambda>t.
       if t = End_of_input then returnA ()
       else
         bindA CaptureDocText (\<lambda>d.
         bindA (Definition env n) (\<lambda>x.
           seqA (document_definition d x) (DefinitionList n env)))))"

section \<open>Headers\<close>

definition declare_program_doctext :: "unit yy" where
  "declare_program_doctext = on_doc declare_valid_program_doctext"

definition header_namespace :: "yy_env \<Rightarrow> string \<Rightarrow> string \<Rightarrow> unit yy" where
  "header_namespace env language name =
     seqA declare_program_doctext
      (in_program (on_program (\<lambda>p. snd (set_namespace (ye_gens env) language name p))))"

text \<open>The older headers, each for one language; that for XML Schema declares a namespace of another language.\<close>

definition namespace_header :: "keyword \<Rightarrow> string option" where
  "namespace_header k =
     (case k of
        tok_cpp_namespace \<Rightarrow> Some ''cpp''
      | tok_php_namespace \<Rightarrow> Some ''php''
      | tok_py_module \<Rightarrow> Some ''py''
      | tok_perl_package \<Rightarrow> Some ''perl''
      | tok_ruby_namespace \<Rightarrow> Some ''rb''
      | tok_smalltalk_prefix \<Rightarrow> Some ''smalltalk.prefix''
      | tok_java_package \<Rightarrow> Some ''java''
      | tok_cocoa_prefix \<Rightarrow> Some ''cocoa''
      | tok_csharp_namespace \<Rightarrow> Some ''csharp''
      | tok_delphi_namespace \<Rightarrow> Some ''delphi''
      | _ \<Rightarrow> None)"

definition expect_st_identifier :: "string yy" where
  "expect_st_identifier =
     bindA peek (\<lambda>t. case t of tok_st_identifier name \<Rightarrow> seqA shift (returnA name) | _ \<Rightarrow> syntax_error)"

definition header_starts :: "token \<Rightarrow> bool" where
  "header_starts t =
     (case t of
        Kw k \<Rightarrow> k \<in> {tok_include, tok_namespace, tok_cpp_include, tok_smalltalk_category, tok_xsd_namespace} \<or>
                namespace_header k \<noteq> None
      | _ \<Rightarrow> False)"

definition Header :: "yy_env \<Rightarrow> unit yy" where
  "Header env =
     bindA peek (\<lambda>t.
       (case t of
          Kw tok_include \<Rightarrow>
            seqA shift (bindA expect_literal (\<lambda>lit. on_compiler (include_header (ye_parse env) lit)))
        | Kw tok_namespace \<Rightarrow>
            seqA shift
             (bindA peek (\<lambda>t.
               (case t of
                  tok_identifier language \<Rightarrow> seqA shift (bindA expect_identifier (header_namespace env language))
                | Sym c \<Rightarrow>
                    (if c = CHR ''*'' then seqA shift (bindA expect_identifier (header_namespace env ''*''))
                     else syntax_error)
                | _ \<Rightarrow> syntax_error)))
        | Kw tok_cpp_include \<Rightarrow>
            seqA shift
             (bindA expect_literal (\<lambda>lit.
               seqA declare_program_doctext (in_program (on_program (add_cpp_include lit)))))
        | Kw tok_smalltalk_category \<Rightarrow>
            seqA shift (bindA expect_st_identifier (header_namespace env ''smalltalk.category''))
        | Kw tok_xsd_namespace \<Rightarrow> seqA shift (bindA expect_literal (header_namespace env ''cocoa''))
        | Kw k \<Rightarrow>
            (case namespace_header k of
               None \<Rightarrow> syntax_error
             | Some language \<Rightarrow> seqA shift (bindA expect_identifier (header_namespace env language)))
        | _ \<Rightarrow> syntax_error))"

text \<open>Each header is preceded by \<^verbatim>\<open>DestroyDocText\<close>.\<close>

primrec HeaderList :: "nat \<Rightarrow> yy_env \<Rightarrow> unit yy" where
  "HeaderList 0 = (\<lambda>_. out_of_fuel)"
| "HeaderList (Suc n) = (\<lambda>env.
     bindA peek (\<lambda>t.
       if header_starts t then seqA (in_program (on_doc clear_doctext)) (seqA (Header env) (HeaderList n env))
       else returnA ()))"

section \<open>Files\<close>

definition finish_program :: "unit yy" where
  "finish_program =
     bindA yy_program (\<lambda>pa.
     bindA (getsO (\<lambda>s. deref (h_programs (yy_heap s) pa))) (\<lambda>p.
     bindA (gets (\<lambda>s. fst (finish_program_doc p (c_doc (yy_compiler s))))) (\<lambda>q.
       seqA (on_doc (\<lambda>g. snd (finish_program_doc p g))) (change_program pa (\<lambda>_. q)))))"

definition Program :: "nat \<Rightarrow> yy_env \<Rightarrow> unit yy" where
  "Program n env = seqA (HeaderList n env) (seqA (DefinitionList n env) finish_program)"

text \<open>
  A run of the parser over the lexemes of a file. The globals for automatic numbers are set before they are used and
  the flag for argument lists is down between files, so that a run may start with their first values.
\<close>

definition yy_start :: "lexeme list \<Rightarrow> compiler \<Rightarrow> yy_state" where
  "yy_start ls c =
     \<lparr>yy_compiler = c, yy_input = ls, yy_char = None, y_field_val = - 1, y_enum_val = - 1, g_arglist = False,
      yy_failed = False\<rparr>"

definition yyparse :: "yy_env \<Rightarrow> nat \<Rightarrow> lexeme list \<Rightarrow> (compiler, int) action" where
  "yyparse env n ls c =
     (case Program n env (yy_start ls c) of
        (Ok _, s) \<Rightarrow> (Ok 0, yy_compiler s)
      | (Throw e, s) \<Rightarrow> ((if yy_failed s then Ok 1 else Throw e), yy_compiler s)
      | (Exit e, s) \<Rightarrow> (Exit e, yy_compiler s)
      | (Undefined, s) \<Rightarrow> (Undefined, yy_compiler s)
      | (Out_of_fuel, s) \<Rightarrow> (Out_of_fuel, yy_compiler s))"

end
