(* ===== verification/Passes.thy ===== *)
theory Passes
  imports Grammar_Definitions
begin

text \<open>
  What the two passes of the parser leave alone, and why they end. Both passes run the same grammar; what differs
  is which of its actions change programs. A locale states what a relation between the states of the compiler needs
  for every nonterminal to keep it, together with the bound of tokens that pays for the recursion; it is interpreted
  for the relation of the first pass and for that of the second.
\<close>

section \<open>Actions on the heap that leave the programs alone\<close>

definition calm :: "(heap, 'a) action \<Rightarrow> bool" where
  "calm m \<longleftrightarrow> (\<forall>h. fst (m h) \<noteq> Out_of_fuel \<and> h_programs (snd (m h)) = h_programs h \<and> h_next h \<le> h_next (snd (m h)))"

lemma calm_bind: "calm m \<Longrightarrow> (\<And>x. calm (f x)) \<Longrightarrow> calm (bindA m f)"
proof (unfold calm_def, intro allI)
  fix h assume m: "\<forall>h. fst (m h) \<noteq> Out_of_fuel \<and> h_programs (snd (m h)) = h_programs h \<and> h_next h \<le> h_next (snd (m h))"
    and f: "\<And>x. \<forall>h. fst (f x h) \<noteq> Out_of_fuel \<and> h_programs (snd (f x h)) = h_programs h \<and> h_next h \<le> h_next (snd (f x h))"
  obtain out h' where "m h = (out, h')" by fastforce
  with m have "out \<noteq> Out_of_fuel" "h_programs h' = h_programs h" "h_next h \<le> h_next h'" by (metis fst_conv snd_conv)+
  with f \<open>m h = (out, h')\<close> show "fst (bindA m f h) \<noteq> Out_of_fuel \<and>
      h_programs (snd (bindA m f h)) = h_programs h \<and> h_next h \<le> h_next (snd (bindA m f h))"
    by (cases out) (auto simp: bindA_def intro: order_trans)
qed

lemma calm_seq: "calm m \<Longrightarrow> calm n \<Longrightarrow> calm (seqA m n)"
  by (simp add: seqA_def calm_bind)

lemma calm_pure: "calm (returnA x)" "calm (throwA e)" "calm (exitA e)" "calm (gets f)"
  by (simp_all add: calm_def action_simps)

lemma calm_getsO: "(\<And>h. g h \<noteq> Out_of_fuel) \<Longrightarrow> calm (getsO g)"
  by (simp add: calm_def getsO_def)

lemma calm_modify: "(\<And>h. h_programs (g h) = h_programs h \<and> h_next h \<le> h_next (g h)) \<Longrightarrow> calm (modify g)"
  by (simp add: calm_def modify_def)

lemma calm_when: "(b \<Longrightarrow> calm m) \<Longrightarrow> calm (whenA b m)"
  by (simp add: whenA_def calm_pure)

lemma calm_if: "(b \<Longrightarrow> calm m) \<Longrightarrow> (\<not> b \<Longrightarrow> calm n) \<Longrightarrow> calm (if b then m else n)"
  by simp

lemma calm_for_each: "(\<And>x. calm (f x)) \<Longrightarrow> calm (for_each xs f)"
  by (induction xs) (auto intro: calm_seq calm_pure)

lemma returns_bind:
  "bind_outcome m f = Out_of_fuel \<longleftrightarrow> m = Out_of_fuel \<or> (\<exists>x. m = Ok x \<and> f x = Out_of_fuel)"
  by (cases m) auto

lemma returns_deref: "deref p \<noteq> Out_of_fuel"
  by (cases p) auto

lemma returns_get_struct: "get_struct sa h \<noteq> Out_of_fuel"
  by (auto simp: get_struct_def split: option.splits t_type_obj.splits)

lemma returns_read_fields: "read_fields h fas \<noteq> Out_of_fuel"
  by (induction fas) (auto simp: returns_bind returns_deref)

lemma returns_find_field: "find_field_by_name h fas name \<noteq> Out_of_fuel"
  by (induction fas) (auto simp: returns_bind returns_deref)

lemma returns_get_field_by_name: "get_field_by_name sa name h \<noteq> Out_of_fuel"
  by (auto simp: get_field_by_name_def returns_bind returns_get_struct returns_find_field)

lemmas calm_rules = calm_bind calm_seq calm_pure calm_getsO calm_modify calm_when calm_if calm_for_each
  returns_deref returns_get_struct returns_read_fields returns_get_field_by_name

lemma calm_validate_union_member: "calm (validate_union_member sa fa)"
  unfolding validate_union_member_def Let_def by (intro calm_rules) (auto simp: put_struct_def)

lemma calm_validate_union_members: "calm (validate_union_members sa)"
  unfolding validate_union_members_def by (intro calm_rules calm_validate_union_member) (auto simp: put_struct_def)

lemma calm_struct:
  "calm (struct_set_name sa name)" "calm (set_union sa b)" "calm (set_xception sa b)" "calm (set_xsd_all sa b)"
  unfolding struct_set_name_def set_union_def set_xception_def set_xsd_all_def
  by (intro calm_rules calm_validate_union_members; simp add: put_struct_def)+

lemma calm_struct_append: "calm (struct_append sa fa)"
  unfolding struct_append_def Let_def
  by (intro calm_rules calm_validate_union_member) (auto simp: put_struct_def)

section \<open>Tokens and the judgement\<close>

definition tokens :: "yy_state \<Rightarrow> nat" where
  "tokens s = length (yy_input s) + (if yy_char s = None \<or> yy_char s = Some End_of_input then 0 else 1)"

text \<open>
  In the given pass and with at most \<open>k\<close> tokens left, an action keeps the relation and takes at least \<open>b\<close> tokens
  when it returns; in the first pass it does not run out of fuel.
\<close>

definition keeps_pass ::
  "parse_mode \<Rightarrow> (compiler \<Rightarrow> compiler \<Rightarrow> bool) \<Rightarrow> nat \<Rightarrow> 'a yy \<Rightarrow> yy_state \<Rightarrow> bool"
where
  "keeps_pass mode R b m s \<longleftrightarrow>
     (case m s of (out, s') \<Rightarrow>
        (mode = INCLUDES \<longrightarrow> out \<noteq> Out_of_fuel) \<and> g_parse_mode (yy_compiler s') = mode \<and>
        R (yy_compiler s) (yy_compiler s') \<and> (\<forall>x. out = Ok x \<longrightarrow> tokens s' + b \<le> tokens s))"

lemma keeps_pass_cong: "m s = m' s \<Longrightarrow> keeps_pass mode R b m s = keeps_pass mode R b m' s"
  by (simp add: keeps_pass_def)

definition runs :: "parse_mode \<Rightarrow> (compiler \<Rightarrow> compiler \<Rightarrow> bool) \<Rightarrow> nat \<Rightarrow> nat \<Rightarrow> 'a yy \<Rightarrow> bool" where
  "runs mode R k b m \<longleftrightarrow>
     (\<forall>s. g_parse_mode (yy_compiler s) = mode \<longrightarrow> tokens s \<le> k \<longrightarrow> keeps_pass mode R b m s)"

text \<open>The same with the given lookahead token.\<close>

definition runs_at :: "parse_mode \<Rightarrow> (compiler \<Rightarrow> compiler \<Rightarrow> bool) \<Rightarrow> token \<Rightarrow> nat \<Rightarrow> nat \<Rightarrow> 'a yy \<Rightarrow> bool" where
  "runs_at mode R t k b m \<longleftrightarrow>
     (\<forall>s. g_parse_mode (yy_compiler s) = mode \<longrightarrow> tokens s \<le> k \<longrightarrow> yy_char s = Some t \<longrightarrow> keeps_pass mode R b m s)"

locale pass =
  fixes mode :: parse_mode and R :: "compiler \<Rightarrow> compiler \<Rightarrow> bool"
  assumes same: "R c c"
    and trans: "R c d \<Longrightarrow> R d e \<Longrightarrow> R c e"
    and documents: "R c (c\<lparr>c_doc := g\<rparr>)"
    and objects: "h_programs h = h_programs (c_heap c) \<Longrightarrow> h_next (c_heap c) \<le> h_next h \<Longrightarrow> R c (c\<lparr>c_heap := h\<rparr>)"
    and program_doc: "g_program c = Some pa \<Longrightarrow> h_programs (c_heap c) pa = Some p \<Longrightarrow>
      R c (c\<lparr>c_heap := put_program pa (p\<lparr>doc := x, has_doc := b\<rparr>) (c_heap c)\<rparr>)"
    and second: "mode = PROGRAM \<Longrightarrow> h_programs (c_heap c) pa = Some p \<Longrightarrow> pr_path q = pr_path p \<Longrightarrow>
      pr_includes q = pr_includes p \<Longrightarrow> R c (c\<lparr>c_heap := put_program pa q (c_heap c)\<rparr>)"
    and first: "mode = INCLUDES \<Longrightarrow> g_program c = Some pa \<Longrightarrow> R c (snd (on_heap (add_include pa path site) c))"
begin

lemma runs_bind:
  assumes m: "runs mode R k a m" and f: "\<And>x. a \<le> k \<Longrightarrow> runs mode R (k - a) (b - a) (f x)"
  shows "runs mode R k b (bindA m f)"
  unfolding runs_def
proof (intro allI impI)
  fix s assume s: "g_parse_mode (yy_compiler s) = mode" "tokens s \<le> k"
  obtain out s' where ms: "m s = (out, s')" by fastforce
  with m s have m': "mode = INCLUDES \<longrightarrow> out \<noteq> Out_of_fuel" "g_parse_mode (yy_compiler s') = mode"
      "R (yy_compiler s) (yy_compiler s')" "\<And>x. out = Ok x \<Longrightarrow> tokens s' + a \<le> tokens s"
    by (auto simp: runs_def keeps_pass_def)
  show "keeps_pass mode R b (bindA m f) s"
  proof (cases out)
    case (Ok x)
    with m' s have le: "tokens s' + a \<le> tokens s" "tokens s' \<le> k - a" "a \<le> k" by fastforce+
    with f [of x] m'(2) have "keeps_pass mode R (b - a) (f x) s'" by (simp add: runs_def)
    with le m'(3) ms Ok show ?thesis
      unfolding keeps_pass_def by (auto split: prod.splits intro: trans)
  qed (use ms m' in \<open>auto simp: keeps_pass_def bindA_def\<close>)
qed

lemma runs_seq: "runs mode R k a m \<Longrightarrow> (a \<le> k \<Longrightarrow> runs mode R (k - a) (b - a) n) \<Longrightarrow> runs mode R k b (seqA m n)"
  unfolding seqA_def by (rule runs_bind)

lemma runs_at_bind:
  assumes m: "runs_at mode R t k a m" and f: "\<And>x. a \<le> k \<Longrightarrow> runs mode R (k - a) (b - a) (f x)"
  shows "runs_at mode R t k b (bindA m f)"
  unfolding runs_at_def
proof (intro allI impI)
  fix s assume s: "g_parse_mode (yy_compiler s) = mode" "tokens s \<le> k" "yy_char s = Some t"
  let ?m = "\<lambda>u. if u = s then m s else (Exit [], u)"
  have "runs mode R k a ?m"
    using m s unfolding runs_at_def runs_def keeps_pass_def by (auto simp: same)
  from this f have "runs mode R k b (bindA ?m f)" by (rule runs_bind)
  moreover have "bindA ?m f s = bindA m f s" by (simp add: bindA_def)
  ultimately show "keeps_pass mode R b (bindA m f) s" using s keeps_pass_cong by (metis runs_def)
qed

lemma runs_pure:
  "b \<le> 0 \<Longrightarrow> runs mode R k b (returnA x)" "runs mode R k b (throwA e)" "runs mode R k b (exitA e)"
  "b \<le> 0 \<Longrightarrow> runs mode R k b (gets f)"
  by (simp_all add: runs_def keeps_pass_def action_simps same)

lemma runs_errors:
  "runs mode R k b syntax_error" "runs mode R k b (yyerror_exit e)" "runs mode R k b (failure e)"
  "runs mode R k b (getsO (\<lambda>_. Undefined))"
  by (simp_all add: runs_def keeps_pass_def action_simps same syntax_error_def yyerror_exit_def failure_def)

lemma runs_getsO: "(\<And>s. mode = INCLUDES \<Longrightarrow> g s \<noteq> Out_of_fuel) \<Longrightarrow> b \<le> 0 \<Longrightarrow> runs mode R k b (getsO g)"
  by (simp add: runs_def keeps_pass_def getsO_def same)

lemma runs_modify:
  "(\<And>s. yy_compiler (g s) = yy_compiler s \<and> yy_input (g s) = yy_input s \<and> yy_char (g s) = yy_char s) \<Longrightarrow> b \<le> 0 \<Longrightarrow>
     runs mode R k b (modify g)"
  by (simp add: runs_def keeps_pass_def modify_def same tokens_def)

lemma runs_mode: "runs mode R k b (f mode) \<Longrightarrow> runs mode R k b (bindA yy_mode f)"
  by (simp add: runs_def keeps_pass_def yy_mode_def bindA_def gets_def)

lemma runs_in_program: "(mode = PROGRAM \<Longrightarrow> runs mode R k b m) \<Longrightarrow> b \<le> 0 \<Longrightarrow> runs mode R k b (in_program m)"
  unfolding in_program_def by (rule runs_mode) (simp add: whenA_def runs_pure)

lemma runs_when: "(c \<Longrightarrow> runs mode R k b m) \<Longrightarrow> b \<le> 0 \<Longrightarrow> runs mode R k b (whenA c m)"
  by (simp add: whenA_def runs_pure)

lemma runs_if:
  "(c \<Longrightarrow> runs mode R k b m) \<Longrightarrow> (\<not> c \<Longrightarrow> runs mode R k b n) \<Longrightarrow> runs mode R k b (if c then m else n)"
  "(c \<Longrightarrow> runs_at mode R t k b m) \<Longrightarrow> (\<not> c \<Longrightarrow> runs_at mode R t k b n) \<Longrightarrow> runs_at mode R t k b (if c then m else n)"
  by simp_all

lemma runs_option:
  "(p = None \<Longrightarrow> runs mode R k b m) \<Longrightarrow> (\<And>x. p = Some x \<Longrightarrow> runs mode R k b (f x)) \<Longrightarrow>
     runs mode R k b (case p of None \<Rightarrow> m | Some x \<Rightarrow> f x)"
  "(p = None \<Longrightarrow> runs_at mode R t k b m) \<Longrightarrow> (\<And>x. p = Some x \<Longrightarrow> runs_at mode R t k b (f x)) \<Longrightarrow>
     runs_at mode R t k b (case p of None \<Rightarrow> m | Some x \<Rightarrow> f x)"
  by (cases p; auto)+

lemma keeps_pass_weaken: "keeps_pass mode R a m s \<Longrightarrow> b \<le> a \<Longrightarrow> keeps_pass mode R b m s"
  by (cases "m s"; cases "fst (m s)") (auto simp: keeps_pass_def)

lemma runs_weaken: "runs mode R k a m \<Longrightarrow> b \<le> a \<Longrightarrow> runs mode R k b m"
  unfolding runs_def using keeps_pass_weaken by blast

lemma runs_prod: "(\<And>x y. p = (x, y) \<Longrightarrow> runs mode R k b (f x y)) \<Longrightarrow> runs mode R k b (case p of (x, y) \<Rightarrow> f x y)"
  by (cases p) auto

lemma runs_for_each: "(\<And>x. runs mode R k 0 (f x)) \<Longrightarrow> b \<le> 0 \<Longrightarrow> runs mode R k b (for_each xs f)"
proof (induction xs arbitrary: b)
  case (Cons x xs)
  have "runs mode R k 0 (seqA (f x) (for_each xs f))"
    by (rule runs_seq [of _ 0]) (use Cons in auto)
  with Cons.prems show ?case by simp
qed (simp add: runs_pure)

lemma fetch_tokens:
  "fetch m ls g = (out, ls', g') \<Longrightarrow> out \<noteq> Out_of_fuel \<and> length ls' \<le> length ls \<and>
     (\<forall>t. out = Ok t \<longrightarrow> t \<noteq> End_of_input \<longrightarrow> length ls' < length ls)"
  by (induction m ls g rule: fetch.induct) (force split: if_splits outcome.splits prod.splits)+

lemma runs_peek:
  assumes f: "\<And>t. runs_at mode R t k b (f t)"
  shows "runs mode R k b (bindA peek f)"
  unfolding runs_def
proof (intro allI impI)
  fix s assume s: "g_parse_mode (yy_compiler s) = mode" "tokens s \<le> k"
  show "keeps_pass mode R b (bindA peek f) s"
  proof (cases "yy_char s")
    case (Some t)
    then have "bindA peek f s = f t s" by (simp add: peek_def bindA_def)
    with f [of t] s Some show ?thesis by (simp add: runs_at_def keeps_pass_def)
  next
    case None
    obtain out ls g where r: "fetch (g_parse_mode (yy_compiler s)) (yy_input s) (c_doc (yy_compiler s)) = (out, ls, g)"
      by (metis prod_cases3)
    let ?s = "s\<lparr>yy_input := ls, yy_compiler := (yy_compiler s)\<lparr>c_doc := g\<rparr>, yy_char := (case out of Ok t \<Rightarrow> Some t | _ \<Rightarrow> None)\<rparr>"
    have p: "peek s = (out, ?s)" using None r by (simp add: peek_def)
    have le: "tokens ?s \<le> tokens s"
      using fetch_tokens [OF r] None by (auto simp: tokens_def split: outcome.splits)
    show ?thesis
    proof (cases out)
      case (Ok t)
      have "keeps_pass mode R b (f t) ?s"
        using f [of t] s le Ok by (simp add: runs_at_def)
      then show ?thesis
        using p Ok le unfolding keeps_pass_def
        by (auto split: prod.splits intro: trans [OF documents])
    qed (use p fetch_tokens [OF r] s in \<open>auto simp: keeps_pass_def bindA_def documents\<close>)
  qed
qed

lemma runs_at_peek: "runs_at mode R t k b (f t) \<Longrightarrow> runs_at mode R t k b (bindA peek f)"
  by (simp add: runs_at_def keeps_pass_def peek_def bindA_def)

lemma runs_at_of: "runs mode R k b m \<Longrightarrow> runs_at mode R t k b m"
  by (simp add: runs_at_def runs_def)

lemma runs_shift: "t \<noteq> End_of_input \<Longrightarrow> b \<le> 1 \<Longrightarrow> runs_at mode R t k b shift"
  by (simp add: runs_at_def keeps_pass_def shift_def modify_def tokens_def same)

lemma runs_shift_then:
  assumes "t \<noteq> End_of_input" "1 \<le> k \<Longrightarrow> runs mode R (k - 1) (b - 1) m"
  shows "runs_at mode R t k b (seqA shift m)"
proof (cases "1 \<le> k")
  case True
  with runs_at_bind [OF runs_shift assms(2)] assms(1) show ?thesis by (simp add: seqA_def)
next
  case False
  with assms(1) show ?thesis by (simp add: runs_at_def tokens_def)
qed

text \<open>The accesses to the compiler and the tokens.\<close>

lemma runs_calm: "calm m \<Longrightarrow> b \<le> 0 \<Longrightarrow> runs mode R k b (on_yy_heap m)"
proof -
  assume c: "calm m" and b: "b \<le> 0"
  have "keeps_pass mode R 0 (on_yy_heap m) s" if "g_parse_mode (yy_compiler s) = mode" for s
  proof -
    obtain out h where m: "m (c_heap (yy_compiler s)) = (out, h)" by fastforce
    with c have "out \<noteq> Out_of_fuel" "h_programs h = h_programs (c_heap (yy_compiler s))" "h_next (c_heap (yy_compiler s)) \<le> h_next h"
      unfolding calm_def by (metis fst_conv snd_conv)+
    with m that show ?thesis
      by (simp add: keeps_pass_def on_yy_heap_def on_compiler_def on_heap_def objects tokens_def)
  qed
  with b show ?thesis by (simp add: runs_def)
qed

lemma runs_on_doc: "b \<le> 0 \<Longrightarrow> runs mode R k b (on_doc f)"
  by (simp add: runs_def keeps_pass_def on_doc_def on_compiler_def modify_def documents tokens_def)

lemma runs_yy_program: "b \<le> 0 \<Longrightarrow> runs mode R k b yy_program"
  unfolding yy_program_def by (rule runs_getsO) (simp_all add: returns_deref)

lemma runs_yy_scope: "b \<le> 0 \<Longrightarrow> runs mode R k b yy_scope"
  unfolding yy_scope_def by (rule runs_getsO) (simp_all add: returns_deref)

lemma runs_deref: "b \<le> 0 \<Longrightarrow> runs mode R k b (getsO (\<lambda>s. deref (f s)))"
  by (rule runs_getsO) (simp_all add: returns_deref)

lemma runs_yy_type: "b \<le> 0 \<Longrightarrow> runs mode R k b (yy_type a)"
  unfolding yy_type_def by (rule runs_deref)

lemma runs_set_type: "b \<le> 0 \<Longrightarrow> runs mode R k b (set_type a t)"
  unfolding set_type_def by (intro runs_calm calm_modify) simp_all

lemma runs_new:
  "b \<le> 0 \<Longrightarrow> runs mode R k b (new_type t)" "b \<le> 0 \<Longrightarrow> runs mode R k b (new_field_object f)"
  "b \<le> 0 \<Longrightarrow> runs mode R k b new_address"
  unfolding new_type_def new_field_object_def new_address_def
  by (rule runs_calm; simp add: calm_def alloc_type_def alloc_field_def)+

text \<open>The second pass may change a program, but neither its path nor its includes.\<close>

lemma runs_change_program:
  assumes "mode = PROGRAM" "\<And>p. pr_path (f p) = pr_path p \<and> pr_includes (f p) = pr_includes p" "b \<le> 0"
  shows "runs mode R k b (change_program pa f)"
proof -
  have "keeps_pass mode R 0 (change_program pa f) s" if "g_parse_mode (yy_compiler s) = mode" for s
  proof (cases "h_programs (c_heap (yy_compiler s)) pa")
    case (Some p)
    with second [OF assms(1) Some, of "f p"] assms(2) that show ?thesis
      by (simp add: keeps_pass_def change_program_def on_yy_heap_def on_compiler_def on_heap_def bindA_def getsO_def
          modify_def tokens_def)
  qed (use that assms(1) in \<open>simp add: keeps_pass_def change_program_def on_yy_heap_def on_compiler_def on_heap_def
      bindA_def getsO_def tokens_def same\<close>)
  with assms(3) show ?thesis by (simp add: runs_def)
qed

lemma runs_change_scope:
  assumes "mode = PROGRAM" "b \<le> 0"
  shows "runs mode R k b (change_scope pa f)"
proof -
  have "keeps_pass mode R 0 (change_scope pa f) s" if "g_parse_mode (yy_compiler s) = mode" for s
  proof (cases "h_programs (c_heap (yy_compiler s)) pa")
    case (Some p)
    show ?thesis
    proof (cases "f (pr_scope p)")
      case (Ok sc)
      with second [OF assms(1) Some, of "p\<lparr>pr_scope := sc\<rparr>"] that Some show ?thesis
        by (simp add: keeps_pass_def change_scope_def on_yy_heap_def on_compiler_def on_heap_def bindA_def getsO_def
            modify_def tokens_def)
    qed (use that assms(1) Some in \<open>simp_all add: keeps_pass_def change_scope_def on_yy_heap_def on_compiler_def
        on_heap_def bindA_def getsO_def tokens_def same\<close>)
  qed (use that assms(1) in \<open>simp add: keeps_pass_def change_scope_def on_yy_heap_def on_compiler_def on_heap_def
      bindA_def getsO_def tokens_def same\<close>)
  with assms(2) show ?thesis by (simp add: runs_def)
qed

end

end
