(* ===== verification/Nonterminals.thy ===== *)
theory Nonterminals
  imports Passes
begin

text \<open>
  Every nonterminal of the grammar keeps the relation of a pass, and its fuel is enough when it is more than twice
  the number of tokens that are left.
\<close>

section \<open>Types and constants\<close>

context pass
begin

lemmas runs_rules = runs_peek runs_at_peek runs_if runs_option runs_mode runs_in_program runs_when runs_shift_then
  runs_shift runs_bind runs_seq runs_pure runs_errors runs_yy_program runs_yy_scope runs_yy_type runs_set_type runs_new
  runs_on_doc runs_deref runs_for_each runs_prod

lemma runs_expect: "b \<le> 1 \<Longrightarrow> t \<noteq> End_of_input \<Longrightarrow> runs mode R k b (expect t)"
  unfolding expect_def by ((rule runs_rules runs_at_of | force)+)

lemma runs_token:
  "b \<le> 1 \<Longrightarrow> runs mode R k b expect_identifier" "b \<le> 1 \<Longrightarrow> runs mode R k b expect_literal"
  "b \<le> 1 \<Longrightarrow> runs mode R k b expect_st_identifier"
  unfolding expect_identifier_def expect_literal_def expect_st_identifier_def
  by (rule runs_peek; auto split: token.split intro!: runs_shift_then runs_pure runs_at_of [OF runs_errors(1)])+

lemma runs_optional_token: "b \<le> 0 \<Longrightarrow> t \<noteq> End_of_input \<Longrightarrow> runs mode R k b (optional_token t)"
  unfolding optional_token_def by ((rule runs_rules runs_at_of | force)+)

lemma runs_CommaOrSemicolonOptional: "b \<le> 0 \<Longrightarrow> runs mode R k b CommaOrSemicolonOptional"
  unfolding CommaOrSemicolonOptional_def by ((rule runs_rules runs_at_of | force)+)

lemmas token_rules = runs_expect runs_token runs_optional_token runs_CommaOrSemicolonOptional runs_at_of order_refl

lemma runs_TypeAnnotationValue: "b \<le> 0 \<Longrightarrow> runs mode R k b TypeAnnotationValue"
  unfolding TypeAnnotationValue_def by ((rule runs_rules token_rules | force)+)

lemma runs_TypeAnnotation: "b \<le> 1 \<Longrightarrow> runs mode R k b TypeAnnotation"
  unfolding TypeAnnotation_def by ((rule runs_rules runs_TypeAnnotationValue token_rules | force)+)

lemma runs_TypeAnnotationList: "k < n \<Longrightarrow> b \<le> 0 \<Longrightarrow> runs mode R k b (TypeAnnotationList n as)"
proof (induction n arbitrary: k as b)
  case (Suc n)
  show ?case
    by (insert Suc.prems, unfold TypeAnnotationList.simps,
      (rule runs_rules runs_TypeAnnotation Suc.IH token_rules | force)+)
qed simp

lemma runs_TypeAnnotations: "k < n \<Longrightarrow> b \<le> 0 \<Longrightarrow> runs mode R k b (TypeAnnotations n)"
  unfolding TypeAnnotations_def by ((rule runs_rules runs_TypeAnnotationList token_rules | force)+)

lemma runs_annotate: "b \<le> 0 \<Longrightarrow> runs mode R k b (annotate a as)"
  unfolding annotate_def by ((rule runs_rules token_rules | force)+)

lemma runs_CppType: "b \<le> 0 \<Longrightarrow> runs mode R k b CppType"
  unfolding CppType_def by ((rule runs_rules token_rules | force)+)

lemma runs_BaseType: "k \<le> n \<Longrightarrow> b \<le> 1 \<Longrightarrow> t = Kw x \<Longrightarrow> runs_at mode R t k b (BaseType env n x)"
  unfolding BaseType_def by ((rule runs_rules runs_TypeAnnotations token_rules | force)+)

lemma runs_look_up: "mode = PROGRAM \<Longrightarrow> b \<le> 0 \<Longrightarrow> runs mode R k b (look_up get name)"
  unfolding look_up_def by ((rule runs_rules runs_change_scope token_rules | force)+)

lemma runs_identifier_type: "b \<le> 0 \<Longrightarrow> runs mode R k b (identifier_type name)"
  unfolding identifier_type_def
  by ((rule runs_rules runs_look_up token_rules | (cases mode; force))+)

lemma runs_ContainerType:
  "runs_at mode R t k 1 m \<Longrightarrow> k \<le> n \<Longrightarrow> b \<le> 1 \<Longrightarrow> runs_at mode R t k b (ContainerType n m)"
  unfolding ContainerType_def
  by (rule runs_at_bind, assumption) ((rule runs_rules runs_TypeAnnotations runs_annotate token_rules | force)+)

lemma runs_FieldType: "k < n \<Longrightarrow> b \<le> 1 \<Longrightarrow> runs mode R k b (FieldType n env)"
proof (induction n arbitrary: k b)
  case (Suc n)
  show ?case
    unfolding FieldType.simps
  proof (rule runs_peek, goal_cases)
    case (1 t)
    show ?case
    proof (cases t)
      case (Kw x)
      show ?thesis
        unfolding Kw token.case
        by (cases x; simp only: keyword.case; insert Suc.prems;
          (rule runs_rules runs_BaseType runs_ContainerType runs_CppType Suc.IH token_rules | force)+)
    qed (insert Suc.prems, simp_all, (rule runs_rules runs_identifier_type token_rules | force)+)
  qed
qed simp

lemma runs_FunctionType: "k < n \<Longrightarrow> b \<le> 0 \<Longrightarrow> runs mode R k b (FunctionType env n)"
  unfolding FunctionType_def by ((rule runs_rules runs_FieldType token_rules | force)+)

lemma runs_new_value: "b \<le> 0 \<Longrightarrow> runs mode R k b (new_value f)"
  unfolding new_value_def by ((rule runs_rules token_rules | force)+)

lemma runs_Const_values:
  "2 * k < n \<Longrightarrow> b \<le> 1 \<Longrightarrow> runs mode R k b (ConstValue n)"
  "2 * k + 2 \<le> n \<Longrightarrow> b \<le> 0 \<Longrightarrow> runs mode R k b (ConstListContents n v)"
  "2 * k + 2 \<le> n \<Longrightarrow> b \<le> 0 \<Longrightarrow> runs mode R k b (ConstMapContents n v)"
proof (induction n arbitrary: k b v)
  case (Suc n)
  {
    case 1
    note bounds = this
    show ?case
      unfolding ConstValue.simps
    proof (rule runs_peek, goal_cases)
      case (1 t)
      show ?case
        by (cases t; simp only: token.case; insert bounds;
          (rule runs_rules Suc.IH runs_new_value token_rules | force)+)
    qed
  next
    case 2
    show ?case
      by (insert 2, unfold ConstListContents.simps,
        (rule runs_rules Suc.IH token_rules | force)+)
  next
    case 3
    show ?case
      by (insert 3, unfold ConstMapContents.simps,
        (rule runs_rules Suc.IH token_rules | force)+)
  }
qed simp_all

lemma runs_check_name: "b \<le> 0 \<Longrightarrow> runs mode R k b (check_name name)"
  unfolding check_name_def
  by (rule runs_getsO) (auto simp: validate_simple_identifier_def split: option.splits)

lemma runs_yy_resolve: "mode = PROGRAM \<Longrightarrow> b \<le> 0 \<Longrightarrow> runs mode R k b (yy_resolve env v ty)"
  unfolding yy_resolve_def by ((rule runs_rules runs_getsO token_rules | force)+)

lemma runs_in_scopes: "mode = PROGRAM \<Longrightarrow> b \<le> 0 \<Longrightarrow> runs mode R k b (in_scopes f name)"
  unfolding in_scopes_def by ((rule runs_rules runs_change_scope token_rules | force)+)

lemma runs_enter_constant: "mode = PROGRAM \<Longrightarrow> b \<le> 0 \<Longrightarrow> runs mode R k b (enter_constant env ty name v)"
  unfolding enter_constant_def Let_def
  by ((rule runs_rules runs_check_name runs_yy_resolve runs_in_scopes runs_getsO token_rules | force)+)

lemma runs_Const: "2 * k \<le> n \<Longrightarrow> b \<le> 1 \<Longrightarrow> t \<noteq> End_of_input \<Longrightarrow> runs_at mode R t k b (Const env n)"
  unfolding Const_def
  by ((rule runs_rules runs_FieldType runs_Const_values runs_enter_constant token_rules | (cases mode; force))+)

end

section \<open>Enumerations and typedefs\<close>

context pass
begin

lemma runs_int_constant:
  "(\<And>i. t = tok_int_constant i \<Longrightarrow> runs_at mode R t k b (f i)) \<Longrightarrow> runs_at mode R t k b m \<Longrightarrow>
     runs_at mode R t k b (case t of tok_int_constant i \<Rightarrow> f i | _ \<Rightarrow> m)"
  by (cases t) auto

lemma runs_EnumValue: "b \<le> 1 \<Longrightarrow> runs mode R k b EnumValue"
  unfolding EnumValue_def
  by ((rule runs_int_constant runs_rules runs_check_name runs_modify token_rules | force)+)

lemma runs_CaptureDocText: "b \<le> 0 \<Longrightarrow> runs mode R k b CaptureDocText"
  unfolding CaptureDocText_def by ((rule runs_rules token_rules | force)+)

lemma runs_document: "b \<le> 0 \<Longrightarrow> runs mode R k b (document d x)"
  unfolding document_def by ((rule runs_rules token_rules | force)+)

lemma runs_EnumDef: "k \<le> n \<Longrightarrow> b \<le> 1 \<Longrightarrow> runs mode R k b (EnumDef n)"
  unfolding EnumDef_def
  by ((rule runs_rules runs_CaptureDocText runs_EnumValue runs_TypeAnnotations runs_document token_rules | force)+)

lemma runs_object:
  "(\<And>t. runs mode R k b (f t)) \<Longrightarrow> runs mode R k b (bindA (yy_type a) f)"
  by (rule runs_bind [of _ 0]) (simp_all add: runs_yy_type)

lemma runs_append_enum_value: "b \<le> 0 \<Longrightarrow> runs mode R k b (append_enum_value ea v)"
  unfolding append_enum_value_def
  by (rule runs_object) (auto split: t_type_obj.split intro: runs_set_type runs_errors)

lemma runs_EnumDefList: "k < n \<Longrightarrow> b \<le> 0 \<Longrightarrow> runs mode R k b (EnumDefList n ea)"
proof (induction n arbitrary: k b)
  case (Suc n)
  show ?case
    by (insert Suc.prems, unfold EnumDefList.simps,
      (rule runs_rules runs_EnumDef runs_append_enum_value Suc.IH token_rules | force)+)
qed simp

lemma runs_enum_constant: "mode = PROGRAM \<Longrightarrow> b \<le> 0 \<Longrightarrow> runs mode R k b (enum_constant env ea name v)"
  unfolding enum_constant_def by ((rule runs_rules runs_in_scopes token_rules | force)+)

lemma runs_with_name: "b \<le> 0 \<Longrightarrow> runs mode R k b (with_name a name)"
  unfolding with_name_def by (rule runs_object) (auto split: t_type_obj.split intro: runs_set_type runs_errors)

lemma runs_enum_values: "b \<le> 0 \<Longrightarrow> runs mode R k b (enum_values ea)"
  unfolding enum_values_def by (rule runs_object) (auto split: t_type_obj.split intro: runs_pure runs_errors)

lemma runs_Enum_definition:
  "k \<le> n \<Longrightarrow> b \<le> 1 \<Longrightarrow> t \<noteq> End_of_input \<Longrightarrow> runs_at mode R t k b (Enum_definition env n)"
  unfolding Enum_definition_def
  by ((rule runs_rules runs_modify runs_EnumDefList runs_TypeAnnotations runs_check_name runs_with_name runs_annotate
      runs_enum_values runs_enum_constant token_rules | force)+)

lemma runs_new_typedef_object: "b \<le> 0 \<Longrightarrow> runs mode R k b (new_typedef_object ty name as)"
  unfolding new_typedef_object_def by ((rule runs_rules runs_annotate token_rules | force)+)

lemma runs_Typedef_definition:
  "k \<le> n \<Longrightarrow> b \<le> 1 \<Longrightarrow> t \<noteq> End_of_input \<Longrightarrow> runs_at mode R t k b (Typedef_definition env n)"
  unfolding Typedef_definition_def
  by ((rule runs_rules runs_FieldType runs_TypeAnnotations runs_check_name runs_new_typedef_object token_rules | force)+)

lemma runs_SenumDefList: "k < n \<Longrightarrow> b \<le> 0 \<Longrightarrow> runs mode R k b (SenumDefList n ba)"
proof (induction n arbitrary: k b)
  case (Suc n)
  have add: "runs mode R k 0 (bindA (yy_type ba) (\<lambda>t.
      case t of Base_type b \<Rightarrow> set_type ba (Base_type (add_string_enum_val lit b)) | _ \<Rightarrow> getsO (\<lambda>_. Undefined)))" for k lit
    by (rule runs_object) (auto split: t_type_obj.split intro: runs_set_type runs_errors)
  show ?case
    by (insert Suc.prems, unfold SenumDefList.simps, (rule add runs_rules Suc.IH token_rules | force)+)
qed simp

lemma runs_Senum: "k \<le> n \<Longrightarrow> b \<le> 1 \<Longrightarrow> t \<noteq> End_of_input \<Longrightarrow> runs_at mode R t k b (Senum n)"
  unfolding Senum_def
  by ((rule runs_rules runs_SenumDefList runs_TypeAnnotations runs_check_name runs_new_typedef_object token_rules | force)+)

end

end
