(* ===== verification/File_Nonterminals.thy ===== *)
theory File_Nonterminals
  imports Nonterminals
begin

text \<open>
  The nonterminals of \<open>Grammar_Definitions\<close> in a pass: fields, structs, functions, services, definitions and headers, up to
  the parser as a whole, keep the relation of the pass.
\<close>

lemma finish_program_doc_only: "\<exists>x b. fst (finish_program_doc p g) = p\<lparr>doc := x, has_doc := b\<rparr>"
proof -
  have "\<exists>x b. p = p\<lparr>doc := x, has_doc := b\<rparr>" by (intro exI [of _ "doc p"] exI [of _ "has_doc p"]) simp
  then show ?thesis
    by (auto simp: finish_program_doc_def set_doc_def Let_def split: option.split prod.split)
qed

section \<open>Fields, structs and services\<close>

context pass
begin

lemma runs_auto_field_key: "b \<le> 0 \<Longrightarrow> runs mode R k b auto_field_key"
  unfolding auto_field_key_def by ((rule runs_rules runs_modify token_rules | force)+)

lemma runs_FieldIdentifier: "b \<le> 0 \<Longrightarrow> runs mode R k b (FieldIdentifier env)"
  unfolding FieldIdentifier_def
  by ((rule runs_int_constant runs_rules runs_auto_field_key runs_modify token_rules | force)+)

lemma runs_FieldRequiredness: "b \<le> 0 \<Longrightarrow> runs mode R k b FieldRequiredness"
  unfolding FieldRequiredness_def by ((rule runs_rules token_rules | force)+)

text \<open>The first pass drops the default value of a field.\<close>

lemma runs_FieldValue:
  assumes "2 * k < n" and f: "\<And>v. mode = PROGRAM \<or> v = None \<Longrightarrow> runs mode R k b (f v)"
  shows "runs mode R k b (bindA (FieldValue n) f)"
proof -
  have v: "runs mode R k b (f (if mode = PROGRAM then Some v else None))" for v
    by (rule f) simp
  have c: "runs mode R k b (bindA (ConstValue n) (\<lambda>v. bindA yy_mode (\<lambda>mode. f (if mode = PROGRAM then Some v else None))))"
    by (rule runs_bind [of _ 0], intro runs_Const_values) (use assms(1) v in \<open>auto intro: runs_mode\<close>)
  show ?thesis
    unfolding FieldValue_def bindA_assoc
    by (rule runs_bind [of _ 0], intro runs_optional_token) (use c in \<open>auto simp: bindA_assoc run_bind_return intro: f\<close>)
qed

lemma runs_new_field_list: "b \<le> 0 \<Longrightarrow> runs mode R k b new_field_list"
  unfolding new_field_list_def by ((rule runs_rules runs_modify token_rules | force)+)

lemma runs_append_field: "b \<le> 0 \<Longrightarrow> runs mode R k b (append_field sa fa)"
  unfolding append_field_def by ((rule runs_rules runs_calm calm_struct_append token_rules | force)+)

lemma runs_check_field_key: "b \<le> 0 \<Longrightarrow> runs mode R k b (check_field_key env auto)"
  unfolding check_field_key_def by ((rule runs_rules token_rules | force)+)

lemma runs_field_default: "mode = PROGRAM \<or> v = None \<Longrightarrow> b \<le> 0 \<Longrightarrow> runs mode R k b (field_default env f v)"
  unfolding field_default_def by ((rule runs_rules runs_yy_resolve runs_getsO token_rules | force)+)

lemma runs_build_field:
  "mode = PROGRAM \<or> v = None \<Longrightarrow> b \<le> 0 \<Longrightarrow>
     runs mode R k b (build_field env d ident req ty reference name v opt nil attrs as)"
  unfolding build_field_def
  by ((rule runs_rules runs_check_field_key runs_check_name runs_field_default runs_document token_rules | force)+)

lemma runs_Field:
  "2 * k + 2 \<le> n \<Longrightarrow> b \<le> 1 \<Longrightarrow> runs mode R k b (Field n env)"
  "2 * k + 3 \<le> n \<Longrightarrow> b \<le> 0 \<Longrightarrow> runs mode R k b (Fields n env sa)"
proof (induction n arbitrary: k b sa)
  case (Suc n)
  {
    case 1
    have attrs: "runs mode R k 0
        (if c then seqA (expect (Sym (CHR ''{'')))
                  (bindA new_field_list (\<lambda>sa. seqA (Fields n env sa) (seqA (expect (Sym (CHR ''}''))) (returnA (Some sa)))))
         else returnA None)" if "2 * k + 3 \<le> n" for k c
      by (insert that, (rule runs_rules runs_new_field_list Suc.IH token_rules | force)+)
    show ?case
      by (insert 1, unfold Field.simps,
        (rule runs_peek runs_FieldValue runs_bind runs_seq attrs runs_CaptureDocText runs_FieldIdentifier runs_FieldRequiredness
          runs_FieldType runs_TypeAnnotations runs_build_field token_rules | force)+)
  next
    case 2
    show ?case
      by (insert 2, unfold Fields.simps, (rule runs_rules runs_append_field Suc.IH token_rules | force)+)
  }
qed simp_all

lemma runs_FieldList: "2 * k + 3 \<le> n \<Longrightarrow> b \<le> 0 \<Longrightarrow> runs mode R k b (FieldList n env)"
  unfolding FieldList_def by ((rule runs_rules runs_new_field_list runs_Field token_rules | force)+)

lemma runs_Struct_definition:
  "2 * k + 1 \<le> n \<Longrightarrow> b \<le> 1 \<Longrightarrow> t \<noteq> End_of_input \<Longrightarrow> runs_at mode R t k b (Struct_definition env n u)"
  unfolding Struct_definition_def
  by ((rule runs_rules runs_FieldList runs_TypeAnnotations runs_check_name runs_calm calm_struct runs_annotate token_rules | force)+)

lemma runs_Xception: "2 * k + 1 \<le> n \<Longrightarrow> b \<le> 1 \<Longrightarrow> t \<noteq> End_of_input \<Longrightarrow> runs_at mode R t k b (Xception env n)"
  unfolding Xception_def
  by ((rule runs_rules runs_FieldList runs_TypeAnnotations runs_check_name runs_calm calm_struct runs_annotate token_rules | force)+)

lemma runs_Throws: "2 * k + 3 \<le> n \<Longrightarrow> b \<le> 0 \<Longrightarrow> runs mode R k b (Throws env n)"
  unfolding Throws_def by ((rule runs_rules runs_getsO runs_FieldList token_rules | force)+)

lemma returns_new_function: "new_function ty name args xs oneway h \<noteq> Out_of_fuel"
  by (auto simp: new_function_def returns_bind returns_get_struct)

lemma returns_add_function: "add_function f sv \<noteq> Out_of_fuel"
  by (simp add: add_function_def)

lemma runs_build_function: "b \<le> 0 \<Longrightarrow> runs mode R k b (build_function d oneway ty name args xs as)"
  unfolding build_function_def
  by ((rule runs_rules runs_check_name runs_calm calm_struct runs_getsO returns_new_function runs_document token_rules |
      force)+)

lemma runs_Function: "2 * k + 3 \<le> n \<Longrightarrow> b \<le> 1 \<Longrightarrow> runs mode R k b (Function env n)"
  unfolding Function_def
  by ((rule runs_rules runs_CaptureDocText runs_FunctionType runs_FieldList runs_Throws runs_TypeAnnotations
      runs_build_function token_rules | force)+)

lemma runs_yy_service: "b \<le> 0 \<Longrightarrow> runs mode R k b (yy_service a)"
  unfolding yy_service_def by (rule runs_object) (auto split: t_type_obj.split intro: runs_pure runs_errors)

lemma runs_FunctionList: "2 * k + 4 \<le> n \<Longrightarrow> b \<le> 0 \<Longrightarrow> runs mode R k b (FunctionList n env va)"
proof (induction n arbitrary: k b)
  case (Suc n)
  show ?case
    by (insert Suc.prems, unfold FunctionList.simps,
      (rule runs_rules runs_Function runs_yy_service runs_getsO returns_add_function Suc.IH token_rules | force)+)
qed simp

lemma runs_Extends: "b \<le> 0 \<Longrightarrow> runs mode R k b Extends"
  unfolding Extends_def by ((rule runs_rules runs_look_up token_rules | force)+)

lemma runs_Service_definition:
  "2 * k + 2 \<le> n \<Longrightarrow> b \<le> 1 \<Longrightarrow> t \<noteq> End_of_input \<Longrightarrow> runs_at mode R t k b (Service_definition env n)"
  unfolding Service_definition_def
  by ((rule runs_rules runs_Extends runs_modify runs_FunctionList runs_TypeAnnotations runs_check_name runs_with_name
      runs_yy_service runs_annotate token_rules | force)+)

end

section \<open>Definitions, headers and files\<close>

context pass
begin

lemma runs_type_name: "b \<le> 0 \<Longrightarrow> runs mode R k b (type_name a)"
  unfolding type_name_def by ((rule runs_rules token_rules | force)+)

lemma runs_on_program:
  "mode = PROGRAM \<Longrightarrow> (\<And>p. pr_path (f p) = pr_path p \<and> pr_includes (f p) = pr_includes p) \<Longrightarrow> b \<le> 0 \<Longrightarrow>
     runs mode R k b (on_program f)"
  unfolding on_program_def by ((rule runs_rules runs_change_program token_rules | force)+)

lemma runs_require_unique_typename:
  "mode = PROGRAM \<Longrightarrow> b \<le> 0 \<Longrightarrow> runs mode R k b (require_unique_typename a name)"
  unfolding require_unique_typename_def by ((rule runs_rules runs_getsO token_rules | force)+)

lemma runs_entered:
  "runs_at mode R t k 1 m \<Longrightarrow> (\<And>a p. pr_path (add a p) = pr_path p \<and> pr_includes (add a p) = pr_includes p) \<Longrightarrow> b \<le> 1 \<Longrightarrow>
     runs_at mode R t k b (entered add m)"
  unfolding entered_def
  by (rule runs_at_bind, assumption) ((rule runs_rules runs_on_program token_rules | force)+)

lemma runs_TypeDefinition:
  "2 * k + 1 \<le> n \<Longrightarrow> b \<le> 1 \<Longrightarrow> runs_at mode R t k b (TypeDefinition env n)"
  unfolding TypeDefinition_def
  by ((rule runs_rules runs_entered runs_Typedef_definition runs_Enum_definition runs_Senum runs_Struct_definition
      runs_Xception token_rules | (force simp: add_typedef_def add_enum_def add_struct_def add_xception_def))+)

lemma runs_defined:
  "runs mode R k b m \<Longrightarrow> (\<And>a. runs mode R k b (f a)) \<Longrightarrow> (\<And>c. runs mode R k b (g c)) \<Longrightarrow>
     runs mode R k b (case x of Defined_nothing \<Rightarrow> m | Defined_type a \<Rightarrow> f a | Defined_const c \<Rightarrow> g c)"
  by (cases x) auto

lemma runs_Definition: "2 * k + 2 \<le> n \<Longrightarrow> b \<le> 1 \<Longrightarrow> runs mode R k b (Definition env n)"
  unfolding Definition_def
  by (rule runs_peek)
    ((rule runs_rules runs_Const runs_Service_definition runs_TypeDefinition runs_type_name runs_on_program runs_in_scopes
      runs_require_unique_typename runs_at_bind token_rules |
      (force simp: add_const_def program_add_service_def))+)

lemma runs_document_definition: "b \<le> 0 \<Longrightarrow> runs mode R k b (document_definition d x)"
  unfolding document_definition_def
  by (cases x; simp only: defined.case; (rule runs_rules runs_document runs_on_program runs_in_scopes token_rules |
      (force simp: redocument_def))+)

lemma runs_DefinitionList: "2 * k + 3 \<le> n \<Longrightarrow> b \<le> 0 \<Longrightarrow> runs mode R k b (DefinitionList n env)"
proof (induction n arbitrary: k b)
  case (Suc n)
  show ?case
    by (insert Suc.prems, unfold DefinitionList.simps,
      (rule runs_rules runs_CaptureDocText runs_Definition runs_document_definition Suc.IH token_rules | force)+)
qed simp

lemma runs_declare_program_doctext: "b \<le> 0 \<Longrightarrow> runs mode R k b declare_program_doctext"
  unfolding declare_program_doctext_def by (rule runs_on_doc)

lemma runs_header_namespace: "b \<le> 0 \<Longrightarrow> runs mode R k b (header_namespace env language name)"
  unfolding header_namespace_def
  by ((rule runs_rules runs_declare_program_doctext runs_on_program token_rules | (force simp: set_namespace_def))+)

lemma runs_include_header: "b \<le> 0 \<Longrightarrow> runs mode R k b (on_compiler (include_header env lit))"
proof -
  have "keeps_pass mode R 0 (on_compiler (include_header env lit)) s" if m: "g_parse_mode (yy_compiler s) = mode" for s
  proof -
    let ?c = "yy_compiler s" and ?d = "declare_valid_program_doctext (c_doc (yy_compiler s))"
    let ?path = "include_file (pe_fs env) (pe_searchpath env) (g_curdir ?c) lit"
    show ?thesis
    proof (cases "g_program ?c")
      case None
      then show ?thesis
        using m by (simp add: keeps_pass_def on_compiler_def include_header_def run_simps documents tokens_def)
    next
      case (Some pa)
      show ?thesis
      proof (cases "mode = INCLUDES \<and> ?path \<noteq> ''''")
        case True
        obtain out c' where r: "on_heap (add_include pa ?path lit) (?c\<lparr>c_doc := ?d\<rparr>) = (out, c')" by fastforce
        have "R (?c\<lparr>c_doc := ?d\<rparr>) c'"
          using first [of "?c\<lparr>c_doc := ?d\<rparr>" pa ?path lit] True Some r by simp
        then have "R ?c c'" by (rule trans [OF documents])
        moreover have "out \<noteq> Out_of_fuel" "g_parse_mode c' = g_parse_mode ?c"
          using r by (auto simp: on_heap_def add_include_def Let_def bindA_def getsO_def modify_def returns_deref
              split: prod.splits outcome.splits)
        moreover have "include_header env lit ?c = (out, c')"
          using True Some m r by (simp add: include_header_def run_simps Let_def)
        ultimately show ?thesis using m by (simp add: keeps_pass_def on_compiler_def tokens_def)
      next
        case False
        then have "include_header env lit ?c = (Ok (), ?c\<lparr>c_doc := ?d\<rparr>)"
          using Some m by (auto simp: include_header_def run_simps Let_def whenA_def)
        then show ?thesis using m by (simp add: keeps_pass_def on_compiler_def documents tokens_def)
      qed
    qed
  qed
  then show "b \<le> 0 \<Longrightarrow> ?thesis" by (simp add: runs_def)
qed

lemma runs_Header: "header_starts t \<Longrightarrow> b \<le> 1 \<Longrightarrow> runs_at mode R t k b (Header env)"
proof -
  assume t: "header_starts t" and b: "b \<le> 1"
  have lang: "b \<le> 0 \<Longrightarrow> runs_at mode R t k b
      (case t of
          tok_identifier language \<Rightarrow> seqA shift (bindA expect_identifier (header_namespace env language))
        | Sym c \<Rightarrow>
            (if c = CHR ''*'' then seqA shift (bindA expect_identifier (header_namespace env ''*'')) else syntax_error)
        | _ \<Rightarrow> syntax_error)" for t k b
    by (cases t; simp only: token.case; (rule runs_rules runs_header_namespace token_rules | force)+)
  note header_rules = lang runs_rules runs_header_namespace runs_include_header runs_declare_program_doctext runs_on_program
    token_rules
  show ?thesis
  proof (cases t)
    case (Kw x)
    show ?thesis
      unfolding Header_def Kw
      by (rule runs_at_peek, unfold token.case,
        cases x; simp only: keyword.case namespace_header_def option.case; insert b;
        (rule header_rules | (force simp: add_cpp_include_def))+)
  qed (use t in \<open>simp_all add: header_starts_def\<close>)
qed

lemma runs_at_on_doc:
  assumes "runs_at mode R t k b m"
  shows "runs_at mode R t k b (seqA (in_program (on_doc f)) m)"
  unfolding runs_at_def
proof (intro allI impI)
  fix s assume s: "g_parse_mode (yy_compiler s) = mode" "tokens s \<le> k" "yy_char s = Some t"
  let ?c = "if mode = PROGRAM then (yy_compiler s)\<lparr>c_doc := f (c_doc (yy_compiler s))\<rparr> else yy_compiler s"
  have "seqA (in_program (on_doc f)) m s = m (s\<lparr>yy_compiler := ?c\<rparr>)"
    using s(1) by (simp add: in_program_def yy_mode_def on_doc_def on_compiler_def whenA_def seqA_def bindA_def gets_def
        modify_def returnA_def)
  moreover have "R (yy_compiler s) ?c" by (simp add: same documents)
  moreover have "keeps_pass mode R b m (s\<lparr>yy_compiler := ?c\<rparr>)"
    using assms s by (simp add: runs_at_def tokens_def)
  ultimately show "keeps_pass mode R b (seqA (in_program (on_doc f)) m) s"
    unfolding keeps_pass_def by (auto simp: tokens_def split: prod.splits intro: trans)
qed

lemma runs_HeaderList: "k < n \<Longrightarrow> b \<le> 0 \<Longrightarrow> runs mode R k b (HeaderList n env)"
proof (induction n arbitrary: k b)
  case (Suc n)
  have header: "runs_at mode R t k b (seqA (Header env) (HeaderList n env))" if "header_starts t" for t
    unfolding seqA_def
    by (rule runs_at_bind [OF runs_Header [OF that, of 1]]) (use Suc in auto)
  show ?case
    by (insert Suc.prems, unfold HeaderList.simps,
      (rule runs_peek runs_if runs_at_on_doc header runs_at_of runs_pure | force)+)
qed simp

lemma runs_finish_program: "b \<le> 0 \<Longrightarrow> runs mode R k b finish_program"
proof -
  have "keeps_pass mode R 0 finish_program s" if m: "g_parse_mode (yy_compiler s) = mode" for s
  proof (cases "g_program (yy_compiler s)")
    case (Some pa)
    show ?thesis
    proof (cases "h_programs (yy_heap s) pa")
      case p: (Some p)
      let ?c = "yy_compiler s" and ?g = "snd (finish_program_doc p (c_doc (yy_compiler s)))"
      obtain x b where q: "fst (finish_program_doc p (c_doc ?c)) = p\<lparr>doc := x, has_doc := b\<rparr>"
        using finish_program_doc_only by blast
      have "R ?c ((?c\<lparr>c_doc := ?g\<rparr>)\<lparr>c_heap := put_program pa (p\<lparr>doc := x, has_doc := b\<rparr>) (c_heap ?c)\<rparr>)"
        using program_doc [of "?c\<lparr>c_doc := ?g\<rparr>" pa p b x] Some p by (auto intro: trans [OF documents])
      then show ?thesis
        using Some p q m
        by (simp add: keeps_pass_def finish_program_def yy_program_def on_doc_def change_program_def on_yy_heap_def
            on_compiler_def on_heap_def run_simps bindA_def getsO_def modify_def seqA_def gets_def tokens_def)
    qed (use m Some in \<open>simp add: keeps_pass_def finish_program_def yy_program_def bindA_def getsO_def same\<close>)
  qed (use m in \<open>simp add: keeps_pass_def finish_program_def yy_program_def bindA_def getsO_def same\<close>)
  then show "b \<le> 0 \<Longrightarrow> ?thesis" by (simp add: runs_def)
qed

lemma runs_Program: "2 * k + 3 \<le> n \<Longrightarrow> runs mode R k 0 (Program n env)"
  unfolding Program_def
  by ((rule runs_rules runs_HeaderList runs_DefinitionList runs_finish_program token_rules | force)+)

text \<open>A run of the parser, over lexemes of whatever kind.\<close>

lemma yyparse_keeps:
  assumes "g_parse_mode c = mode" "2 * length ls + 3 \<le> n"
  shows "(mode = INCLUDES \<longrightarrow> fst (yyparse env n ls c) \<noteq> Out_of_fuel) \<and> R c (snd (yyparse env n ls c))"
proof -
  have "keeps_pass mode R 0 (Program n env) (yy_start ls c)"
    using runs_Program [OF assms(2)] assms(1) by (simp add: runs_def yy_start_def tokens_def)
  then show ?thesis
    by (auto simp: keeps_pass_def yyparse_def yy_start_def split: prod.splits outcome.splits)
qed

end

end
