(* ===== verification/Parser.thy ===== *)
theory Parser
  imports File_Nonterminals
begin

text \<open>
  The contracts of the two passes, as interpretations of the locale of the passes: what a run of the parser over
  any tokens can change in each of them.
\<close>

section \<open>The first pass\<close>

text \<open>
  The first pass may document the program it reads and append includes to it; other programs stay as they are, new
  ones are put at fresh addresses.
\<close>

definition reads_includes :: "addr option \<Rightarrow> addr \<Rightarrow> t_program \<Rightarrow> t_program \<Rightarrow> bool" where
  "reads_includes current a p q \<longleftrightarrow>
     (if current = Some a
      then \<exists>x b included. q = p\<lparr>doc := x, has_doc := b, pr_includes := pr_includes p @ included\<rparr>
      else q = p)"

definition first_pass :: "compiler \<Rightarrow> compiler \<Rightarrow> bool" where
  "first_pass c d \<longleftrightarrow>
     (fresh_programs c \<longrightarrow>
        fresh_programs d \<and> h_next (c_heap c) \<le> h_next (c_heap d) \<and> g_program d = g_program c \<and>
        (\<forall>a p. h_programs (c_heap c) a = Some p \<longrightarrow>
           (\<exists>q. h_programs (c_heap d) a = Some q \<and> reads_includes (g_program c) a p q)))"

lemma reads_includes_doc: "reads_includes (Some a) a p (p\<lparr>doc := x, has_doc := b\<rparr>)"
proof -
  have "p\<lparr>doc := x, has_doc := b\<rparr> = p\<lparr>doc := x, has_doc := b, pr_includes := pr_includes p @ []\<rparr>" by simp
  then show ?thesis unfolding reads_includes_def by metis
qed

lemma reads_includes_refl: "reads_includes current a p p"
  using reads_includes_doc [of a p "has_doc p" "doc p"] by (cases "current = Some a") (simp_all add: reads_includes_def)

lemma reads_includes_trans: "reads_includes current a p q \<Longrightarrow> reads_includes current a q r \<Longrightarrow> reads_includes current a p r"
  by (fastforce simp: reads_includes_def split: if_splits)

lemma first_pass_trans: "first_pass c d \<Longrightarrow> first_pass d e \<Longrightarrow> first_pass c e"
  unfolding first_pass_def by (metis le_trans reads_includes_trans)

lemma first_pass_refl: "first_pass c c"
  by (simp add: first_pass_def reads_includes_refl)

lemma first_pass_heap:
  "h_programs h = h_programs (c_heap c) \<Longrightarrow> h_next (c_heap c) \<le> h_next h \<Longrightarrow> first_pass c (c\<lparr>c_heap := h\<rparr>)"
  by (simp add: first_pass_def fresh_programs_def reads_includes_refl)

lemma first_pass_doc:
  "g_program c = Some pa \<Longrightarrow> h_programs (c_heap c) pa = Some p \<Longrightarrow>
     first_pass c (c\<lparr>c_heap := put_program pa (p\<lparr>doc := x, has_doc := b\<rparr>) (c_heap c)\<rparr>)"
  by (auto simp: first_pass_def fresh_programs_def reads_includes_refl reads_includes_doc)

lemma first_pass_include:
  assumes "g_program c = Some pa"
  shows "first_pass c (snd (on_heap (add_include pa path site) c))"
proof (cases "h_programs (c_heap c) pa")
  case None
  then show ?thesis
    by (simp add: on_heap_def add_include_def bindA_def getsO_def first_pass_refl)
next
  case (Some p)
  let ?h = "c_heap c"
  obtain q where "add_include pa path site ?h = (Ok (), put_program pa (p\<lparr>pr_includes := pr_includes p @ [h_next ?h]\<rparr>)
        (?h\<lparr>h_programs := (h_programs ?h)(h_next ?h \<mapsto> q), h_next := Suc (h_next ?h)\<rparr>))"
    using Some by (simp add: add_include_def run_simps alloc_program_def Let_def)
  moreover have "reads_includes (Some pa) pa p (p\<lparr>pr_includes := pr_includes p @ [h_next ?h]\<rparr>)"
    unfolding reads_includes_def
    by (auto intro!: exI [of _ "doc p"] exI [of _ "has_doc p"] exI [of _ "[h_next ?h]"])
  ultimately show ?thesis
    using Some assms by (auto simp: on_heap_def first_pass_def fresh_programs_def reads_includes_refl)
qed

interpretation includes_pass: pass INCLUDES first_pass
proof
  show "first_pass c c" for c
    by (rule first_pass_refl)
  show "first_pass c d \<Longrightarrow> first_pass d e \<Longrightarrow> first_pass c e" for c d e by (rule first_pass_trans)
  show "first_pass c (c\<lparr>c_doc := g\<rparr>)" for c g
    by (simp add: first_pass_def fresh_programs_def reads_includes_refl)
qed (simp_all add: first_pass_heap first_pass_doc first_pass_include)

section \<open>The second pass\<close>

text \<open>The second pass keeps the programs there are, with their paths and their includes.\<close>

definition second_pass :: "compiler \<Rightarrow> compiler \<Rightarrow> bool" where
  "second_pass c d \<longleftrightarrow>
     h_next (c_heap c) \<le> h_next (c_heap d) \<and>
     (\<forall>a. map_option (\<lambda>p. (pr_path p, pr_includes p)) (h_programs (c_heap d) a) =
          map_option (\<lambda>p. (pr_path p, pr_includes p)) (h_programs (c_heap c) a))"

interpretation types_pass: pass PROGRAM second_pass
  by unfold_locales (auto simp: second_pass_def)

lemma second_pass_program:
  "second_pass c d \<Longrightarrow> h_programs (c_heap c) a = Some p \<Longrightarrow>
     \<exists>q. h_programs (c_heap d) a = Some q \<and> pr_path q = pr_path p \<and> pr_includes q = pr_includes p"
  by (cases "h_programs (c_heap d) a") (auto simp: second_pass_def dest!: spec [of _ a])

lemma second_pass_None: "second_pass c d \<Longrightarrow> h_programs (c_heap c) a = None \<Longrightarrow> h_programs (c_heap d) a = None"
  by (auto simp: second_pass_def dest!: spec [of _ a])

lemma second_pass_back:
  "second_pass c d \<Longrightarrow> h_programs (c_heap d) a = Some q \<Longrightarrow>
     \<exists>p. h_programs (c_heap c) a = Some p \<and> pr_path q = pr_path p \<and> pr_includes q = pr_includes p"
  by (cases "h_programs (c_heap c) a") (auto simp: second_pass_def dest!: spec [of _ a])

lemma second_pass_contract:
  assumes "second_pass c d" "include_inv rank c"
  shows "include_inv rank d \<and> paths_kept c d"
proof
  show "paths_kept c d" using second_pass_program [OF assms(1)] unfolding paths_kept_def by blast
  show "include_inv rank d"
    unfolding include_inv_def
  proof (intro conjI allI impI)
    fix a assume "h_next (c_heap d) \<le> a"
    then have "h_next (c_heap c) \<le> a" using assms(1) by (auto simp: second_pass_def)
    then show "h_programs (c_heap d) a = None"
      using assms(2) second_pass_None [OF assms(1)] by (auto simp: include_inv_def)
  next
    fix a q ia assume q: "h_programs (c_heap d) a = Some q" "ia \<in> set (pr_includes q)"
    with second_pass_back [OF assms(1)] obtain p where "h_programs (c_heap c) a = Some p" "pr_path q = pr_path p"
        "ia \<in> set (pr_includes p)" by metis
    with include_invD [OF assms(2)] second_pass_program [OF assms(1)]
    show "\<exists>x. h_programs (c_heap d) ia = Some x \<and> rank (pr_path x) < rank (pr_path q)" by metis
  qed
qed

text \<open>A parser environment and the state in which \<^verbatim>\<open>parse\<close> starts the two passes over a file.\<close>

definition demo_types :: type_globals where
  "demo_types = \<lparr>g_type_void = 1, g_type_string = 2, g_type_binary = 3, g_type_slist = 4, g_type_bool = 5, g_type_byte = 6,
     g_type_i16 = 7, g_type_i32 = 8, g_type_i64 = 9, g_type_double = 10\<rparr>"

definition demo_yy_env :: yy_env where
  "demo_yy_env = \<lparr>ye_parse = demo_env, ye_types = demo_types, ye_options = default_options, ye_gens = [], ye_fuel = 10\<rparr>"

definition demo_pass :: "parse_mode \<Rightarrow> compiler" where
  "demo_pass mode = (demo_compiler ''/a.thrift'')\<lparr>g_parse_mode := mode, g_program := Some 0, g_scope := Some 0\<rparr>"

lemma demo_pass_simps:
  "g_parse_mode (demo_pass mode) = mode" "g_program (demo_pass mode) = Some 0"
  "h_programs (c_heap (demo_pass mode)) 0 = Some (new_program ''/a.thrift'')"
  "h_types (c_heap (demo_pass mode)) = Map.empty" "h_next (c_heap (demo_pass mode)) = 1"
  "fresh_programs (demo_pass mode)"
  by (simp_all add: demo_pass_def demo_compiler_def fresh_programs_def)

text \<open>
  C5: The first pass over a file ends for any sequence of tokens, correct or not, with fuel twice the number of tokens
  and three. All it can do to the programs there are is to document the one it reads and to append
  includes to it: every other program is as it was.
\<close>

theorem first_pass_ends:
  assumes "g_parse_mode c = INCLUDES" "fresh_programs c" "2 * length ls + 3 \<le> n" "h_programs (c_heap c) a = Some p"
  shows "fst (yyparse env n ls c) \<noteq> Out_of_fuel \<and>
    (\<exists>q. h_programs (c_heap (snd (yyparse env n ls c))) a = Some q \<and>
       (if g_program c = Some a
        then \<exists>x b included. q = p\<lparr>doc := x, has_doc := b, pr_includes := pr_includes p @ included\<rparr>
        else q = p))"
  using includes_pass.yyparse_keeps [OF assms(1,3), of env] assms(2,4)
  unfolding first_pass_def reads_includes_def by blast

theorem first_pass_ends_witness:
  "fst (yyparse demo_yy_env 7 [Token (Kw tok_include), Token (tok_literal ''b.thrift'')] (demo_pass INCLUDES)) \<noteq> Out_of_fuel"
  using first_pass_ends [of "demo_pass INCLUDES" "[Token (Kw tok_include), Token (tok_literal ''b.thrift'')]" 7 0 "new_program ''/a.thrift''"]
  by (simp add: demo_pass_simps)



end
