(* ===== verification/Parser_Runs.thy ===== *)
theory Parser_Runs
  imports Parser
begin

text \<open>
  Runs of the parser on given tokens, and inputs on which it does what its grammar does not mean. Every nonterminal has a rule that executes its first step, so that a run from a symbolic
  state is a rewriting.
\<close>

section \<open>Running the parser\<close>

lemma peek_simps:
  "yy_char s = Some t \<Longrightarrow> peek s = (Ok t, s)"
  "yy_char s = None \<Longrightarrow> yy_input s = Token t # ls \<Longrightarrow> peek s = (Ok t, s\<lparr>yy_input := ls, yy_char := Some t\<rparr>)"
  "yy_char s = None \<Longrightarrow> yy_input s = [] \<Longrightarrow> peek s = (Ok End_of_input, s\<lparr>yy_char := Some End_of_input\<rparr>)"
  by (simp_all add: peek_def)

lemma bind_peek:
  "yy_char s = Some t \<Longrightarrow> bindA peek f s = f t s"
  "yy_char s = None \<Longrightarrow> yy_input s = Token t # ls \<Longrightarrow> bindA peek f s = f t (s\<lparr>yy_input := ls, yy_char := Some t\<rparr>)"
  "yy_char s = None \<Longrightarrow> yy_input s = [] \<Longrightarrow> bindA peek f s = f End_of_input (s\<lparr>yy_char := Some End_of_input\<rparr>)"
  by (simp_all add: peek_simps)

lemma seq_shift: "seqA shift m s = m (s\<lparr>yy_char := None\<rparr>)"
  by (simp add: shift_def run_simps)

lemma bind_mode: "bindA yy_mode f s = f (g_parse_mode (yy_compiler s)) s"
  by (simp add: yy_mode_def run_simps)

lemma seq_in_program: "seqA (in_program m) n s = (if g_parse_mode (yy_compiler s) = PROGRAM then seqA m n s else n s)"
  by (simp add: in_program_def bind_mode run_simps)

lemma seq_on_doc: "seqA (on_doc f) m s = m (s\<lparr>yy_compiler := (yy_compiler s)\<lparr>c_doc := f (c_doc (yy_compiler s))\<rparr>\<rparr>)"
  by (simp add: on_doc_def on_compiler_def seqA_def bindA_def modify_def)

lemmas parser_steps = bind_peek seq_shift bind_mode seq_in_program seq_on_doc

lemma finish_program_run:
  "g_program (yy_compiler s) = Some pa \<Longrightarrow> h_programs (yy_heap s) pa = Some p \<Longrightarrow>
     finish_program s = (Ok (), s\<lparr>yy_compiler := (yy_compiler s)\<lparr>c_doc := snd (finish_program_doc p (c_doc (yy_compiler s))),
       c_heap := put_program pa (fst (finish_program_doc p (c_doc (yy_compiler s)))) (yy_heap s)\<rparr>\<rparr>)"
  by (simp add: finish_program_def yy_program_def run_simps seq_on_doc change_program_def on_yy_heap_def on_compiler_def
      on_heap_def)

lemma yy_program_run: "g_program (yy_compiler s) = Some pa \<Longrightarrow> bindA yy_program f s = f pa s"
  by (simp add: yy_program_def run_simps)

lemma new_type_run:
  "bindA (new_type t) f s = f (h_next (yy_heap s)) (s\<lparr>yy_compiler := (yy_compiler s)\<lparr>c_heap := snd (alloc_type t (yy_heap s))\<rparr>\<rparr>)"
  "bindA (new_field_object x) f s =
     f (h_next (yy_heap s)) (s\<lparr>yy_compiler := (yy_compiler s)\<lparr>c_heap := snd (alloc_field x (yy_heap s))\<rparr>\<rparr>)"
  by (simp_all add: new_type_def new_field_object_def on_yy_heap_def on_compiler_def on_heap_def alloc_type_def alloc_field_def
      bindA_def)

lemma type_run: "h_types (yy_heap s) a = Some t \<Longrightarrow> bindA (yy_type a) f s = f t s"
  by (simp add: yy_type_def run_simps)

lemma set_type_run:
  "seqA (set_type a t) m s = m (s\<lparr>yy_compiler := (yy_compiler s)\<lparr>c_heap := put_type a t (yy_heap s)\<rparr>\<rparr>)"
  by (simp add: set_type_def on_yy_heap_def on_compiler_def on_heap_def modify_def seqA_def bindA_def)

lemma on_yy_heap_run:
  "m (yy_heap s) = (Ok x, h) \<Longrightarrow> bindA (on_yy_heap m) f s = f x (s\<lparr>yy_compiler := (yy_compiler s)\<lparr>c_heap := h\<rparr>\<rparr>)"
  "m' (yy_heap s) = (Ok (), h) \<Longrightarrow> seqA (on_yy_heap m') n s = n (s\<lparr>yy_compiler := (yy_compiler s)\<lparr>c_heap := h\<rparr>\<rparr>)"
  by (simp_all add: on_yy_heap_def on_compiler_def on_heap_def bindA_def seqA_def)

lemma refused_run:
  "struct_append sa fa (yy_heap s) = (Ok False, h) \<Longrightarrow>
     bindA (on_yy_heap (struct_append sa fa)) f s = f False (s\<lparr>yy_compiler := (yy_compiler s)\<lparr>c_heap := h\<rparr>\<rparr>)"
  by (rule on_yy_heap_run)

lemmas grammar_steps = parser_steps run_simps yy_program_run new_type_run type_run set_type_run
  alloc_type_def alloc_field_def expect_def optional_token_def expect_identifier_def CommaOrSemicolonOptional_def

lemma check_name_run:
  "CHR ''.'' \<notin> set name \<Longrightarrow> seqA (check_name name) m s = m s"
  by (simp add: check_name_def validate_simple_identifier_def seqA_def bindA_def getsO_def find_char_None [THEN iffD2])

lemma struct_set_name_run:
  "h_types h a = Some (Struct st) \<Longrightarrow> \<not> st_is_union st \<Longrightarrow>
     struct_set_name a name h = (Ok (), put_struct a (st\<lparr>ty_name := name\<rparr>) h)"
  by (simp add: struct_set_name_def validate_union_members_def run_simps put_struct_def get_struct_def)

lemma struct_append_first:
  "h_types h sa = Some (Struct st) \<Longrightarrow> h_fields h fa = Some f \<Longrightarrow> st_members_in_id_order st = [] \<Longrightarrow> \<not> st_is_union st \<Longrightarrow>
     struct_append sa fa h =
       (Ok True, put_struct sa (st\<lparr>st_members := st_members st @ [fa], st_members_in_id_order := [fa]\<rparr>) h)"
  by (simp add: struct_append_def run_simps get_struct_def lower_bound_def upper_bound_def get_field_by_name_def
      validate_union_member_def put_struct_def)

lemma struct_append_clash:
  "h_types h sa = Some (Struct st) \<Longrightarrow> h_fields h fa = Some f \<Longrightarrow>
     st_members_in_id_order st \<noteq> [] \<Longrightarrow> tl (st_members_in_id_order st) = [] \<Longrightarrow>
     h_fields h (hd (st_members_in_id_order st)) = Some g \<Longrightarrow> fl_key g = fl_key f \<Longrightarrow> struct_append sa fa h = (Ok False, h)"
  by (cases "st_members_in_id_order st")
    (simp_all add: struct_append_def run_simps get_struct_def lower_bound_def upper_bound_def)

section \<open>Runs against the grammar\<close>

text \<open>
  The header of an included file makes the program documentation of the file that was parsed before it
  the documentation of the included file: the state of the documentation is reset behind the includes only.
\<close>

lemma included_file_takes_other_doc:
  assumes "g_parse_mode c = INCLUDES" "g_program c = Some pa" "h_programs (c_heap c) pa = Some p"
    "g_program_doctext_candidate (c_doc c) = Some d" "g_program_doctext_status (c_doc c) = ALREADY_PROCESSED"
  shows "\<exists>c'. yyparse env (Suc (Suc n)) [Token (Kw tok_namespace), Token (tok_identifier language), Token (tok_identifier name)] c = (Ok 0, c') \<and>
     map_option doc (h_programs (c_heap c') pa) = Some d"
  using assms
  by (simp add: yyparse_def Program_def yy_start_def grammar_steps header_starts_def namespace_header_def Header_def
    header_namespace_def declare_program_doctext_def finish_program_run finish_program_doc_def set_doc_def
    declare_valid_program_doctext_def)

text \<open>
  C39: A service whose first function is declared \<^verbatim>\<open>oneway\<close> with the name of a type, as in \<^verbatim>\<open>oneway T f()\<close>, has no defined
  behaviour in the first pass: there the name of a type is read as a null pointer, through which the constructor of the
  function asks whether it returns nothing, in order to warn.
\<close>

theorem oneway_named_type_undefined:
  assumes "g_parse_mode c = INCLUDES" "g_program c = Some pa" "h_types (c_heap c) 0 = None" "0 < h_next (c_heap c)"
    and "CHR ''.'' \<notin> set service" "CHR ''.'' \<notin> set name"
  shows "fst (yyparse env (n + 5)
    [Token (Kw tok_service), Token (tok_identifier service), Token (Sym (CHR ''{'')), Token (Kw tok_oneway), Token (tok_identifier type),
     Token (tok_identifier name), Token (Sym (CHR ''('')), Token (Sym (CHR '')'')), Token (Sym (CHR ''}''))] c) = Undefined"
proof -
  have n: "n + 5 = Suc (Suc (Suc (Suc (Suc n))))" by simp
  show ?thesis
    using assms unfolding n
    by (simp add: yyparse_def Program_def yy_start_def grammar_steps header_starts_def namespace_header_def DefinitionList.simps
      CaptureDocText_def Definition_def Service_definition_def Extends_def FunctionList.simps Function_def FunctionType_def FieldType.simps
      identifier_type_def FieldList_def new_field_list_def Fields.simps Throws_def TypeAnnotations_def build_function_def check_name_run
      on_yy_heap_run struct_set_name_run new_struct_def new_function_def put_struct_def type_pointer_def yy_type_def get_struct_def)
qed

theorem oneway_named_type_undefined_witness:
  "fst (yyparse demo_yy_env 5
    [Token (Kw tok_service), Token (tok_identifier ''S''), Token (Sym (CHR ''{'')), Token (Kw tok_oneway), Token (tok_identifier ''T''),
     Token (tok_identifier ''f''), Token (Sym (CHR ''('')), Token (Sym (CHR '')'')), Token (Sym (CHR ''}''))] (demo_pass INCLUDES)) = Undefined"
  using oneway_named_type_undefined [of "demo_pass INCLUDES" 0 "''S''" "''f''" demo_yy_env 0 "''T''"] by (simp add: demo_pass_simps)

text \<open>
  C40: Fields without a key are numbered downwards from -1, and a list of \<^verbatim>\<open>xsd_attrs\<close> restarts that count for the
  fields behind it: a field without a key behind an empty list of attributes gets the key of the field that has the
  list, and the compiler refuses the file.
\<close>

theorem xsd_attrs_restart_keys:
  assumes "g_parse_mode c = INCLUDES" "g_program c = Some pa" "op_strict (ye_options env) < 192"
    and "CHR ''.'' \<notin> set struct" "CHR ''.'' \<notin> set a" "CHR ''.'' \<notin> set b"
  shows "fst (yyparse env (n + 6)
    [Token (Kw tok_struct), Token (tok_identifier struct), Token (Sym (CHR ''{'')),
     Token (Kw tok_string), Token (tok_identifier a), Token (Kw tok_xsd_attrs), Token (Sym (CHR ''{'')), Token (Sym (CHR ''}'')),
     Token (Kw tok_string), Token (tok_identifier b), Token (Sym (CHR ''}''))] c) =
    Exit ''field identifier/name has already been used''"
proof -
  have n: "n + 6 = Suc (Suc (Suc (Suc (Suc (Suc n)))))" by simp
  show ?thesis
    using assms unfolding n
    by (simp add: yyparse_def Program_def yy_start_def grammar_steps header_starts_def namespace_header_def DefinitionList.simps
      CaptureDocText_def Definition_def TypeDefinition_def entered_def Struct_definition_def FieldType.simps
      identifier_type_def FieldList_def new_field_list_def Fields.simps Field.simps TypeAnnotations_def check_name_run FieldIdentifier_def
      FieldRequiredness_def auto_field_key_def BaseType_def simple_base_type_def FieldValue_def build_field_def check_field_key_def
      field_default_def document_def append_field_def new_field_def new_field_unkeyed_def
      struct_append_first struct_append_clash refused_run yyerror_exit_def
      on_yy_heap_run struct_set_name_run new_struct_def put_struct_def type_pointer_def yy_type_def get_struct_def)
qed

theorem xsd_attrs_restart_keys_witness:
  "fst (yyparse demo_yy_env 6
    [Token (Kw tok_struct), Token (tok_identifier ''S''), Token (Sym (CHR ''{'')),
     Token (Kw tok_string), Token (tok_identifier ''a''), Token (Kw tok_xsd_attrs), Token (Sym (CHR ''{'')), Token (Sym (CHR ''}'')),
     Token (Kw tok_string), Token (tok_identifier ''b''), Token (Sym (CHR ''}''))] (demo_pass INCLUDES)) =
    Exit ''field identifier/name has already been used''"
  using xsd_attrs_restart_keys [of "demo_pass INCLUDES" 0 demo_yy_env "''S''" "''a''" "''b''" 0]
  by (simp add: demo_pass_simps demo_yy_env_def default_options_def)

end
