(* ===== verification/Const_Reading.thy ===== *)
theory Const_Reading
  imports Parser_Runs
begin

text \<open>
  Constant values as they are written, and what the parser reads for them.
\<close>

datatype const_text =
    T_int int
  | T_double double
  | T_string string
  | T_name string
  | T_list "const_text list"
  | T_map "(const_text \<times> const_text) list"

fun const_lexemes :: "const_text \<Rightarrow> lexeme list" where
  "const_lexemes (T_int i) = [Token (tok_int_constant i)]"
| "const_lexemes (T_double d) = [Token (tok_dub_constant d)]"
| "const_lexemes (T_string s) = [Token (tok_literal s)]"
| "const_lexemes (T_name s) = [Token (tok_identifier s)]"
| "const_lexemes (T_list vs) =
     Token (Sym (CHR ''['')) # concat (map (\<lambda>v. const_lexemes v @ [Token (Sym (CHR '',''))]) vs) @ [Token (Sym (CHR '']''))]"
| "const_lexemes (T_map kvs) =
     Token (Sym (CHR ''{'')) #
     concat (map (\<lambda>(k, v). const_lexemes k @ Token (Sym (CHR '':'')) # const_lexemes v @ [Token (Sym (CHR '',''))]) kvs) @
     [Token (Sym (CHR ''}''))]"

text \<open>The value object of a text, at whatever address: the entries of a map are in the order of the text.\<close>

fun denotes :: "const_text \<Rightarrow> t_const_value \<Rightarrow> bool" where
  "denotes (T_int i) cv = (cv = set_integer i (new_const_value (cv_addr cv)))"
| "denotes (T_double d) cv = (cv = set_double d (new_const_value (cv_addr cv)))"
| "denotes (T_string s) cv = (cv = set_string s (new_const_value (cv_addr cv)))"
| "denotes (T_name s) cv = (cv = set_identifier s (new_const_value (cv_addr cv)))"
| "denotes (T_list vs) cv =
     (cv = set_listVal (cv_listVal cv) (set_list (new_const_value (cv_addr cv))) \<and> list_all2 denotes vs (cv_listVal cv))"
| "denotes (T_map kvs) cv =
     (cv = set_mapVal (cv_mapVal cv) (set_map (new_const_value (cv_addr cv))) \<and>
      list_all2 (\<lambda>(k, v) (k', v'). denotes k k' \<and> denotes v v') kvs (cv_mapVal cv))"

text \<open>The state behind a text that allocated \<open>m\<close> objects.\<close>

definition behind :: "yy_state \<Rightarrow> lexeme list \<Rightarrow> nat \<Rightarrow> yy_state" where
  "behind s ls m =
     s\<lparr>yy_char := None, yy_input := ls,
       yy_compiler := (yy_compiler s)\<lparr>c_heap := (yy_heap s)\<lparr>h_next := h_next (yy_heap s) + m\<rparr>\<rparr>\<rparr>"

lemma behind_simps [simp]:
  "yy_char (behind s ls m) = None" "yy_input (behind s ls m) = ls" "h_next (yy_heap (behind s ls m)) = h_next (yy_heap s) + m"
  "behind (behind s ls m) ls' m' = behind s ls' (m + m')"
  "(behind s ls m)\<lparr>yy_input := ls', yy_char := None\<rparr> = behind s ls' m"
  "(behind s ls m)\<lparr>yy_input := ls', yy_char := Some t\<rparr> = (behind s ls' m)\<lparr>yy_char := Some t\<rparr>"
  "(behind s ls m)\<lparr>yy_char := None\<rparr> = behind s ls m"
  by (simp_all add: behind_def add.assoc)

lemma new_value_run:
  "bindA (new_value f) g s =
     g (f (new_const_value (h_next (yy_heap s))))
       (s\<lparr>yy_compiler := (yy_compiler s)\<lparr>c_heap := (yy_heap s)\<lparr>h_next := Suc (h_next (yy_heap s))\<rparr>\<rparr>\<rparr>)"
  "new_value f s =
     (Ok (f (new_const_value (h_next (yy_heap s)))),
      s\<lparr>yy_compiler := (yy_compiler s)\<lparr>c_heap := (yy_heap s)\<lparr>h_next := Suc (h_next (yy_heap s))\<rparr>\<rparr>\<rparr>)"
  by (simp_all add: new_value_def new_address_def on_yy_heap_def on_compiler_def on_heap_def bindA_def returnA_def)

definition reads_value :: "const_text \<Rightarrow> bool" where
  "reads_value v \<longleftrightarrow>
     (\<forall>n s ls. 2 * length (const_lexemes v) \<le> n \<longrightarrow> yy_char s = None \<longrightarrow> yy_input s = const_lexemes v @ ls \<longrightarrow>
       (\<exists>cv m. ConstValue n s = (Ok cv, behind s ls m) \<and> denotes v cv \<and>
          h_next (yy_heap s) \<le> cv_addr cv \<and> cv_addr cv < h_next (yy_heap s) + m))"

lemma reads_simple:
  "reads_value (T_int i)" "reads_value (T_double d)" "reads_value (T_string x)" "reads_value (T_name x)"
proof -
  have "\<exists>m. n = Suc m" if "2 \<le> n" for n :: nat using that by (cases n) auto
  then show "reads_value (T_int i)" "reads_value (T_double d)" "reads_value (T_string x)" "reads_value (T_name x)"
    unfolding reads_value_def
    by (fastforce simp: grammar_steps new_value_run behind_def new_const_value_def intro: exI [of _ 1])+
qed

lemma const_lexemes_first:
  "\<exists>t ts. const_lexemes v = Token t # ts \<and> t \<noteq> Sym (CHR '']'') \<and> t \<noteq> Sym (CHR ''}'')"
  by (cases v) auto

text \<open>A value is read in the same way when its first token has been looked at.\<close>

lemma ConstValue_peeked:
  "yy_char s = None \<Longrightarrow> yy_input s = Token t # ts \<Longrightarrow>
     ConstValue (Suc n) (s\<lparr>yy_input := ts, yy_char := Some t\<rparr>) = ConstValue (Suc n) s"
  by (simp add: bind_peek)

lemma reads_value_peeked:
  assumes v: "reads_value v" and n: "2 * length (const_lexemes v) \<le> n"
    and s: "yy_char s = None" "yy_input s = const_lexemes v @ ls"
  obtains cv m t ts where "yy_input s = Token t # ts" "t \<noteq> Sym (CHR '']'')" "t \<noteq> Sym (CHR ''}'')"
    "ConstValue n (s\<lparr>yy_input := ts, yy_char := Some t\<rparr>) = (Ok cv, behind s ls m)" "denotes v cv"
    "h_next (yy_heap s) \<le> cv_addr cv" "cv_addr cv < h_next (yy_heap s) + m"
proof -
  obtain t ts where t: "const_lexemes v = Token t # ts" "t \<noteq> Sym (CHR '']'')" "t \<noteq> Sym (CHR ''}'')"
    using const_lexemes_first by blast
  obtain k where k: "n = Suc k" using n t(1) by (cases n) auto
  obtain cv m where "ConstValue n s = (Ok cv, behind s ls m)" "denotes v cv"
      "h_next (yy_heap s) \<le> cv_addr cv" "cv_addr cv < h_next (yy_heap s) + m"
    using v n s unfolding reads_value_def by blast
  moreover have "ConstValue n (s\<lparr>yy_input := ts @ ls, yy_char := Some t\<rparr>) = ConstValue n s"
    unfolding k using s t(1) by (intro ConstValue_peeked) auto
  ultimately show ?thesis using that [of t "ts @ ls" cv m] t s by simp
qed

lemma comma_run:
  "yy_char s = None \<Longrightarrow> yy_input s = Token (Sym (CHR '','')) # ls \<Longrightarrow>
     seqA CommaOrSemicolonOptional f s = f (s\<lparr>yy_input := ls, yy_char := None\<rparr>)"
  by (simp add: CommaOrSemicolonOptional_def run_simps bind_peek seq_shift)

abbreviation list_lexemes :: "const_text list \<Rightarrow> lexeme list" where
  "list_lexemes vs \<equiv> concat (map (\<lambda>v. const_lexemes v @ [Token (Sym (CHR '',''))]) vs)"

lemma reads_list_contents:
  assumes "\<And>v. v \<in> set vs \<Longrightarrow> reads_value v" "2 * length (list_lexemes vs) + 2 \<le> n"
    "yy_char s = None" "yy_input s = list_lexemes vs @ Token (Sym (CHR '']'')) # ls"
  shows "\<exists>xs m. ConstListContents n w s =
      (Ok (set_listVal (cv_listVal w @ xs) w), (behind s ls m)\<lparr>yy_char := Some (Sym (CHR '']''))\<rparr>) \<and> list_all2 denotes vs xs"
  using assms
proof (induction vs arbitrary: n s w)
  case Nil
  then obtain k where "n = Suc k" by (cases n) auto
  moreover have "set_listVal (cv_listVal w) w = w" by (cases w) simp
  ultimately show ?case
    using Nil by (intro exI [of _ "[]"] exI [of _ 0]) (simp add: bind_peek run_simps behind_def)
next
  case (Cons v vs)
  then obtain k where k: "n = Suc k" by (cases n) auto
  let ?ls = "list_lexemes vs @ Token (Sym (CHR '']'')) # ls"
  obtain cv m t ts where r: "yy_input s = Token t # ts" "t \<noteq> Sym (CHR '']'')"
      "ConstValue k (s\<lparr>yy_input := ts, yy_char := Some t\<rparr>) = (Ok cv, behind s (Token (Sym (CHR '','')) # ?ls) m)" "denotes v cv"
    by (rule reads_value_peeked [of v k s "Token (Sym (CHR '','')) # ?ls"]) (use Cons.prems k in auto)
  obtain xs m' where xs: "ConstListContents k (add_list cv w) (behind s ?ls m) =
      (Ok (set_listVal (cv_listVal (add_list cv w) @ xs) (add_list cv w)),
       (behind (behind s ?ls m) ls m')\<lparr>yy_char := Some (Sym (CHR '']''))\<rparr>)" "list_all2 denotes vs xs"
    using Cons.IH [of k "behind s ?ls m" "add_list cv w"] Cons.prems k by auto
  have "set_listVal (cv_listVal (add_list cv w) @ xs) (add_list cv w) = set_listVal (cv_listVal w @ cv # xs) w"
    by (cases w) (simp add: add_list_def)
  then show ?case
    using k r xs Cons.prems by (intro exI [of _ "cv # xs"] exI [of _ "m + m'"]) (simp add: bind_peek comma_run)
qed

abbreviation entry_lexemes :: "const_text \<times> const_text \<Rightarrow> lexeme list" where
  "entry_lexemes \<equiv> \<lambda>(k, v). const_lexemes k @ Token (Sym (CHR '':'')) # const_lexemes v @ [Token (Sym (CHR '',''))]"

lemma expect_run:
  "yy_char s = None \<Longrightarrow> yy_input s = Token t # ls \<Longrightarrow> seqA (expect t) f s = f (s\<lparr>yy_input := ls, yy_char := None\<rparr>)"
  by (simp add: expect_def run_simps bind_peek seq_shift)

text \<open>Every key is allocated behind the keys before it, so that it goes to the end of the map.\<close>

lemma reads_map_contents:
  assumes "\<And>k v. (k, v) \<in> set kvs \<Longrightarrow> reads_value k \<and> reads_value v" "2 * length (concat (map entry_lexemes kvs)) + 2 \<le> n"
    "yy_char s = None" "yy_input s = concat (map entry_lexemes kvs) @ Token (Sym (CHR ''}'')) # ls"
    "list_all (\<lambda>(k, v). cv_addr k < h_next (yy_heap s)) (cv_mapVal w)"
  shows "\<exists>xs m. ConstMapContents n w s =
      (Ok (set_mapVal (cv_mapVal w @ xs) w), (behind s ls m)\<lparr>yy_char := Some (Sym (CHR ''}''))\<rparr>) \<and>
      list_all2 (\<lambda>(k, v) (k', v'). denotes k k' \<and> denotes v v') kvs xs"
  using assms
proof (induction kvs arbitrary: n s w)
  case Nil
  then obtain k where "n = Suc k" by (cases n) auto
  moreover have "set_mapVal (cv_mapVal w) w = w" by (cases w) simp
  ultimately show ?case
    using Nil by (intro exI [of _ "[]"] exI [of _ 0]) (simp add: bind_peek run_simps behind_def)
next
  case (Cons kv kvs)
  obtain key v where kv: "kv = (key, v)" by fastforce
  from Cons obtain k where k: "n = Suc k" by (cases n) auto
  let ?ls = "concat (map entry_lexemes kvs) @ Token (Sym (CHR ''}'')) # ls"
  let ?vs = "const_lexemes v @ Token (Sym (CHR '','')) # ?ls"
  have key: "reads_value key" "2 * length (const_lexemes key) \<le> k"
    using Cons.prems(1) [of key v] Cons.prems(2) k kv by auto
  obtain ck m t ts where r: "yy_input s = Token t # ts" "t \<noteq> Sym (CHR ''}'')"
      "ConstValue k (s\<lparr>yy_input := ts, yy_char := Some t\<rparr>) = (Ok ck, behind s (Token (Sym (CHR '':'')) # ?vs) m)" "denotes key ck"
      "h_next (yy_heap s) \<le> cv_addr ck" "cv_addr ck < h_next (yy_heap s) + m"
    by (rule reads_value_peeked [of key k s "Token (Sym (CHR '':'')) # ?vs"]) (use key Cons.prems k kv in auto)
  have "reads_value v" "2 * length (const_lexemes v) \<le> k" using Cons.prems(1) [of key v] Cons.prems(2) k kv by auto
  then obtain cv m' where v: "ConstValue k (behind s ?vs m) = (Ok cv, behind (behind s ?vs m) (Token (Sym (CHR '','')) # ?ls) m')" "denotes v cv"
    unfolding reads_value_def by (metis behind_simps(1,2))
  have w: "add_map ck cv w = set_mapVal (cv_mapVal w @ [(ck, cv)]) w"
    using Cons.prems(5) r(5) by (fastforce simp: add_map_def list_all_iff intro!: arg_cong2 [where f = set_mapVal] map_insert_last)
  have keys: "list_all (\<lambda>(k, v). cv_addr k < h_next (yy_heap (behind s ?ls (m + m')))) (cv_mapVal (add_map ck cv w))"
    using Cons.prems(5) r(6) unfolding w by (cases w) (auto simp: list_all_iff)
  obtain xs m'' where xs: "ConstMapContents k (add_map ck cv w) (behind s ?ls (m + m')) =
      (Ok (set_mapVal (cv_mapVal (add_map ck cv w) @ xs) (add_map ck cv w)),
       (behind (behind s ?ls (m + m')) ls m'')\<lparr>yy_char := Some (Sym (CHR ''}''))\<rparr>)"
      "list_all2 (\<lambda>(k, v) (k', v'). denotes k k' \<and> denotes v v') kvs xs"
    using Cons.IH [of k "behind s ?ls (m + m')" "add_map ck cv w"] Cons.prems(1,2) keys k kv by auto
  have "set_mapVal (cv_mapVal (add_map ck cv w) @ xs) (add_map ck cv w) = set_mapVal (cv_mapVal w @ (ck, cv) # xs) w"
    unfolding w by (cases w) simp
  then show ?case
    using k r v xs Cons.prems kv
    by (intro exI [of _ "(ck, cv) # xs"] exI [of _ "m + m' + m''"]) (simp add: bind_peek expect_run comma_run)
qed

lemma expect_peeked_run: "yy_char s = Some t \<Longrightarrow> seqA (expect t) f s = f (s\<lparr>yy_char := None\<rparr>)"
  by (simp add: expect_def run_simps bind_peek seq_shift)

lemma behind_1:
  fixes s :: yy_state
  shows "s\<lparr>yy_input := ls, yy_char := None, yy_compiler := (yy_compiler s)\<lparr>c_heap := (yy_heap s)\<lparr>h_next := Suc (h_next (yy_heap s))\<rparr>\<rparr>\<rparr> =
     behind s ls 1"
  by (simp add: behind_def)

lemma reads_list: "(\<And>v. v \<in> set vs \<Longrightarrow> reads_value v) \<Longrightarrow> reads_value (T_list vs)"
  unfolding reads_value_def [of "T_list vs"]
proof (intro allI impI)
  fix n ls and s :: yy_state
  assume vs: "\<And>v. v \<in> set vs \<Longrightarrow> reads_value v" and n: "2 * length (const_lexemes (T_list vs)) \<le> n"
    and s: "yy_char s = None" "yy_input s = const_lexemes (T_list vs) @ ls"
  obtain k where k: "n = Suc k" using n by (cases n) auto
  let ?w = "set_list (new_const_value (h_next (yy_heap s)))" and ?ls = "list_lexemes vs @ Token (Sym (CHR '']'')) # ls"
  obtain xs m where xs: "ConstListContents k ?w (behind s ?ls 1) =
      (Ok (set_listVal (cv_listVal ?w @ xs) ?w), (behind (behind s ?ls 1) ls m)\<lparr>yy_char := Some (Sym (CHR '']''))\<rparr>)"
      "list_all2 denotes vs xs"
    using reads_list_contents [OF vs, of vs k "behind s ?ls 1" ls ?w] n k by auto
  then have "ConstValue n s = (Ok (set_listVal xs ?w), behind s ls (1 + m))"
    using s k by (simp add: bind_peek seq_shift run_simps new_value_run behind_1 [simplified] expect_peeked_run new_const_value_def)
  moreover have "denotes (T_list vs) (set_listVal xs ?w)" using xs(2) by (simp add: new_const_value_def)
  ultimately show "\<exists>cv m. ConstValue n s = (Ok cv, behind s ls m) \<and> denotes (T_list vs) cv \<and>
      h_next (yy_heap s) \<le> cv_addr cv \<and> cv_addr cv < h_next (yy_heap s) + m"
    by (intro exI [of _ "set_listVal xs ?w"] exI [of _ "1 + m"]) (simp add: new_const_value_def)
qed

lemma reads_map: "(\<And>k v. (k, v) \<in> set kvs \<Longrightarrow> reads_value k \<and> reads_value v) \<Longrightarrow> reads_value (T_map kvs)"
  unfolding reads_value_def [of "T_map kvs"]
proof (intro allI impI)
  fix n ls and s :: yy_state
  assume kvs: "\<And>k v. (k, v) \<in> set kvs \<Longrightarrow> reads_value k \<and> reads_value v" and n: "2 * length (const_lexemes (T_map kvs)) \<le> n"
    and s: "yy_char s = None" "yy_input s = const_lexemes (T_map kvs) @ ls"
  obtain k where k: "n = Suc k" using n by (cases n) auto
  let ?w = "set_map (new_const_value (h_next (yy_heap s)))"
    and ?ls = "concat (map entry_lexemes kvs) @ Token (Sym (CHR ''}'')) # ls"
  obtain xs m where xs: "ConstMapContents k ?w (behind s ?ls 1) =
      (Ok (set_mapVal (cv_mapVal ?w @ xs) ?w), (behind (behind s ?ls 1) ls m)\<lparr>yy_char := Some (Sym (CHR ''}''))\<rparr>)"
      "list_all2 (\<lambda>(k, v) (k', v'). denotes k k' \<and> denotes v v') kvs xs"
    using reads_map_contents [OF kvs, of kvs k "behind s ?ls 1" ls ?w] n k by (auto simp: new_const_value_def)
  then have "ConstValue n s = (Ok (set_mapVal xs ?w), behind s ls (1 + m))"
    using s k by (simp add: bind_peek seq_shift run_simps new_value_run behind_1 [simplified] expect_peeked_run new_const_value_def)
  moreover have "denotes (T_map kvs) (set_mapVal xs ?w)" using xs(2) by (simp add: new_const_value_def)
  ultimately show "\<exists>cv m. ConstValue n s = (Ok cv, behind s ls m) \<and> denotes (T_map kvs) cv \<and>
      h_next (yy_heap s) \<le> cv_addr cv \<and> cv_addr cv < h_next (yy_heap s) + m"
    by (intro exI [of _ "set_mapVal xs ?w"] exI [of _ "1 + m"]) (simp add: new_const_value_def)
qed

lemma reads_value: "reads_value v"
  by (induction v) (auto intro: reads_simple reads_list reads_map simp: fsts.simps snds.simps)



end
