(* ===== verification/Enum_Reading.thy ===== *)
theory Enum_Reading
  imports Const_Reading
begin

text \<open>
  Enumerations as they are written, and the values the parser gives to their enumerators.
\<close>

text \<open>An enumerator is its name and the value written for it, if any.\<close>

type_synonym enumerator = "string \<times> int option"

fun enumerator_lexemes :: "enumerator \<Rightarrow> lexeme list" where
  "enumerator_lexemes (name, Some i) =
     [Token (tok_identifier name), Token (Sym (CHR ''='')), Token (tok_int_constant i), Token (Sym (CHR '',''))]"
| "enumerator_lexemes (name, None) = [Token (tok_identifier name), Token (Sym (CHR '',''))]"

text \<open>
  The value of the enumerator at a position: what is written there, or one more than the value before it; the count
  starts with zero. An enumeration is in order when every value fits into 32 bits and no name with a dot in
  it is left to the count.
\<close>

fun value_at :: "enumerator list \<Rightarrow> nat \<Rightarrow> int" where
  "value_at vs k = (case snd (vs ! k) of Some i \<Rightarrow> i | None \<Rightarrow> if k = 0 then 0 else value_at vs (k - 1) + 1)"

declare value_at.simps [simp del]

definition enumerator_ok :: "enumerator list \<Rightarrow> nat \<Rightarrow> bool" where
  "enumerator_ok vs k \<longleftrightarrow>
     INT32_MIN \<le> value_at vs k \<and> value_at vs k \<le> INT32_MAX \<and> (snd (vs ! k) = None \<longrightarrow> CHR ''.'' \<notin> set (fst (vs ! k)))"

text \<open>One enumerator, with the comma behind it; the heap stays as it is.\<close>

lemma CaptureDocText_run:
  "\<exists>d g. bindA CaptureDocText f s = f d (s\<lparr>yy_compiler := (yy_compiler s)\<lparr>c_doc := g\<rparr>\<rparr>)"
proof (cases "g_parse_mode (yy_compiler s) = PROGRAM")
  case True
  then show ?thesis by (auto simp: CaptureDocText_def bind_mode run_simps seq_on_doc)
next
  case False
  then have "bindA CaptureDocText f s = f None (s\<lparr>yy_compiler := (yy_compiler s)\<lparr>c_doc := c_doc (yy_compiler s)\<rparr>\<rparr>)"
    by (simp add: CaptureDocText_def bind_mode run_simps)
  then show ?thesis by blast
qed

lemma document_run:
  fixes v :: t_enum_value
  shows "\<exists>w g. bindA (document d v) f s = f w (s\<lparr>yy_compiler := (yy_compiler s)\<lparr>c_doc := g\<rparr>\<rparr>) \<and>
    ev_name w = ev_name v \<and> ev_value w = ev_value v"
proof (cases d)
  case None
  then have "bindA (document d v) f s = f v (s\<lparr>yy_compiler := (yy_compiler s)\<lparr>c_doc := c_doc (yy_compiler s)\<rparr>\<rparr>)"
    by (simp add: document_def run_simps)
  then show ?thesis by blast
next
  case (Some x)
  then have "bindA (document d v) f s = f (v\<lparr>doc := x, has_doc := True\<rparr>)
      (s\<lparr>yy_compiler := (yy_compiler s)\<lparr>c_doc := snd (set_doc x v (c_doc (yy_compiler s)))\<rparr>\<rparr>)"
    by (simp add: document_def run_simps seq_on_doc set_doc_def)
  moreover have "ev_name (v\<lparr>doc := x, has_doc := True\<rparr>) = ev_name v" "ev_value (v\<lparr>doc := x, has_doc := True\<rparr>) = ev_value v" by simp_all
  ultimately show ?thesis by blast
qed

lemma check_name_dot:
  "CHR ''.'' \<in> set name \<Longrightarrow>
     seqA (check_name name) m s = (Exit (''Identifier '' @ name @ '' can't have a dot.''), s)"
  by (auto simp: check_name_def validate_simple_identifier_def seqA_def bindA_def getsO_def split: option.splits)

lemma EnumDef_run:
  assumes "yy_char s = Some (tok_identifier name)" "Token (tok_identifier name) # yy_input s = enumerator_lexemes (name, v) @ ls"
    "INT32_MIN - 1 \<le> y_enum_val s" "y_enum_val s \<le> INT32_MAX" "i = (case v of Some i \<Rightarrow> i | None \<Rightarrow> y_enum_val s + 1)"
  shows "if INT32_MIN \<le> i \<and> i \<le> INT32_MAX \<and> (v = None \<longrightarrow> CHR ''.'' \<notin> set name)
    then \<exists>w s'. EnumDef n s = (Ok w, s') \<and> ev_name w = name \<and> ev_value w = i \<and> yy_heap s' = yy_heap s \<and> y_enum_val s' = i \<and>
      yy_char s' = None \<and> yy_input s' = ls
    else \<exists>msg. fst (EnumDef n s) = Exit msg"
proof -
  obtain d g where run: "EnumDef n s = bindA EnumValue (\<lambda>v. bindA (TypeAnnotations n) (\<lambda>as. seqA CommaOrSemicolonOptional
      (bindA (document d v) (\<lambda>v. returnA (case as of None \<Rightarrow> v | Some as \<Rightarrow> v\<lparr>ev_annotations := as\<rparr>)))))
      (s\<lparr>yy_compiler := (yy_compiler s)\<lparr>c_doc := g\<rparr>\<rparr>)"
    using CaptureDocText_run [where s = s] unfolding EnumDef_def by blast
  show ?thesis
  proof (cases "INT32_MIN \<le> i \<and> i \<le> INT32_MAX \<and> (v = None \<longrightarrow> CHR ''.'' \<notin> set name)")
    case True
    have "\<exists>t. EnumDef n s = bindA (document d (new_enum_value name i)) (\<lambda>v. returnA v) t \<and> yy_heap t = yy_heap s \<and>
        y_enum_val t = i \<and> yy_char t = None \<and> yy_input t = ls"
      using assms True unfolding run
      by (cases v) (auto simp: EnumValue_def TypeAnnotations_def grammar_steps check_name_run to_int32_id intro!: exI)
    then obtain t where t: "EnumDef n s = bindA (document d (new_enum_value name i)) (\<lambda>v. returnA v) t" "yy_heap t = yy_heap s"
        "y_enum_val t = i" "yy_char t = None" "yy_input t = ls" by blast
    moreover obtain w g' where "bindA (document d (new_enum_value name i)) (\<lambda>v. returnA v) t =
        returnA w (t\<lparr>yy_compiler := (yy_compiler t)\<lparr>c_doc := g'\<rparr>\<rparr>)" "ev_name w = name" "ev_value w = i"
      using document_run [of d "new_enum_value name i" "\<lambda>v. returnA v" t] by (auto simp: new_enum_value_def)
    ultimately show ?thesis using True by (simp add: run_simps)
  next
    case False
    then show ?thesis
      using assms unfolding run
      by (cases v; cases "CHR ''.'' \<in> set name")
        (auto simp: EnumValue_def grammar_steps failure_def check_name_run check_name_dot)
  qed
qed

lemma exit_run: "fst (m s) = Exit msg \<Longrightarrow> fst (bindA m f s) = Exit msg"
  by (cases "m s") (simp add: bindA_def)

text \<open>The enumerators behind a position, when those before it have been read.\<close>

lemma EnumDefList_run:
  assumes "k \<le> length vs" "length vs - k < n" "yy_char s = None"
    "yy_input s = concat (map enumerator_lexemes (drop k vs)) @ Token (Sym (CHR ''}'')) # ls"
    "y_enum_val s = (if k = 0 then - 1 else value_at vs (k - 1))" "\<forall>j<k. enumerator_ok vs j"
    "h_types (yy_heap s) ea = Some (Enum e)"
  shows "if \<forall>j<length vs. enumerator_ok vs j
    then \<exists>s' e'. EnumDefList n ea s = (Ok (), s') \<and> h_types (yy_heap s') ea = Some (Enum e') \<and>
      map (\<lambda>c. (ev_name c, ev_value c)) (en_constants e') =
        map (\<lambda>c. (ev_name c, ev_value c)) (en_constants e) @ map (\<lambda>j. (fst (vs ! j), value_at vs j)) [k..<length vs]
    else \<exists>msg. fst (EnumDefList n ea s) = Exit msg"
  using assms
proof (induction "length vs - k" arbitrary: k n s e)
  case 0
  then obtain m where "n = Suc m" by (cases n) auto
  with 0 show ?case by (simp add: bind_peek run_simps)
next
  case (Suc d)
  then obtain m where m: "n = Suc m" by (cases n) auto
  obtain name v where v: "vs ! k = (name, v)" by fastforce
  have k: "k < length vs" and drop: "drop k vs = (name, v) # drop (Suc k) vs"
    using Suc.hyps(2) v by (simp_all flip: Cons_nth_drop_Suc)
  let ?rest = "concat (map enumerator_lexemes (drop (Suc k) vs)) @ Token (Sym (CHR ''}'')) # ls"
  obtain ts where ts: "yy_input s = Token (tok_identifier name) # ts"
      "Token (tok_identifier name) # ts = enumerator_lexemes (name, v) @ ?rest"
    using Suc.prems(4) drop by (cases v) auto
  let ?s = "s\<lparr>yy_input := ts, yy_char := Some (tok_identifier name)\<rparr>"
  have before: "INT32_MIN - 1 \<le> y_enum_val s" "y_enum_val s \<le> INT32_MAX"
    using Suc.prems(5,6) by (auto simp: enumerator_ok_def dest!: spec [of _ "k - 1"] split: if_splits)
  have "value_at vs k = (case v of Some i \<Rightarrow> i | None \<Rightarrow> y_enum_val ?s + 1)"
    using Suc.prems(5) by (simp add: value_at.simps [of _ k] v split: option.split)
  note read = EnumDef_run [of ?s name v ?rest "value_at vs k" m, OF _ _ _ _ this]
  show ?case
  proof (cases "enumerator_ok vs k")
    case True
    then obtain w s' where w: "EnumDef m ?s = (Ok w, s')" "ev_name w = name" "ev_value w = value_at vs k" "yy_heap s' = yy_heap s"
        "y_enum_val s' = value_at vs k" "yy_char s' = None" "yy_input s' = ?rest"
      using read ts before v by (auto simp: enumerator_ok_def)
    let ?t = "s'\<lparr>yy_compiler := (yy_compiler s')\<lparr>c_heap := put_type ea (Enum (enum_append w e)) (yy_heap s')\<rparr>\<rparr>"
    have step: "EnumDefList n ea s = EnumDefList m ea ?t"
      using w ts(1) Suc.prems(3,7) by (simp add: m bind_peek run_simps append_enum_value_def type_run set_type_run)
    have "if \<forall>j<length vs. enumerator_ok vs j
      then \<exists>s' e'. EnumDefList m ea ?t = (Ok (), s') \<and> h_types (yy_heap s') ea = Some (Enum e') \<and>
        map (\<lambda>c. (ev_name c, ev_value c)) (en_constants e') =
          map (\<lambda>c. (ev_name c, ev_value c)) (en_constants (enum_append w e)) @
          map (\<lambda>j. (fst (vs ! j), value_at vs j)) [Suc k..<length vs]
      else \<exists>msg. fst (EnumDefList m ea ?t) = Exit msg"
      by (rule Suc.hyps(1)) (use Suc.hyps(2) Suc.prems(2,6) True m k w in \<open>auto simp: less_Suc_eq\<close>)
    moreover have "[k..<length vs] = k # [Suc k..<length vs]" using k by (rule upt_conv_Cons)
    ultimately show ?thesis unfolding step using w v by (auto simp: enum_append_def split: if_splits)
  next
    case False
    then obtain msg where "fst (EnumDef m ?s) = Exit msg"
      using read ts before v by (auto simp: enumerator_ok_def)
    then have "fst (EnumDefList n ea s) = Exit msg"
      using ts(1) Suc.prems(3) by (simp add: m bind_peek exit_run)
    with False k show ?thesis by auto
  qed
qed



end
