(* ===== verification/Generator.thy ===== *)
theory Generator
  imports Driver
begin

text \<open>
  The base class of the code generators (\<^verbatim>\<open>t_generator.h\<close>, \<^verbatim>\<open>t_generator.cc\<close>), the utilities
  of the object-oriented ones (\<^verbatim>\<open>t_oop_generator.h\<close>) and the registry
  (\<^verbatim>\<open>t_generator_registry.h\<close>): naming helpers, escaping, indentation, documentation comments,
  the parsing of a generator specification, and the walk over a program that calls the virtual
  methods of a generator. A generator is a record that the generators of single languages extend;
  its virtual methods are a record of actions.
\<close>

section \<open>The generator object\<close>

text \<open>
  The parse tree is reached through the generator's heap; \<open>gn_files\<close> are the files closed so far
  with their contents.
\<close>

record t_generator =
  gn_heap :: heap
  gn_program :: addr
  gn_program_name :: string
  gn_service_name :: string
  gn_out_dir_base :: string
  gn_escape :: "(char \<times> string) list"
  gn_indent :: int
  gn_tmp :: int
  gn_files :: "(string \<times> string) list"

text \<open>The escapes the constructor stores in \<^verbatim>\<open>escape_\<close>.\<close>

definition default_escape :: "(char \<times> string) list" where
  "default_escape =
     smap_set (CHR 0x5C) [CHR 0x5C, CHR 0x5C]
      (smap_set (CHR 0x22) [CHR 0x5C, CHR 0x22]
        (smap_set (CHR 0x09) [CHR 0x5C, CHR ''t'']
          (smap_set (CHR 0x0D) [CHR 0x5C, CHR ''r'']
            (smap_set (CHR 0x0A) [CHR 0x5C, CHR ''n''] []))))"

definition new_generator :: "heap \<Rightarrow> addr \<Rightarrow> string \<Rightarrow> t_generator outcome" where
  "new_generator h pa out_dir_base =
     bind_outcome (deref (h_programs h pa)) (\<lambda>p.
       Ok \<lparr>gn_heap = h, gn_program = pa, gn_program_name = pr_name p, gn_service_name = '''',
           gn_out_dir_base = out_dir_base, gn_escape = default_escape, gn_indent = 0, gn_tmp = 0,
           gn_files = []\<rparr>)"

definition escape_string :: "(char \<times> string) list \<Rightarrow> string \<Rightarrow> string" where
  "escape_string esc s =
     concat (map (\<lambda>c. case smap_find esc c of Some r \<Rightarrow> r | None \<Rightarrow> [c]) s)"

definition get_escaped_string :: "(char \<times> string) list \<Rightarrow> t_const_value \<Rightarrow> string" where
  "get_escaped_string esc cv = escape_string esc (cv_stringVal cv)"

definition this_program :: "('a t_generator_scheme, t_program) action" where
  "this_program = getsO (\<lambda>g. deref (h_programs (gn_heap g) (gn_program g)))"

definition get_out_dir :: "t_program \<Rightarrow> string \<Rightarrow> string" where
  "get_out_dir p out_dir_base =
     (if pr_out_path_is_absolute p then pr_out_path p @ ''/''
      else pr_out_path p @ out_dir_base @ ''/'')"

definition tmp :: "string \<Rightarrow> ('a t_generator_scheme, string) action" where
  "tmp name =
     bindA (gets gn_tmp) (\<lambda>n.
       seqA (modify (\<lambda>g. g\<lparr>gn_tmp := n + 1\<rparr>)) (returnA (name @ show_int n)))"

definition indent_up :: "('a t_generator_scheme, unit) action" where
  "indent_up = modify (\<lambda>g. g\<lparr>gn_indent := gn_indent g + 1\<rparr>)"

definition indent_down :: "('a t_generator_scheme, unit) action" where
  "indent_down = modify (\<lambda>g. g\<lparr>gn_indent := gn_indent g - 1\<rparr>)"

definition spaces :: "int \<Rightarrow> string" where
  "spaces i = concat (replicate (nat i) ''  '')"

definition indent :: "'a t_generator_scheme \<Rightarrow> string" where
  "indent g = spaces (gn_indent g)"

text \<open>Text between double quotes.\<close>

definition in_quotes :: "string \<Rightarrow> string" where
  "in_quotes s = CHR 0x22 # s @ [CHR 0x22]"

section \<open>Naming helpers\<close>

definition capitalize :: "string \<Rightarrow> string" where
  "capitalize s = (case s of [] \<Rightarrow> [] | c # cs \<Rightarrow> to_upper c # cs)"

definition decapitalize :: "string \<Rightarrow> string" where
  "decapitalize s = (case s of [] \<Rightarrow> [] | c # cs \<Rightarrow> to_lower c # cs)"

definition lowercase :: "string \<Rightarrow> string" where
  "lowercase s = map to_lower s"

definition uppercase :: "string \<Rightarrow> string" where
  "uppercase s = map to_upper s"

text \<open>
  The loop of \<^verbatim>\<open>underscore\<close> from the current position on: an upper-case letter becomes
  lower-case behind an inserted underscore, and the next iteration looks at it again.
\<close>

function underscore_loop :: "string \<Rightarrow> string" where
  "underscore_loop [] = []"
| "underscore_loop (c # cs) =
     (if is_upper c then CHR ''_'' # underscore_loop (to_lower c # cs) else c # underscore_loop cs)"
  by pat_completeness auto
termination
  by (relation "measure (\<lambda>s. length s + 2 * length (filter is_upper s))") auto

definition underscore :: "string \<Rightarrow> string" where
  "underscore s = (case s of [] \<Rightarrow> [] | c # cs \<Rightarrow> to_lower c # underscore_loop cs)"

fun camelcase_loop :: "bool \<Rightarrow> string \<Rightarrow> string" where
  "camelcase_loop u [] = []"
| "camelcase_loop u (c # cs) =
     (if c = CHR ''_'' then camelcase_loop True cs
      else if u then to_upper c # camelcase_loop False cs
      else c # camelcase_loop u cs)"

definition camelcase :: "string \<Rightarrow> string" where
  "camelcase s = camelcase_loop False s"

definition upcase_string :: "string \<Rightarrow> string" where
  "upcase_string s = map to_upper s"

section \<open>Documentation comments\<close>

text \<open>
  The lines that \<^verbatim>\<open>getline(line, 1024)\<close> delivers, each with whether the stream is at its end
  afterwards. A line of 1024 characters or more fills the buffer, sets the stream's fail bit and
  ends the loop.
\<close>

function docstring_lines :: "string \<Rightarrow> (string \<times> bool) list" where
  "docstring_lines s =
     (let line = takeWhile (\<lambda>c. c \<noteq> CHR 0x0A) s
      in if length line > 1023 then [(take 1023 s, False)]
         else if length line = length s then [(line, True)]
         else (line, False) # docstring_lines (drop (Suc (length line)) s))"
  by pat_completeness auto
termination
proof (relation "measure length", goal_cases)
  case (2 s line)
  then have "length line \<le> length s" using length_takeWhile_le by blast
  with 2 show ?case by simp
qed simp

declare docstring_lines.simps [simp del]

definition c_string :: "string \<Rightarrow> string" where
  "c_string s = takeWhile (\<lambda>c. c \<noteq> CHR 0x00) s"

definition docstring_line :: "string \<Rightarrow> string \<Rightarrow> string \<times> bool \<Rightarrow> string" where
  "docstring_line ind line_prefix = (\<lambda>(line, eof).
     if c_string line = [] \<and> line_prefix = [] \<and> \<not> eof then [CHR 0x0A]
     else if c_string line \<noteq> [] \<or> \<not> eof then ind @ line_prefix @ c_string line @ [CHR 0x0A]
     else [])"

definition generate_docstring_comment :: "string \<Rightarrow> string \<Rightarrow> string \<Rightarrow> string \<Rightarrow> string \<Rightarrow> string" where
  "generate_docstring_comment ind comment_start line_prefix contents comment_end =
     (if comment_start \<noteq> [] then ind @ comment_start else []) @
     concat (map (docstring_line ind line_prefix) (docstring_lines contents)) @
     (if comment_end \<noteq> [] then ind @ comment_end else [])"

section \<open>Utilities of the object-oriented generators\<close>

definition scope_up :: "('a t_generator_scheme, string) action" where
  "scope_up = bindA (gets indent) (\<lambda>ind. seqA indent_up (returnA (ind @ ''{'' @ [CHR 0x0A])))"

definition scope_down :: "('a t_generator_scheme, string) action" where
  "scope_down = seqA indent_down (bindA (gets indent) (\<lambda>ind. returnA (ind @ ''}'' @ [CHR 0x0A])))"

text \<open>\<^verbatim>\<open>THRIFT_VERSION\<close> comes from the configuration of the build.\<close>

definition autogen_summary :: "string \<Rightarrow> string" where
  "autogen_summary thrift_version = ''Autogenerated by Thrift Compiler ('' @ thrift_version @ '')''"

definition autogen_comment :: "string \<Rightarrow> string" where
  "autogen_comment thrift_version =
     ''/**'' @ [CHR 0x0A] @ '' * '' @ autogen_summary thrift_version @ [CHR 0x0A] @ '' *'' @ [CHR 0x0A] @
     '' * DO NOT EDIT UNLESS YOU ARE SURE THAT YOU KNOW WHAT YOU ARE DOING'' @ [CHR 0x0A] @
     '' *  @generated'' @ [CHR 0x0A] @ '' */'' @ [CHR 0x0A]"

definition get_enum_class_name :: "heap \<Rightarrow> addr \<Rightarrow> t_type_obj \<Rightarrow> string outcome" where
  "get_enum_class_name h this t =
     (case get_program t of
        None \<Rightarrow> Ok (get_name t)
      | Some pa \<Rightarrow>
          if pa = this then Ok (get_name t)
          else bind_outcome (deref (h_programs h pa)) (\<lambda>p.
                 Ok (get_namespace p ''java'' @ ''.'' @ get_name t)))"

definition generate_java_docstring_comment :: "string \<Rightarrow> string \<Rightarrow> string" where
  "generate_java_docstring_comment ind contents =
     generate_docstring_comment ind (''/**'' @ [CHR 0x0A]) '' * '' contents ('' */'' @ [CHR 0x0A])"

definition generate_java_doc :: "string \<Rightarrow> 'a t_doc_scheme \<Rightarrow> string" where
  "generate_java_doc ind tdoc =
     (if has_doc tdoc then generate_java_docstring_comment ind (doc tdoc) else [])"

text \<open>For a field of an enum type the comment is written also when the field has no documentation.\<close>

definition generate_java_doc_field :: "heap \<Rightarrow> addr \<Rightarrow> string \<Rightarrow> t_field \<Rightarrow> string outcome" where
  "generate_java_doc_field h this ind f =
     bind_outcome (deref (h_types h (fl_type f))) (\<lambda>t.
       if is_enum t
       then bind_outcome (get_enum_class_name h this t) (\<lambda>name.
              Ok (generate_java_docstring_comment ind (doc f @ [CHR 0x0A] @ ''@see '' @ name)))
       else Ok (generate_java_doc ind f))"

fun java_doc_params :: "heap \<Rightarrow> addr list \<Rightarrow> string outcome" where
  "java_doc_params h [] = Ok []"
| "java_doc_params h (fa # fas) =
     bind_outcome (deref (h_fields h fa)) (\<lambda>f.
     bind_outcome (java_doc_params h fas) (\<lambda>rest.
       Ok ([CHR 0x0A] @ ''@param '' @ fl_name f @ (if has_doc f then '' '' @ doc f else []) @ rest)))"

definition generate_java_doc_function :: "heap \<Rightarrow> string \<Rightarrow> t_function \<Rightarrow> string outcome" where
  "generate_java_doc_function h ind fn =
     (if has_doc fn
      then bind_outcome (deref (h_types h (fn_arglist fn))) (\<lambda>t.
             (case t of
                Struct st \<Rightarrow>
                  bind_outcome (java_doc_params h (st_members st)) (\<lambda>params.
                    Ok (generate_java_docstring_comment ind (doc fn @ params)))
              | _ \<Rightarrow> Undefined))
      else Ok [])"

section \<open>The registry\<close>

text \<open>A factory makes a generator from a program, the parsed options and the specification.\<close>

type_synonym 'g factory = "addr \<Rightarrow> (string \<times> string) list \<Rightarrow> string \<Rightarrow> 'g"

definition register_generator :: "string \<Rightarrow> 'g factory \<Rightarrow> (string \<times> 'g factory) list \<Rightarrow> (string \<times> 'g factory) list outcome" where
  "register_generator short_name factory the_map =
     (if smap_find the_map short_name \<noteq> None
      then Exit (''Duplicate generators for language \"'' @ short_name @ ''\"!'')
      else Ok (smap_set short_name factory the_map))"

text \<open>The loop over the options, on the part of the specification that is still to be read.\<close>

function parse_options :: "string \<Rightarrow> (string \<times> string) list \<Rightarrow> (string \<times> string) list" where
  "parse_options s opts =
     (if s = [] then opts
      else
        let option = (case find_char (CHR '','') s of None \<Rightarrow> s | Some i \<Rightarrow> take i s);
            rest = (case find_char (CHR '','') s of None \<Rightarrow> [] | Some i \<Rightarrow> drop (Suc i) s);
            (key, val) = (case find_char (CHR ''='') option of
                            None \<Rightarrow> (option, [])
                          | Some j \<Rightarrow> (take j option, drop (Suc j) option))
        in parse_options rest (smap_set key val opts))"
  by pat_completeness auto
termination
  by (relation "measure (\<lambda>(s, opts). length s)") (auto split: option.splits)

declare parse_options.simps [simp del]

definition generator_language :: "string \<Rightarrow> string" where
  "generator_language spec = (case find_char (CHR '':'') spec of None \<Rightarrow> spec | Some i \<Rightarrow> take i spec)"

definition generator_options :: "string \<Rightarrow> (string \<times> string) list" where
  "generator_options spec =
     (case find_char (CHR '':'') spec of None \<Rightarrow> [] | Some i \<Rightarrow> parse_options (drop (Suc i) spec) [])"

definition get_generator :: "(string \<times> 'g factory) list \<Rightarrow> addr \<Rightarrow> string \<Rightarrow> 'g option" where
  "get_generator the_map program spec =
     (case smap_find the_map (generator_language spec) of
        None \<Rightarrow> None
      | Some factory \<Rightarrow> Some (factory program (generator_options spec) spec))"

section \<open>The walk over a program\<close>

text \<open>The virtual methods of a generator whose state extends the base class by \<open>'a\<close>.\<close>

record 'a gen_hooks =
  hk_init_generator :: "('a t_generator_scheme, unit) action"
  hk_close_generator :: "('a t_generator_scheme, unit) action"
  hk_generate_consts :: "t_const list \<Rightarrow> ('a t_generator_scheme, unit) action"
  hk_generate_typedef :: "addr \<Rightarrow> ('a t_generator_scheme, unit) action"
  hk_generate_enum :: "addr \<Rightarrow> ('a t_generator_scheme, unit) action"
  hk_generate_struct :: "addr \<Rightarrow> ('a t_generator_scheme, unit) action"
  hk_generate_service :: "addr \<Rightarrow> ('a t_generator_scheme, unit) action"
  hk_generate_forward_declaration :: "addr \<Rightarrow> ('a t_generator_scheme, unit) action"
  hk_generate_xception :: "addr \<Rightarrow> ('a t_generator_scheme, unit) action"

definition generate_consts :: "(t_const \<Rightarrow> ('s, unit) action) \<Rightarrow> t_const list \<Rightarrow> ('s, unit) action" where
  "generate_consts generate_const consts = for_each consts generate_const"

definition type_at :: "addr \<Rightarrow> ('a t_generator_scheme, t_type_obj) action" where
  "type_at ty = getsO (\<lambda>g. deref (h_types (gn_heap g) ty))"

definition generate_object :: "'a gen_hooks \<Rightarrow> addr \<Rightarrow> ('a t_generator_scheme, unit) action" where
  "generate_object hk oa =
     bindA (type_at oa) (\<lambda>t.
       if is_xception t then hk_generate_xception hk oa else hk_generate_struct hk oa)"

definition generate_service_named :: "'a gen_hooks \<Rightarrow> addr \<Rightarrow> ('a t_generator_scheme, unit) action" where
  "generate_service_named hk sa =
     bindA (type_at sa) (\<lambda>t.
       seqA (modify (\<lambda>g. g\<lparr>gn_service_name := get_name t\<rparr>)) (hk_generate_service hk sa))"

definition generate_program :: "'a gen_hooks \<Rightarrow> ('a t_generator_scheme, unit) action" where
  "generate_program hk =
     block
      [hk_init_generator hk,
       bindA this_program (\<lambda>p. for_each (pr_enums p) (hk_generate_enum hk)),
       bindA this_program (\<lambda>p. for_each (pr_typedefs p) (hk_generate_typedef hk)),
       bindA this_program (\<lambda>p.
         seqA (for_each (pr_objects p) (hk_generate_forward_declaration hk))
              (for_each (pr_objects p) (generate_object hk))),
       bindA this_program (\<lambda>p. hk_generate_consts hk (pr_consts p)),
       bindA this_program (\<lambda>p. for_each (pr_services p) (generate_service_named hk)),
       hk_close_generator hk]"

section \<open>Code generation for a program and its includes\<close>

text \<open>
  The state of the generation phase: the parse tree and what was printed to the terminal. A
  generator is an action on it; the files it writes are its own.
\<close>

record world =
  w_heap :: heap
  w_stdout :: "string list"

definition print_line :: "string \<Rightarrow> (world, unit) action" where
  "print_line s = modify (\<lambda>w. w\<lparr>w_stdout := w_stdout w @ [s]\<rparr>)"

definition doc_entry :: "string \<Rightarrow> string \<Rightarrow> 'a t_doc_scheme \<Rightarrow> (world, unit) action" where
  "doc_entry kind name tdoc =
     whenA (has_doc tdoc) (print_line (kind @ '' '' @ name @ '':'' @ [CHR 0x0A] @ doc tdoc))"

definition doc_entries :: "string \<Rightarrow> addr list \<Rightarrow> (world, unit) action" where
  "doc_entries kind tys =
     for_each tys (\<lambda>ty. bindA (getsO (\<lambda>w. deref (h_types (w_heap w) ty))) (\<lambda>t.
       doc_entry kind (get_name t) (type_part t)))"

definition dump_docstrings :: "addr \<Rightarrow> (world, unit) action" where
  "dump_docstrings pa =
     bindA (getsO (\<lambda>w. deref (h_programs (w_heap w) pa))) (\<lambda>p.
       block
        [whenA (doc p \<noteq> []) (print_line (''Whole program doc:'' @ [CHR 0x0A] @ doc p)),
         doc_entries ''typedef'' (pr_typedefs p),
         doc_entries ''enum'' (pr_enums p),
         for_each (pr_consts p) (\<lambda>c. doc_entry ''const'' (co_name c) c),
         doc_entries ''struct'' (pr_structs p),
         doc_entries ''xception'' (pr_xceptions p),
         doc_entries ''service'' (pr_services p)])"

text \<open>
  \<^verbatim>\<open>generate_all_fingerprints\<close>, over the fuel of \<^verbatim>\<open>generate_fingerprint\<close>;
  \<open>g_type_void\<close> is the address of the global type.
\<close>

definition generate_all_fingerprints :: "nat \<Rightarrow> nat \<Rightarrow> addr \<Rightarrow> addr \<Rightarrow> (heap, unit) action" where
  "generate_all_fingerprints n k g_type_void pa =
     bindA (getsO (\<lambda>h. deref (h_programs h pa))) (\<lambda>p.
       block
        [for_each (pr_structs p) (generate_fingerprint n k),
         for_each (pr_xceptions p) (generate_fingerprint n k),
         for_each (pr_enums p) (generate_fingerprint n k),
         generate_fingerprint n k g_type_void])"

text \<open>A thrown string or C string is printed and forgotten.\<close>

definition catch_print :: "(world, unit) action \<Rightarrow> (world, unit) action" where
  "catch_print m w =
     (case m w of (Throw e, w') \<Rightarrow> print_line (''Error: '' @ e) w' | r \<Rightarrow> r)"

record gen_env =
  ge_recurse :: bool
  ge_dump_docs :: bool
  ge_generators :: "(string \<times> (world, unit) action factory) list"

definition run_generator :: "gen_env \<Rightarrow> addr \<Rightarrow> string \<Rightarrow> (world, unit) action" where
  "run_generator env pa spec =
     (case get_generator (ge_generators env) pa spec of
        None \<Rightarrow> print_line (''Unable to get a generator for \"'' @ spec @ ''\".'')
      | Some generator \<Rightarrow> generator)"

definition generate_here :: "gen_env \<Rightarrow> string list \<Rightarrow> addr \<Rightarrow> (world, unit) action" where
  "generate_here env generator_strings pa =
     catch_print
       (seqA (whenA (ge_dump_docs env) (dump_docstrings pa))
         (for_each generator_strings (run_generator env pa)))"

definition propagate_out_path :: "addr \<Rightarrow> addr \<Rightarrow> (world, unit) action" where
  "propagate_out_path pa ia =
     bindA (getsO (\<lambda>w. deref (h_programs (w_heap w) pa))) (\<lambda>p.
     bindA (getsO (\<lambda>w. deref (h_programs (w_heap w) ia))) (\<lambda>q.
     bindA (getsO (\<lambda>_. set_out_path (pr_out_path p) (pr_out_path_is_absolute p) q)) (\<lambda>q'.
       modify (\<lambda>w. w\<lparr>w_heap := put_program ia q' (w_heap w)\<rparr>))))"

primrec generate :: "nat \<Rightarrow> gen_env \<Rightarrow> string list \<Rightarrow> addr \<Rightarrow> (world, unit) action" where
  "generate 0 = (\<lambda>env generator_strings pa w. (Out_of_fuel, w))"
| "generate (Suc n) = (\<lambda>env generator_strings pa.
     seqA
       (whenA (ge_recurse env)
         (bindA (getsO (\<lambda>w. deref (h_programs (w_heap w) pa))) (\<lambda>p.
            for_each (pr_includes p) (\<lambda>ia.
              seqA (propagate_out_path pa ia) (generate n env generator_strings ia)))))
       (generate_here env generator_strings pa))"

section \<open>Correctness of the helpers\<close>

subsection \<open>Naming\<close>

lemma underscore_loop_simp [simp]:
  "underscore_loop (c # cs) = (if is_upper c then CHR ''_'' # to_lower c # underscore_loop cs else c # underscore_loop cs)"
  by simp

declare underscore_loop.simps(2) [simp del]

lemma to_lower_not_underscore [simp]: "is_upper c \<Longrightarrow> to_lower c \<noteq> CHR ''_''"
proof
  assume "is_upper c" "to_lower c = CHR ''_''"
  then have "(of_char (CHR ''_'') :: nat) = of_char c + 32" by (metis of_char_to_lower)
  with \<open>is_upper c\<close> show False by (simp add: is_upper_def)
qed

lemma camelcase_underscore_loop:
  "CHR ''_'' \<notin> set s \<Longrightarrow> camelcase_loop False (underscore_loop s) = s"
  by (induction s) auto

text \<open>
  C31: \<^verbatim>\<open>camelcase\<close> undoes \<^verbatim>\<open>underscore\<close> on every name without underscores that does not
  start with an upper-case letter; \<^verbatim>\<open>underscore\<close> never leaves an upper-case letter.
\<close>

theorem camelcase_underscore:
  assumes "CHR ''_'' \<notin> set s" "s = [] \<or> \<not> is_upper (hd s)"
  shows "camelcase (underscore s) = s \<and> list_all (\<lambda>c. \<not> is_upper c) (underscore s)"
proof -
  have "\<not> is_upper (CHR ''_'')" by code_simp
  then have "list_all (\<lambda>c. \<not> is_upper c) (underscore_loop cs)" for cs
    by (induction cs) auto
  then show ?thesis
    using assms by (cases s) (auto simp: camelcase_def underscore_def camelcase_underscore_loop)
qed

theorem camelcase_underscore_witness:
  "underscore ''aMultiWord'' = ''a_multi_word'' \<and> camelcase (underscore ''aMultiWord'') = ''aMultiWord''"
proof -
  have "CHR ''_'' \<notin> set ''aMultiWord''" "\<not> is_upper (hd ''aMultiWord'')" by code_simp+
  then have "camelcase (underscore ''aMultiWord'') = ''aMultiWord''"
    using camelcase_underscore [of "''aMultiWord''"] by blast
  moreover have "underscore ''aMultiWord'' = ''a_multi_word''" by code_simp
  ultimately show ?thesis by blast
qed

subsection \<open>Escaping\<close>

lemma default_escape_find [simp]:
  "smap_find default_escape c =
     (if c = CHR 0x0A then Some [CHR 0x5C, CHR ''n'']
      else if c = CHR 0x0D then Some [CHR 0x5C, CHR ''r'']
      else if c = CHR 0x09 then Some [CHR 0x5C, CHR ''t'']
      else if c = CHR 0x22 then Some [CHR 0x5C, CHR 0x22]
      else if c = CHR 0x5C then Some [CHR 0x5C, CHR 0x5C]
      else None)"
  by (simp add: default_escape_def smap_find_def)

text \<open>How a target language reads a string literal up to the closing quote.\<close>

fun read_literal :: "string \<Rightarrow> (string \<times> string) option" where
  "read_literal [] = None"
| "read_literal (c # s) =
     (if c = CHR 0x22 then Some ([], s)
      else if c = CHR 0x0A then None
      else if c = CHR 0x5C
      then (case s of
              [] \<Rightarrow> None
            | e # s' \<Rightarrow>
                (case (if e = CHR ''n'' then Some (CHR 0x0A) else if e = CHR ''r'' then Some (CHR 0x0D)
                       else if e = CHR ''t'' then Some (CHR 0x09) else if e = CHR 0x22 then Some e
                       else if e = CHR 0x5C then Some e else None) of
                   None \<Rightarrow> None
                 | Some x \<Rightarrow> map_option (\<lambda>(str, rest). (x # str, rest)) (read_literal s')))
      else map_option (\<lambda>(str, rest). (c # str, rest)) (read_literal s))"

text \<open>
  C32: A string escaped with the default table and put between double quotes is read back as the
  same string, and the literal ends at its closing quote, whatever follows.
\<close>

theorem escaped_literal_reads_back:
  "read_literal (escape_string default_escape s @ CHR 0x22 # rest) = Some (s, rest)"
proof (induction s)
  case Nil
  then show ?case by (simp add: escape_string_def)
next
  case (Cons c s)
  have "escape_string default_escape (c # s) =
      (case smap_find default_escape c of Some r \<Rightarrow> r | None \<Rightarrow> [c]) @ escape_string default_escape s"
    by (simp add: escape_string_def)
  with Cons show ?case by simp
qed

subsection \<open>Generator specifications\<close>

definition option_text :: "string \<times> string \<Rightarrow> string" where
  "option_text = (\<lambda>(k, v). k @ CHR ''='' # v)"

fun options_text :: "(string \<times> string) list \<Rightarrow> string" where
  "options_text [] = []"
| "options_text [o1] = option_text o1"
| "options_text (o1 # o2 # os) = option_text o1 @ CHR '','' # options_text (o2 # os)"

lemma option_text_nonempty [simp]: "option_text kv \<noteq> []"
  by (cases kv) (simp add: option_text_def)

lemma parse_option:
  assumes "CHR ''='' \<notin> set k" "CHR '','' \<notin> set k" "CHR '','' \<notin> set v"
  shows "parse_options (option_text (k, v)) opts = smap_set k v opts"
    and "parse_options (option_text (k, v) @ CHR '','' # rest) opts = parse_options rest (smap_set k v opts)"
proof -
  have "CHR '','' \<notin> set (option_text (k, v))" using assms by (auto simp: option_text_def)
  then have none: "find_char (CHR '','') (option_text (k, v)) = None"
    and some: "find_char (CHR '','') (option_text (k, v) @ CHR '','' # rest) = Some (length (option_text (k, v)))"
    by (simp_all add: find_char_split)
  have eq: "find_char (CHR ''='') (option_text (k, v)) = Some (length k)"
    using assms find_char_split [of "CHR ''=''" k v] by (simp add: option_text_def)
  have parts: "take (length k) (option_text (k, v)) = k" "drop (Suc (length k)) (option_text (k, v)) = v"
    by (simp_all add: option_text_def)
  show "parse_options (option_text (k, v)) opts = smap_set k v opts"
    by (subst parse_options.simps) (simp add: parse_options.simps [of "[]"] none eq parts)
  show "parse_options (option_text (k, v) @ CHR '','' # rest) opts = parse_options rest (smap_set k v opts)"
    by (subst parse_options.simps) (simp add: some eq parts)
qed

lemma parse_options_text:
  "list_all (\<lambda>(k, v). CHR ''='' \<notin> set k \<and> CHR '','' \<notin> set k \<and> CHR '','' \<notin> set v) kvs \<Longrightarrow>
   parse_options (options_text kvs) opts = foldl (\<lambda>m (k, v). smap_set k v m) opts kvs"
proof (induction kvs arbitrary: opts rule: options_text.induct)
  case 1
  then show ?case by (simp add: parse_options.simps)
next
  case (2 o1)
  then show ?case by (cases o1) (simp add: parse_option)
next
  case (3 o1 o2 os)
  then show ?case by (cases o1) (simp add: parse_option)
qed

lemma foldl_smap_set: "map_of (foldl (\<lambda>m (k, v). smap_set k v m) opts kvs) = map_of opts ++ map_of (rev kvs)"
  by (induction kvs arbitrary: opts) (auto simp: map_add_def fun_eq_iff split: option.splits)

text \<open>
  A specification \<^verbatim>\<open>lang:k1=v1,k2=v2,...\<close> selects the generator registered for the language
  and hands it the options as written, the last one for a key that is given twice; the
  language of an unregistered generator gives null.
\<close>

lemma generator_specification:
  assumes lang: "CHR '':'' \<notin> set lang"
    and opts: "list_all (\<lambda>(k, v). CHR ''='' \<notin> set k \<and> CHR '','' \<notin> set k \<and> CHR '','' \<notin> set v) kvs"
  shows "generator_language (lang @ CHR '':'' # options_text kvs) = lang \<and>
     smap_find (generator_options (lang @ CHR '':'' # options_text kvs)) = map_of (rev kvs) \<and>
     (get_generator the_map pa (lang @ CHR '':'' # options_text kvs) = None \<longleftrightarrow> smap_find the_map lang = None)"
proof -
  have colon: "find_char (CHR '':'') (lang @ CHR '':'' # options_text kvs) = Some (length lang)"
    using lang by (rule find_char_split)
  have "smap_find (generator_options (lang @ CHR '':'' # options_text kvs)) = map_of (rev kvs)"
    by (rule ext) (simp add: generator_options_def colon parse_options_text [OF opts] smap_find_def foldl_smap_set)
  with colon show ?thesis
    by (auto simp: generator_language_def get_generator_def split: option.splits)
qed

lemma generator_specification_witness:
  "generator_language ''cpp:dense=,include_prefix=x=y'' = ''cpp'' \<and>
   smap_find (generator_options ''cpp:dense=,include_prefix=x=y'') ''include_prefix'' = Some ''x=y'' \<and>
   get_generator [(''java'', \<lambda>pa opts spec. pa)] 0 ''cpp:dense=,include_prefix=x=y'' = None"
proof -
  have lang: "CHR '':'' \<notin> set ''cpp''"
    and opts: "list_all (\<lambda>(k, v). CHR ''='' \<notin> set k \<and> CHR '','' \<notin> set k \<and> CHR '','' \<notin> set v)
      [(''dense'', ''''), (''include_prefix'', ''x=y'')]"
    by code_simp+
  have spec: "''cpp'' @ CHR '':'' # options_text [(''dense'', ''''), (''include_prefix'', ''x=y'')] =
      ''cpp:dense=,include_prefix=x=y''"
    by (simp add: option_text_def)
  show ?thesis
    using generator_specification [OF lang opts, of "[(''java'', \<lambda>pa opts spec. pa)]" 0]
    unfolding spec by (simp add: smap_find_def)
qed

subsection \<open>Documentation comments\<close>

fun join_lines :: "string list \<Rightarrow> string" where
  "join_lines [] = []"
| "join_lines [l] = l"
| "join_lines (l # m # ls) = l @ CHR 0x0A # join_lines (m # ls)"

definition plain_line :: "string \<Rightarrow> bool" where
  "plain_line l \<longleftrightarrow> CHR 0x0A \<notin> set l \<and> CHR 0x00 \<notin> set l"

lemma takeWhile_line:
  "CHR 0x0A \<notin> set l \<Longrightarrow> takeWhile (\<lambda>c. c \<noteq> CHR 0x0A) (l @ CHR 0x0A # rest) = l"
  "CHR 0x0A \<notin> set l \<Longrightarrow> takeWhile (\<lambda>c. c \<noteq> CHR 0x0A) l = l"
  by (induction l) auto

lemma c_string_plain: "plain_line l \<Longrightarrow> c_string l = l"
  unfolding c_string_def plain_line_def by (simp add: takeWhile_eq_all_conv) metis

lemma docstring_lines_join:
  "ls \<noteq> [] \<Longrightarrow> list_all (\<lambda>l. plain_line l \<and> length l \<le> 1023) ls \<Longrightarrow>
   docstring_lines (join_lines ls) = map (\<lambda>l. (l, False)) (butlast ls) @ [(last ls, True)]"
proof (induction ls rule: join_lines.induct)
  case (2 l)
  then have line: "takeWhile (\<lambda>c. c \<noteq> CHR 0x0A) l = l" by (intro takeWhile_line(2)) (simp add: plain_line_def)
  from 2 show ?case by (subst docstring_lines.simps) (simp add: line)
next
  case (3 l m ls)
  then have "takeWhile (\<lambda>c. c \<noteq> CHR 0x0A) (join_lines (l # m # ls)) = l"
    using takeWhile_line(1) [of l] by (simp add: plain_line_def)
  with 3 show ?case by (subst docstring_lines.simps) simp
qed simp

lemma docstring_long_line:
  assumes "CHR 0x0A \<notin> set l" "1023 < length l"
  shows "docstring_lines (l @ rest) = [(take 1023 l, False)]"
proof -
  have "takeWhile (\<lambda>c. c \<noteq> CHR 0x0A) (l @ rest) = l @ takeWhile (\<lambda>c. c \<noteq> CHR 0x0A) rest"
    using assms(1) by (intro takeWhile_append2) auto
  with assms(2) show ?thesis by (subst docstring_lines.simps) simp
qed

text \<open>
  \<^verbatim>\<open>generate_docstring_comment\<close> writes every line of a documentation text behind the
  indentation and the line prefix, between the start and the end of the comment, and leaves out an
  empty last line, provided that no line has more than 1023 characters. A longer line
  ends the comment: only its first 1023 characters are written and all that follows is lost.
\<close>

lemma docstring_comment:
  assumes start: "comment_start \<noteq> []" "comment_end \<noteq> []" "line_prefix \<noteq> []"
  shows "(ls \<noteq> [] \<longrightarrow> list_all (\<lambda>l. plain_line l \<and> length l \<le> 1023) ls \<longrightarrow>
           generate_docstring_comment ind comment_start line_prefix (join_lines ls) comment_end =
             ind @ comment_start @
             concat (map (\<lambda>l. ind @ line_prefix @ l @ [CHR 0x0A]) (if last ls = [] then butlast ls else ls)) @
             ind @ comment_end) \<and>
         (plain_line l \<longrightarrow> 1023 < length l \<longrightarrow>
           generate_docstring_comment ind comment_start line_prefix (l @ rest) comment_end =
             ind @ comment_start @ ind @ line_prefix @ take 1023 l @ CHR 0x0A # ind @ comment_end)"
proof (intro conjI impI)
  assume ls: "ls \<noteq> []" "list_all (\<lambda>l. plain_line l \<and> length l \<le> 1023) ls"
  have line: "docstring_line ind line_prefix (l, False) = ind @ line_prefix @ l @ [CHR 0x0A]" if "l \<in> set ls" for l
    using ls(2) that start(3) by (simp add: docstring_line_def c_string_plain list_all_iff)
  have last: "docstring_line ind line_prefix (last ls, True) = (if last ls = [] then [] else ind @ line_prefix @ last ls @ [CHR 0x0A])"
    using ls by (simp add: docstring_line_def c_string_plain list_all_iff)
  have body: "concat (map (docstring_line ind line_prefix) (map (\<lambda>l. (l, False)) (butlast ls))) =
      concat (map (\<lambda>l. ind @ line_prefix @ l @ [CHR 0x0A]) (butlast ls))"
    by (intro arg_cong [where f = concat]) (auto simp: line dest!: in_set_butlastD)
  have split: "concat (map f ls) = concat (map f (butlast ls)) @ f (last ls)" for f :: "string \<Rightarrow> string"
    using ls(1) by (cases ls rule: rev_cases) simp_all
  show "generate_docstring_comment ind comment_start line_prefix (join_lines ls) comment_end =
             ind @ comment_start @
             concat (map (\<lambda>l. ind @ line_prefix @ l @ [CHR 0x0A]) (if last ls = [] then butlast ls else ls)) @
             ind @ comment_end"
    using start(1,2) body last docstring_lines_join [OF ls]
    by (simp add: generate_docstring_comment_def split [of "\<lambda>l. ind @ line_prefix @ l @ [CHR 0x0A]"])
next
  assume l: "plain_line l" "1023 < length l"
  then have "plain_line (take 1023 l)" by (auto simp: plain_line_def dest: in_set_takeD)
  moreover have "take 1023 l \<noteq> []" using l(2) by auto
  ultimately have "docstring_line ind line_prefix (take 1023 l, False) = ind @ line_prefix @ take 1023 l @ [CHR 0x0A]"
    by (simp add: docstring_line_def c_string_plain)
  with l start show "generate_docstring_comment ind comment_start line_prefix (l @ rest) comment_end =
      ind @ comment_start @ ind @ line_prefix @ take 1023 l @ CHR 0x0A # ind @ comment_end"
    by (simp add: generate_docstring_comment_def docstring_long_line plain_line_def)
qed

section \<open>The order of the walk\<close>

text \<open>
  What a generator may rely on: the walk reads the program again before each group of definitions,
  and hooks that leave the parse tree alone are called exactly once for every definition, in this
  order.
\<close>

definition program_calls :: "'a gen_hooks \<Rightarrow> t_program \<Rightarrow> ('a t_generator_scheme, unit) action list" where
  "program_calls hk p =
     [hk_init_generator hk] @ map (hk_generate_enum hk) (pr_enums p) @
     map (hk_generate_typedef hk) (pr_typedefs p) @
     map (hk_generate_forward_declaration hk) (pr_objects p) @ map (generate_object hk) (pr_objects p) @
     [hk_generate_consts hk (pr_consts p)] @ map (generate_service_named hk) (pr_services p) @
     [hk_close_generator hk]"

lemma for_each_block: "for_each xs f = block (map f xs)"
  by (induction xs) simp_all

definition at_program :: "heap \<Rightarrow> addr \<Rightarrow> 'a t_generator_scheme \<Rightarrow> bool" where
  "at_program h pa g \<longleftrightarrow> gn_heap g = h \<and> gn_program g = pa"

locale program_walk =
  fixes hk :: "'a gen_hooks"
  assumes init_keeps: "keeps (at_program h pa) (hk_init_generator hk)"
    and consts_keep: "keeps (at_program h pa) (hk_generate_consts hk cs)"
    and typedef_keeps: "keeps (at_program h pa) (hk_generate_typedef hk ty)"
    and enum_keeps: "keeps (at_program h pa) (hk_generate_enum hk ty)"
    and struct_keeps: "keeps (at_program h pa) (hk_generate_struct hk ty)"
    and service_keeps: "keeps (at_program h pa) (hk_generate_service hk ty)"
    and forward_keeps: "keeps (at_program h pa) (hk_generate_forward_declaration hk ty)"
    and xception_keeps: "keeps (at_program h pa) (hk_generate_xception hk ty)"
begin

lemma this_program_here:
  "h_programs h pa = Some p \<Longrightarrow> at_program h pa g \<Longrightarrow> bindA this_program f g = f p g"
  by (simp add: this_program_def at_program_def run_simps)

lemma type_at_keeps: "keeps I (type_at ty)"
  by (simp add: type_at_def)

lemma object_keeps: "keeps (at_program h pa) (generate_object hk ty)"
  unfolding generate_object_def
  by (intro keeps_bind type_at_keeps) (simp add: struct_keeps xception_keeps)

lemma named_service_keeps: "keeps (at_program h pa) (generate_service_named hk ty)"
proof -
  have "keeps (at_program h pa) (modify (\<lambda>g. g\<lparr>gn_service_name := name\<rparr>))" for name
    by (rule keepsI) (simp add: modify_def at_program_def)
  then show ?thesis
    unfolding generate_service_named_def by (intro keeps_bind keeps_seq type_at_keeps service_keeps)
qed

lemma seq_here:
  assumes "keeps (at_program h pa) m" "at_program h pa g" "\<And>g'. at_program h pa g' \<Longrightarrow> n g' = n' g'"
  shows "seqA m n g = seqA m n' g"
proof -
  have "at_program h pa (snd (m g))" using keepsD [OF assms(1), of g] assms(2) by simp
  with assms(3) have "n (snd (m g)) = n' (snd (m g))" by blast
  then show ?thesis by (cases "m g"; cases "fst (m g)") (auto simp: seqA_def bindA_def)
qed

lemma seq_read_here:
  assumes p: "h_programs h pa = Some p" and rest: "keeps (at_program h pa) (f p)" "at_program h pa g"
      "\<And>g'. at_program h pa g' \<Longrightarrow> n g' = n' g'"
  shows "seqA (bindA this_program f) n g = seqA (f p) n' g"
proof -
  have "seqA (bindA this_program f) n g = seqA (f p) n g"
    using this_program_here [OF p rest(2), of "\<lambda>p. seqA (f p) n"] by (simp add: run_seq_bind)
  also have "\<dots> = seqA (f p) n' g" by (rule seq_here [OF rest])
  finally show ?thesis .
qed

theorem walk_order:
  assumes p: "h_programs h pa = Some p" and g: "at_program h pa g"
  shows "generate_program hk g = block (program_calls hk p) g"
proof -
  have "generate_program hk g =
      seqA (hk_init_generator hk)
       (seqA (for_each (pr_enums p) (hk_generate_enum hk))
         (seqA (for_each (pr_typedefs p) (hk_generate_typedef hk))
           (seqA (seqA (for_each (pr_objects p) (hk_generate_forward_declaration hk))
                       (for_each (pr_objects p) (generate_object hk)))
             (seqA (hk_generate_consts hk (pr_consts p))
               (seqA (for_each (pr_services p) (generate_service_named hk))
                 (seqA (hk_close_generator hk) (returnA ()))))))) g"
    unfolding generate_program_def block.simps
    by (intro refl seq_here [where h = h and pa = pa] seq_read_here [OF p] keeps_for_each keeps_seq init_keeps consts_keep typedef_keeps
        enum_keeps forward_keeps object_keeps named_service_keeps) (simp_all add: g)
  then show ?thesis
    unfolding program_calls_def block_append for_each_block block.simps run_seq_seq by (simp add: run_simps)
qed

end

section \<open>Errors of the generation phase\<close>

text \<open>Actions that never end with an exception.\<close>

definition no_throw :: "('s, 'a) action \<Rightarrow> bool" where
  "no_throw m \<longleftrightarrow> (\<forall>s e. fst (m s) \<noteq> Throw e)"

lemma no_throw_bind: "no_throw m \<Longrightarrow> (\<And>x. no_throw (f x)) \<Longrightarrow> no_throw (bindA m f)"
proof -
  assume m: "no_throw m" and f: "\<And>x. no_throw (f x)"
  have "fst (bindA m f s) \<noteq> Throw e" for s e
    using m f unfolding no_throw_def
    by (cases "m s"; cases "fst (m s)") (auto simp: bindA_def dest: spec [of _ s])
  then show ?thesis by (simp add: no_throw_def)
qed

lemma no_throw_seq: "no_throw m \<Longrightarrow> no_throw n \<Longrightarrow> no_throw (seqA m n)"
  unfolding seqA_def by (rule no_throw_bind)

lemma no_throw_for_each: "(\<And>x. x \<in> set xs \<Longrightarrow> no_throw (f x)) \<Longrightarrow> no_throw (for_each xs f)"
proof (induction xs)
  case Nil
  show ?case by (simp add: no_throw_def returnA_def)
qed (simp add: no_throw_seq)

lemma no_throw_when: "no_throw m \<Longrightarrow> no_throw (whenA b m)"
  by (simp add: whenA_def no_throw_def returnA_def)

lemma no_throw_modify: "no_throw (modify f)"
  by (simp add: no_throw_def modify_def)

lemma no_throw_deref: "no_throw (getsO (\<lambda>s. deref (f s)))"
proof -
  have "deref x \<noteq> Throw e" for x :: "'b option" and e by (cases x) simp_all
  then show ?thesis by (simp add: no_throw_def getsO_def)
qed

lemma no_throw_propagate: "no_throw (propagate_out_path pa ia)"
proof -
  have "no_throw (getsO (\<lambda>_::world. set_out_path op ab q))" for op ab q
    by (simp add: no_throw_def getsO_def set_out_path_def Let_def)
  then show ?thesis
    unfolding propagate_out_path_def by (intro no_throw_bind no_throw_deref no_throw_modify)
qed

lemma no_throw_catch_print: "no_throw (catch_print m)"
  unfolding no_throw_def
proof (intro allI)
  fix s e
  show "fst (catch_print m s) \<noteq> Throw e"
    by (cases "m s"; cases "fst (m s)") (simp_all add: catch_print_def print_line_def modify_def)
qed

text \<open>
  Code generation never reports an error to its caller: whatever exceptions the generators
  throw, \<^verbatim>\<open>generate\<close> returns normally (or the process ends, or the recursion over the includes
  does not), so that \<^verbatim>\<open>main\<close> goes on to return 0; the only trace of a failing generator is a line
  on the terminal, and the generators listed after it are not run for that program.
\<close>

lemma generate_swallows_errors:
  "fst (generate n env specs pa w) \<noteq> Throw e \<and>
   (ge_dump_docs env = False \<and> ge_recurse env = False \<and> 0 < n \<and>
      run_generator env pa s w = (Throw e, w') \<longrightarrow>
      generate n env (s # specs) pa w = (Ok (), w'\<lparr>w_stdout := w_stdout w' @ [''Error: '' @ e]\<rparr>))"
proof (rule conjI)
  have "no_throw (generate n env specs pa)"
  proof (induction n arbitrary: pa)
    case 0
    show ?case by (simp add: no_throw_def)
  next
    case (Suc n)
    then show ?case
      unfolding generate.simps(2) generate_here_def
      by (intro no_throw_seq no_throw_when no_throw_bind no_throw_deref no_throw_for_each
          no_throw_propagate no_throw_catch_print)
  qed
  then show "fst (generate n env specs pa w) \<noteq> Throw e" by (simp add: no_throw_def)
next
  show "ge_dump_docs env = False \<and> ge_recurse env = False \<and> 0 < n \<and>
      run_generator env pa s w = (Throw e, w') \<longrightarrow>
      generate n env (s # specs) pa w = (Ok (), w'\<lparr>w_stdout := w_stdout w' @ [''Error: '' @ e]\<rparr>)"
    by (cases n) (auto simp: generate_here_def whenA_def run_seq catch_print_def seqA_def bindA_def
        returnA_def print_line_def modify_def)
qed

definition failing_env :: gen_env where
  "failing_env = \<lparr>ge_recurse = False, ge_dump_docs = False,
     ge_generators = [(''xsd'', \<lambda>pa opts spec. throwA ''boom'')]\<rparr>"

lemma generate_swallows_errors_witness:
  "let w = \<lparr>w_heap = \<lparr>h_types = Map.empty, h_fields = Map.empty, h_programs = Map.empty, h_next = 0\<rparr>, w_stdout = []\<rparr>
   in generate 1 failing_env [''xsd'', ''java''] 0 w = (Ok (), w\<lparr>w_stdout := [''Error: boom'']\<rparr>)"
proof -
  define w where "w = \<lparr>w_heap = \<lparr>h_types = Map.empty, h_fields = Map.empty, h_programs = Map.empty, h_next = 0\<rparr>, w_stdout = []\<rparr>"
  have "run_generator failing_env 0 ''xsd'' w = (Throw ''boom'', w)"
    by (simp add: run_generator_def get_generator_def generator_language_def failing_env_def smap_find_def throwA_def)
  with generate_swallows_errors [of 1 failing_env "[''java'']" 0 w "''boom''" "''xsd''" w]
  show ?thesis unfolding w_def [symmetric] Let_def by (simp add: failing_env_def w_def)
qed

end
