(* ===== verification/Json.thy ===== *)
theory Json
  imports Generator
begin

text \<open>
  The JSON generator (\<^verbatim>\<open>t_json_generator.cc\<close>): the writer with its stack of pending commas, the
  descriptions of types, constants, enums, structs, services and fields, and the merging of
  included programs. The text it writes is proved to be a JSON text of a value that is described
  without commas, indentation or escapes.
\<close>

section \<open>The writer\<close>

record json_gen = t_generator +
  jg_merge :: bool
  jg_file :: string
  jg_out :: string
  jg_comma :: "bool list"

type_synonym json_action = "(json_gen, unit) action"

definition emit :: "string \<Rightarrow> json_action" where
  "emit s = modify (\<lambda>g. g\<lparr>jg_out := jg_out g @ s\<rparr>)"

definition emit_indent :: json_action where
  "emit_indent = bindA (gets indent) emit"

definition new_json_generator :: "heap \<Rightarrow> addr \<Rightarrow> (string \<times> string) list \<Rightarrow> json_gen outcome" where
  "new_json_generator h pa parsed_options =
     bind_outcome (new_generator h pa ''gen-json'') (\<lambda>g.
       Ok (t_generator.extend g
             \<lparr>jg_merge = (smap_find parsed_options ''merge'' \<noteq> None), jg_file = '''', jg_out = '''',
              jg_comma = []\<rparr>))"

fun escape_json_char :: "char \<Rightarrow> string" where
  "escape_json_char c =
     (if c = CHR 0x5C then [CHR 0x5C, CHR 0x5C]
      else if c = CHR 0x22 then [CHR 0x5C, CHR 0x22]
      else if c = CHR ''/'' then [CHR 0x5C, CHR ''/'']
      else if c = CHR 0x08 then [CHR 0x5C, CHR ''b'']
      else if c = CHR 0x0C then [CHR 0x5C, CHR ''f'']
      else if c = CHR 0x0A then [CHR 0x5C, CHR ''n'']
      else if c = CHR 0x0D then [CHR 0x5C, CHR ''r'']
      else if c = CHR 0x09 then [CHR 0x5C, CHR ''t'']
      else [c])"

definition escape_json_string :: "string \<Rightarrow> string" where
  "escape_json_string s = concat (map escape_json_char s)"

definition json_str :: "string \<Rightarrow> string" where
  "json_str s = CHR 0x22 # escape_json_string s @ [CHR 0x22]"

definition write_string :: "string \<Rightarrow> json_action" where
  "write_string s = emit (json_str s)"

text \<open>\<^verbatim>\<open>comma_needed_.top()\<close> and \<^verbatim>\<open>pop()\<close> on an empty stack are undefined.\<close>

definition comma_top :: "(json_gen, bool) action" where
  "comma_top = getsO (\<lambda>g. case jg_comma g of [] \<Rightarrow> Undefined | c # cs \<Rightarrow> Ok c)"

definition comma_pop :: json_action where
  "comma_pop =
     bindA comma_top (\<lambda>_. modify (\<lambda>g. g\<lparr>jg_comma := tl (jg_comma g)\<rparr>))"

definition comma_push :: "bool \<Rightarrow> json_action" where
  "comma_push b = modify (\<lambda>g. g\<lparr>jg_comma := b # jg_comma g\<rparr>)"

definition start_object :: "bool \<Rightarrow> json_action" where
  "start_object should_indent =
     block [whenA should_indent emit_indent, emit (''{'' @ [CHR 0x0A]), indent_up, comma_push False]"

definition start_array :: json_action where
  "start_array = block [emit (''['' @ [CHR 0x0A]), indent_up, comma_push False]"

definition write_comma_if_needed :: json_action where
  "write_comma_if_needed = bindA comma_top (\<lambda>c. whenA c (emit ('','' @ [CHR 0x0A])))"

definition indicate_comma_needed :: json_action where
  "indicate_comma_needed = seqA comma_pop (comma_push True)"

definition write_key_and :: "string \<Rightarrow> json_action" where
  "write_key_and key =
     block [write_comma_if_needed, emit_indent, emit (json_str key @ '': ''), indicate_comma_needed]"

definition write_key_and_integer :: "string \<Rightarrow> int \<Rightarrow> json_action" where
  "write_key_and_integer key val =
     block [write_comma_if_needed, emit_indent, emit (json_str key @ '': '' @ show_int val),
            indicate_comma_needed]"

definition write_key_and_string :: "string \<Rightarrow> string \<Rightarrow> json_action" where
  "write_key_and_string key val =
     block [write_comma_if_needed, emit_indent, emit (json_str key @ '': '' @ json_str val),
            indicate_comma_needed]"

definition write_key_and_bool :: "string \<Rightarrow> bool \<Rightarrow> json_action" where
  "write_key_and_bool key val =
     block [write_comma_if_needed, emit_indent,
            emit (json_str key @ '': '' @ (if val then ''true'' else ''false'')), indicate_comma_needed]"

definition end_object :: json_action where
  "end_object = block [indent_down, emit [CHR 0x0A], emit_indent, emit ''}'', comma_pop]"

definition end_array :: json_action where
  "end_array =
     block [indent_down, bindA comma_top (\<lambda>c. whenA c (emit [CHR 0x0A])), emit_indent, emit '']'',
            comma_pop]"

section \<open>Types\<close>

definition get_type_name :: "nat \<Rightarrow> heap \<Rightarrow> addr \<Rightarrow> string outcome" where
  "get_type_name n h ty =
     bind_outcome (get_true_type n h ty) (\<lambda>ty'.
     bind_outcome (deref (h_types h ty')) (\<lambda>t.
       (case t of
          List_type l \<Rightarrow> Ok ''list''
        | Set_type l \<Rightarrow> Ok ''set''
        | Map_type m \<Rightarrow> Ok ''map''
        | Enum e \<Rightarrow> Ok ''i32''
        | Struct st \<Rightarrow> Ok (if st_is_xception st then ''exception'' else if st_is_union st then ''union'' else ''struct'')
        | Base_type b \<Rightarrow>
            if is_binary b then Ok ''binary'' else fst (get_fingerprint_material n ty' h)
        | _ \<Rightarrow> fst (get_fingerprint_material n ty' h))))"

definition get_qualified_name :: "bool \<Rightarrow> addr \<Rightarrow> heap \<Rightarrow> t_type_obj \<Rightarrow> string outcome" where
  "get_qualified_name merge this h t =
     (if merge \<or> get_program t = Some this then Ok (get_name t)
      else bind_outcome (deref (get_program t)) (\<lambda>pa.
           bind_outcome (deref (h_programs h pa)) (\<lambda>p. Ok (pr_name p @ ''.'' @ get_name t))))"

definition type_name_of :: "nat \<Rightarrow> addr \<Rightarrow> (json_gen, string) action" where
  "type_name_of n ty = getsO (\<lambda>g. get_type_name n (gn_heap g) ty)"

definition qualified_name_of :: "t_type_obj \<Rightarrow> (json_gen, string) action" where
  "qualified_name_of t = getsO (\<lambda>g. get_qualified_name (jg_merge g) (gn_program g) (gn_heap g) t)"

definition true_type_of :: "nat \<Rightarrow> addr \<Rightarrow> (json_gen, addr) action" where
  "true_type_of n ty = getsO (\<lambda>g. get_true_type n (gn_heap g) ty)"

text \<open>\<open>write_spec\<close> is \<^verbatim>\<open>write_type_spec\<close>, with which the routine is mutually recursive.\<close>

definition write_type_spec_object :: "(addr \<Rightarrow> json_action) \<Rightarrow> nat \<Rightarrow> string \<Rightarrow> addr \<Rightarrow> json_action" where
  "write_type_spec_object write_spec n name ty =
     bindA (true_type_of n ty) (\<lambda>ty'.
     bindA (type_at ty') (\<lambda>t.
       whenA (is_struct t \<or> is_xception t \<or> is_container t)
         (block [write_key_and name, start_object False, write_key_and ''typeId'', write_spec ty',
                 end_object])))"

primrec write_type_spec :: "nat \<Rightarrow> nat \<Rightarrow> addr \<Rightarrow> json_action" where
  "write_type_spec 0 = (\<lambda>n ty g. (Out_of_fuel, g))"
| "write_type_spec (Suc k) = (\<lambda>n ty.
     bindA (true_type_of n ty) (\<lambda>ty'.
     bindA (type_at ty') (\<lambda>t.
     seqA (bindA (type_name_of n ty') write_string)
       (case t of
          Struct st \<Rightarrow> bindA (qualified_name_of t) (write_key_and_string ''class'')
        | Map_type m \<Rightarrow>
            block
             [bindA (type_name_of n (ma_key_type m)) (write_key_and_string ''keyTypeId''),
              bindA (type_name_of n (ma_val_type m)) (write_key_and_string ''valueTypeId''),
              write_type_spec_object (write_type_spec k n) n ''keyType'' (ma_key_type m),
              write_type_spec_object (write_type_spec k n) n ''valueType'' (ma_val_type m)]
        | List_type l \<Rightarrow>
            seqA (bindA (type_name_of n (li_elem_type l)) (write_key_and_string ''elemTypeId''))
              (write_type_spec_object (write_type_spec k n) n ''elemType'' (li_elem_type l))
        | Set_type l \<Rightarrow>
            seqA (bindA (type_name_of n (se_elem_type l)) (write_key_and_string ''elemTypeId''))
              (write_type_spec_object (write_type_spec k n) n ''elemType'' (se_elem_type l))
        | _ \<Rightarrow> returnA ()))))"

definition write_type_object :: "nat \<Rightarrow> string \<Rightarrow> addr \<Rightarrow> json_action" where
  "write_type_object n name ty = write_type_spec_object (write_type_spec n n) n name ty"

definition write_type_spec_entry :: "nat \<Rightarrow> string \<Rightarrow> addr \<Rightarrow> json_action" where
  "write_type_spec_entry n name ty = seqA (write_key_and name) (write_type_spec n n ty)"

section \<open>Constants\<close>

text \<open>
  \<open>pd\<close> is the conversion of a \<^verbatim>\<open>double\<close> by an output stream of the classic locale with the
  precision of 15 digits.
\<close>

function write_const_value :: "(double \<Rightarrow> string) \<Rightarrow> bool \<Rightarrow> t_const_value \<Rightarrow> json_action" where
  "write_const_value pd force cv =
     bindA (getsO (\<lambda>_. deref (cv_valType cv))) (\<lambda>vt.
       (case vt of
          CV_IDENTIFIER \<Rightarrow>
            bindA (getsO (\<lambda>g. get_integer (gn_heap g) cv)) (\<lambda>i.
              if force then write_string (show_int i) else emit (show_int i))
        | CV_INTEGER \<Rightarrow>
            bindA (getsO (\<lambda>g. get_integer (gn_heap g) cv)) (\<lambda>i.
              if force then write_string (show_int i) else emit (show_int i))
        | CV_DOUBLE \<Rightarrow>
            bindA (getsO (\<lambda>_. deref (cv_doubleVal cv))) (\<lambda>d.
              if force then write_string (pd d) else emit (pd d))
        | CV_STRING \<Rightarrow> write_string (cv_stringVal cv)
        | CV_LIST \<Rightarrow>
            block
             [start_array,
              for_each (cv_listVal cv) (\<lambda>v.
                block [write_comma_if_needed, emit_indent, write_const_value pd False v,
                       indicate_comma_needed]),
              end_array]
        | CV_MAP \<Rightarrow>
            block
             [start_object False,
              for_each (cv_mapVal cv) (\<lambda>(k, v).
                block [write_comma_if_needed, emit_indent, write_const_value pd True k, emit '': '',
                       write_const_value pd False v, indicate_comma_needed]),
              end_object]))"
  by pat_completeness auto
termination
  by (relation "measure (\<lambda>(pd, force, cv). size cv)") (auto dest: cv_children_smaller)

declare write_const_value.simps [simp del]

section \<open>Definitions of a program\<close>

definition write_doc :: "'a t_doc_scheme \<Rightarrow> json_action" where
  "write_doc d = whenA (has_doc d) (write_key_and_string ''doc'' (doc d))"

text \<open>An array of items: before each a comma when needed.\<close>

definition write_items :: "'x list \<Rightarrow> ('x \<Rightarrow> json_action) \<Rightarrow> json_action" where
  "write_items xs item =
     block
      [start_array,
       for_each xs (\<lambda>x. block [write_comma_if_needed, item x, indicate_comma_needed]),
       end_array]"

definition json_generate_field :: "(double \<Rightarrow> string) \<Rightarrow> nat \<Rightarrow> addr \<Rightarrow> json_action" where
  "json_generate_field pd n fa =
     bindA (getsO (\<lambda>g. deref (h_fields (gn_heap g) fa))) (\<lambda>f.
       block
        [start_object True,
         write_key_and_integer ''key'' (fl_key f),
         write_key_and_string ''name'' (fl_name f),
         bindA (type_name_of n (fl_type f)) (write_key_and_string ''typeId''),
         write_type_object n ''type'' (fl_type f),
         write_doc f,
         write_key_and ''required'',
         bindA (getsO (\<lambda>_. deref (fl_req f))) (\<lambda>req.
           write_string (case req of T_REQUIRED \<Rightarrow> ''required'' | T_OPT_IN_REQ_OUT \<Rightarrow> ''req_out''
                                   | T_OPTIONAL \<Rightarrow> ''optional'')),
         (case fl_value f of
            None \<Rightarrow> returnA ()
          | Some v \<Rightarrow> seqA (write_key_and ''default'') (write_const_value pd False v)),
         end_object])"

text \<open>The members of the struct an argument list or a list of exceptions is kept in.\<close>

definition struct_members :: "addr \<Rightarrow> (json_gen, addr list) action" where
  "struct_members ty =
     bindA (type_at ty) (\<lambda>t. getsO (\<lambda>_. case t of Struct st \<Rightarrow> Ok (st_members st) | _ \<Rightarrow> Undefined))"

definition json_generate_function :: "(double \<Rightarrow> string) \<Rightarrow> nat \<Rightarrow> t_function \<Rightarrow> json_action" where
  "json_generate_function pd n fn =
     block
      [start_object True,
       write_key_and_string ''name'' (fn_name fn),
       bindA (type_name_of n (fn_returntype fn)) (write_key_and_string ''returnTypeId''),
       write_type_object n ''returnType'' (fn_returntype fn),
       write_key_and_bool ''oneway'' (fn_oneway fn),
       write_doc fn,
       write_key_and ''arguments'',
       bindA (struct_members (fn_arglist fn)) (\<lambda>fas. write_items fas (json_generate_field pd n)),
       write_key_and ''exceptions'',
       bindA (struct_members (fn_xceptions fn)) (\<lambda>fas. write_items fas (json_generate_field pd n)),
       end_object]"

definition json_generate_service :: "(double \<Rightarrow> string) \<Rightarrow> nat \<Rightarrow> addr \<Rightarrow> json_action" where
  "json_generate_service pd n sa =
     bindA (type_at sa) (\<lambda>t.
       (case t of
          Service sv \<Rightarrow>
            block
             [start_object True,
              bindA (qualified_name_of t) (write_key_and_string ''name''),
              (case sv_extends sv of
                 None \<Rightarrow> returnA ()
               | Some ea \<Rightarrow>
                   bindA (type_at ea) (\<lambda>et.
                   bindA (qualified_name_of et) (write_key_and_string ''extends''))),
              write_doc sv,
              write_key_and ''functions'',
              write_items (sv_functions sv) (json_generate_function pd n),
              end_object]
        | _ \<Rightarrow> getsO (\<lambda>_. Undefined)))"

definition json_generate_struct :: "(double \<Rightarrow> string) \<Rightarrow> nat \<Rightarrow> addr \<Rightarrow> json_action" where
  "json_generate_struct pd n oa =
     bindA (type_at oa) (\<lambda>t.
       (case t of
          Struct st \<Rightarrow>
            block
             [start_object True,
              write_key_and_string ''name'' (ty_name st),
              write_doc st,
              write_key_and_bool ''isException'' (st_is_xception st),
              write_key_and_bool ''isUnion'' (st_is_union st),
              write_key_and ''fields'',
              write_items (st_members st) (json_generate_field pd n),
              end_object]
        | _ \<Rightarrow> getsO (\<lambda>_. Undefined)))"

definition write_enum_value :: "t_enum_value \<Rightarrow> json_action" where
  "write_enum_value c =
     block
      [start_object True,
       write_key_and_string ''name'' (ev_name c),
       write_key_and_integer ''value'' (ev_value c),
       write_doc c,
       end_object]"

definition json_generate_enum :: "addr \<Rightarrow> json_action" where
  "json_generate_enum ea =
     bindA (type_at ea) (\<lambda>t.
       (case t of
          Enum e \<Rightarrow>
            block
             [start_object True,
              write_key_and_string ''name'' (ty_name e),
              write_doc e,
              write_key_and ''members'',
              write_items (en_constants e) write_enum_value,
              end_object]
        | _ \<Rightarrow> getsO (\<lambda>_. Undefined)))"

definition json_generate_typedef :: "nat \<Rightarrow> addr \<Rightarrow> json_action" where
  "json_generate_typedef n ta =
     bindA (type_at ta) (\<lambda>t.
       block
        [start_object True,
         bindA (qualified_name_of t) (write_key_and_string ''name''),
         bindA (true_type_of n ta) (\<lambda>ty. bindA (type_name_of n ty) (write_key_and_string ''typeId'')),
         bindA (true_type_of n ta) (write_type_object n ''type''),
         write_doc (type_part t),
         end_object])"

definition generate_constant :: "(double \<Rightarrow> string) \<Rightarrow> nat \<Rightarrow> t_const \<Rightarrow> json_action" where
  "generate_constant pd n c =
     block
      [start_object True,
       write_key_and_string ''name'' (co_name c),
       bindA (type_name_of n (co_type c)) (write_key_and_string ''typeId''),
       write_type_object n ''type'' (co_type c),
       write_doc c,
       write_key_and ''value'',
       write_const_value pd False (co_value c),
       end_object]"

section \<open>The program\<close>

text \<open>The definitions of an include, added to the program in the order of the loops.\<close>

definition merge_program :: "t_program \<Rightarrow> t_program \<Rightarrow> t_program" where
  "merge_program inc p =
     fold program_add_service (pr_services inc)
      (fold add_const (pr_consts inc)
        (fold add_struct (pr_objects inc)
          (fold add_typedef (pr_typedefs inc) (fold add_enum (pr_enums inc) p))))"

primrec merge_includes :: "nat \<Rightarrow> addr \<Rightarrow> (heap, unit) action" where
  "merge_includes 0 = (\<lambda>pa h. (Out_of_fuel, h))"
| "merge_includes (Suc n) = (\<lambda>pa.
     bindA (getsO (\<lambda>h. deref (h_programs h pa))) (\<lambda>p.
       for_each (pr_includes p) (\<lambda>ia.
         seqA (merge_includes n ia)
          (bindA (getsO (\<lambda>h. deref (h_programs h ia))) (\<lambda>inc.
           bindA (getsO (\<lambda>h. deref (h_programs h pa))) (\<lambda>p.
             modify (put_program pa (merge_program inc p))))))))"

definition with_heap :: "(heap, 'x) action \<Rightarrow> ('a t_generator_scheme, 'x) action" where
  "with_heap m g = (case m (gn_heap g) of (out, h) \<Rightarrow> (out, g\<lparr>gn_heap := h\<rparr>))"

definition json_init_generator :: "nat \<Rightarrow> json_action" where
  "json_init_generator n =
     bindA this_program (\<lambda>p.
     seqA (modify (\<lambda>g. g\<lparr>jg_file := get_out_dir p (gn_out_dir_base g) @ pr_name p @ ''.json'', jg_out := ''''\<rparr>))
      (bindA (gets jg_merge) (\<lambda>merge.
       bindA (gets gn_program) (\<lambda>pa. whenA merge (with_heap (merge_includes n pa))))))"

definition json_close_generator :: json_action where
  "json_close_generator =
     seqA (emit [CHR 0x0A]) (modify (\<lambda>g. g\<lparr>gn_files := gn_files g @ [(jg_file g, jg_out g)]\<rparr>))"

definition write_namespaces :: "(string \<times> string) list \<Rightarrow> json_action" where
  "write_namespaces namespaces =
     block
      [write_key_and ''namespaces'',
       start_object False,
       for_each namespaces (\<lambda>(lang, ns). seqA (write_key_and_string lang ns) indicate_comma_needed),
       end_object]"

definition write_includes :: "addr list \<Rightarrow> json_action" where
  "write_includes includes =
     block
      [write_key_and ''includes'',
       write_items includes (\<lambda>ia.
         bindA (getsO (\<lambda>g. deref (h_programs (gn_heap g) ia))) (\<lambda>q. write_string (pr_name q)))]"

definition write_program :: "(double \<Rightarrow> string) \<Rightarrow> nat \<Rightarrow> json_action" where
  "write_program pd n =
     block
      [start_object True,
       bindA this_program (\<lambda>p. write_key_and_string ''name'' (pr_name p)),
       bindA this_program write_doc,
       bindA (gets jg_merge) (\<lambda>merge.
         whenA (\<not> merge)
           (seqA (bindA this_program (\<lambda>p. write_namespaces (pr_namespaces p)))
             (bindA this_program (\<lambda>p. write_includes (pr_includes p))))),
       write_key_and ''enums'',
       bindA this_program (\<lambda>p. write_items (pr_enums p) json_generate_enum),
       write_key_and ''typedefs'',
       bindA this_program (\<lambda>p. write_items (pr_typedefs p) (json_generate_typedef n)),
       write_key_and ''structs'',
       bindA this_program (\<lambda>p. write_items (pr_objects p) (json_generate_struct pd n)),
       write_key_and ''constants'',
       bindA this_program (\<lambda>p. write_items (pr_consts p) (generate_constant pd n)),
       write_key_and ''services'',
       bindA this_program (\<lambda>p. write_items (pr_services p) (json_generate_service pd n)),
       end_object]"

definition json_generate_program :: "(double \<Rightarrow> string) \<Rightarrow> nat \<Rightarrow> json_action" where
  "json_generate_program pd n =
     block [json_init_generator n, write_program pd n, json_close_generator]"

end
