(* ===== verification/Json_Text.thy ===== *)
theory Json_Text
  imports Json
begin

text \<open>
  JSON texts as a grammar over JSON values, and the rules by which the writer of the JSON
  generator produces them: what an action writes is described by the members or the value it adds,
  whatever the indentation and the state of the stack of commas.
\<close>

section \<open>JSON values and texts\<close>

datatype json =
    JBool bool
  | JNumber string
  | JString string
  | JArray "json list"
  | JObject "(string \<times> json) list"

definition blank :: "string \<Rightarrow> bool" where
  "blank s \<longleftrightarrow> list_all (\<lambda>c. c \<in> {CHR '' '', CHR 0x09, CHR 0x0A, CHR 0x0D}) s"

definition digits1 :: "string \<Rightarrow> bool" where
  "digits1 s \<longleftrightarrow> s \<noteq> [] \<and> list_all is_digit s"

text \<open>Sign, integer part without leading zeros, fraction, exponent.\<close>

inductive json_number :: "string \<Rightarrow> bool" where
  number: "sign \<in> {'''', ''-''} \<Longrightarrow> digits1 i \<Longrightarrow> i = ''0'' \<or> hd i \<noteq> CHR ''0'' \<Longrightarrow>
    frac = [] \<or> (\<exists>ds. frac = CHR ''.'' # ds \<and> digits1 ds) \<Longrightarrow>
    expo = [] \<or> (\<exists>e sg ds. expo = e # sg @ ds \<and> e \<in> {CHR ''e'', CHR ''E''} \<and> sg \<in> {'''', ''+'', ''-''} \<and> digits1 ds) \<Longrightarrow>
    json_number (sign @ i @ frac @ expo)"

definition json_escapes :: "(char \<times> char) list" where
  "json_escapes = [(CHR 0x22, CHR 0x22), (CHR 0x5C, CHR 0x5C), (CHR ''/'', CHR ''/''), (CHR ''b'', CHR 0x08),
     (CHR ''f'', CHR 0x0C), (CHR ''n'', CHR 0x0A), (CHR ''r'', CHR 0x0D), (CHR ''t'', CHR 0x09)]"

text \<open>The inside of a string literal that stands for a given string.\<close>

inductive json_chars :: "string \<Rightarrow> string \<Rightarrow> bool" where
  no_chars: "json_chars [] []"
| plain_char: "32 \<le> (of_char c :: nat) \<Longrightarrow> c \<noteq> CHR 0x22 \<Longrightarrow> c \<noteq> CHR 0x5C \<Longrightarrow> json_chars s t \<Longrightarrow>
    json_chars (c # s) (c # t)"
| escaped_char: "(e, c) \<in> set json_escapes \<Longrightarrow> json_chars s t \<Longrightarrow> json_chars (c # s) (CHR 0x5C # e # t)"

text \<open>Items separated by commas, with a comma in front when one is pending.\<close>

fun commas :: "bool \<Rightarrow> string list \<Rightarrow> string" where
  "commas c [] = []"
| "commas c (t # ts) = (if c then '','' else []) @ t @ commas True ts"

lemma commas_append: "commas c (ts @ us) = commas c ts @ commas (c \<or> ts \<noteq> []) us"
  by (induction ts arbitrary: c) auto

inductive json_text :: "json \<Rightarrow> string \<Rightarrow> bool" where
  bool_text: "json_text (JBool b) (if b then ''true'' else ''false'')"
| number_text: "json_number s \<Longrightarrow> json_text (JNumber s) s"
| string_text: "json_chars s t \<Longrightarrow> json_text (JString s) (CHR 0x22 # t @ [CHR 0x22])"
| array_text: "list_all2 (\<lambda>v t. \<exists>a u b. t = a @ u @ b \<and> blank a \<and> blank b \<and> json_text v u) vs ts \<Longrightarrow>
    blank w1 \<Longrightarrow> blank w2 \<Longrightarrow> json_text (JArray vs) (''['' @ w1 @ commas False ts @ w2 @ '']'')"
| object_text: "list_all2 (\<lambda>kv t. \<exists>a k b c u d. t = a @ CHR 0x22 # k @ CHR 0x22 # b @ CHR '':'' # c @ u @ d \<and>
      blank a \<and> blank b \<and> blank c \<and> blank d \<and> json_chars (fst kv) k \<and> json_text (snd kv) u) ms ts \<Longrightarrow>
    blank w1 \<Longrightarrow> blank w2 \<Longrightarrow> json_text (JObject ms) (''{'' @ w1 @ commas False ts @ w2 @ ''}'')"

definition elem_text :: "json \<Rightarrow> string \<Rightarrow> bool" where
  "elem_text v t \<longleftrightarrow> (\<exists>a u b. t = a @ u @ b \<and> blank a \<and> blank b \<and> json_text v u)"

definition member_text :: "string \<times> json \<Rightarrow> string \<Rightarrow> bool" where
  "member_text kv t \<longleftrightarrow> (\<exists>a k b c u d. t = a @ CHR 0x22 # k @ CHR 0x22 # b @ CHR '':'' # c @ u @ d \<and>
      blank a \<and> blank b \<and> blank c \<and> blank d \<and> json_chars (fst kv) k \<and> json_text (snd kv) u)"

lemma blank_simps [simp]:
  "blank []" "blank (a @ b) \<longleftrightarrow> blank a \<and> blank b" "blank (CHR 0x0A # a) \<longleftrightarrow> blank a"
  "blank (CHR '' '' # a) \<longleftrightarrow> blank a"
  by (auto simp: blank_def)

lemma blank_spaces [simp]: "blank (spaces i)"
proof -
  have "blank (concat (replicate n ''  ''))" for n
    by (induction n) (simp_all add: blank_def)
  then show ?thesis by (simp add: spaces_def)
qed

lemma blank_indent [simp]: "blank (indent g)"
  by (simp add: indent_def)

text \<open>Strings and numbers that the writer can represent.\<close>

definition safe_string :: "string \<Rightarrow> bool" where
  "safe_string s \<longleftrightarrow> list_all (\<lambda>c. 32 \<le> (of_char c :: nat) \<or> c \<in> {CHR 0x08, CHR 0x0C, CHR 0x0A, CHR 0x0D, CHR 0x09}) s"

fun json_safe :: "json \<Rightarrow> bool" where
  "json_safe (JBool b) = True"
| "json_safe (JNumber s) = json_number s"
| "json_safe (JString s) = safe_string s"
| "json_safe (JArray vs) = list_all json_safe vs"
| "json_safe (JObject ms) = list_all (\<lambda>(k, v). safe_string k \<and> json_safe v) ms"

lemma escape_json_chars: "safe_string s \<Longrightarrow> json_chars s (escape_json_string s)"
proof (induction s)
  case Nil
  show ?case by (simp add: escape_json_string_def no_chars)
next
  case (Cons c s)
  then have c: "32 \<le> (of_char c :: nat) \<or> c \<in> {CHR 0x08, CHR 0x0C, CHR 0x0A, CHR 0x0D, CHR 0x09}"
    and s: "json_chars s (escape_json_string s)" by (simp_all add: safe_string_def)
  have "escape_json_string (c # s) = escape_json_char c @ escape_json_string s"
    by (simp add: escape_json_string_def)
  moreover have "json_chars (c # s) (escape_json_char c @ escape_json_string s)"
  proof (cases "escape_json_char c = [c]")
    case True
    then have "c \<noteq> CHR 0x22" "c \<noteq> CHR 0x5C" by auto
    moreover have "32 \<le> (of_char c :: nat)" using True c by auto
    ultimately show ?thesis using True s by (simp add: plain_char)
  next
    case False
    then show ?thesis using s
      by (auto simp: json_escapes_def intro!: escaped_char split: if_splits)
  qed
  ultimately show ?case by simp
qed

lemma show_int_number: "json_number (show_int i)"
proof -
  have nat: "digits1 (show_nat n) \<and> (show_nat n = ''0'' \<or> hd (show_nat n) \<noteq> CHR ''0'')" for n
  proof (cases "n < 10")
    case True
    have "digit_char n \<noteq> CHR ''0''" if "n \<noteq> 0"
    proof
      assume "digit_char n = CHR ''0''"
      moreover have "digit_char 0 = CHR ''0''" by code_simp
      ultimately show False using True that digit_value_digit_char [of n] digit_value_digit_char [of 0] by simp
    qed
    moreover have "digit_char 0 = CHR ''0''" by code_simp
    moreover have "show_nat n = [digit_char n]" using True by (simp add: show_nat.simps [of n])
    ultimately show ?thesis using True is_digit_digit_char [of n]
      by (cases "n = 0") (auto simp: digits1_def)
  next
    case False
    then show ?thesis using show_nat_no_leading_zero [of n] show_nat_digits [of _ n]
      by (auto simp: digits1_def list_all_iff)
  qed
  show ?thesis
    using nat number [of "''-''" "show_nat (nat (- i))" "[]" "[]"] number [of "[]" "show_nat (nat i)" "[]" "[]"]
    by (auto simp: show_int_def)
qed

section \<open>What an action writes\<close>

text \<open>What the writer reads of the parse tree and never changes.\<close>

record json_ctx =
  cx_merge :: bool
  cx_this :: addr
  cx_heap :: heap

definition ctx_of :: "json_gen \<Rightarrow> json_ctx" where
  "ctx_of g = \<lparr>cx_merge = jg_merge g, cx_this = gn_program g, cx_heap = gn_heap g\<rparr>"

lemma ctx_of_simps [simp]:
  "ctx_of (g\<lparr>jg_out := o1\<rparr>) = ctx_of g" "ctx_of (g\<lparr>jg_comma := cs\<rparr>) = ctx_of g"
  "ctx_of (g\<lparr>gn_indent := i\<rparr>) = ctx_of g"
  "cx_merge (ctx_of g) = jg_merge g" "cx_this (ctx_of g) = gn_program g" "cx_heap (ctx_of g) = gn_heap g"
  by (simp_all add: ctx_of_def)

text \<open>The action adds the members to the current object.\<close>

definition members :: "json_ctx \<Rightarrow> json_action \<Rightarrow> (string \<times> json) list \<Rightarrow> bool" where
  "members cx m ms \<longleftrightarrow> (\<forall>g c cs. ctx_of g = cx \<longrightarrow> jg_comma g = c # cs \<longrightarrow>
     (\<exists>ts. list_all2 member_text ms ts \<and>
        m g = (Ok (), g\<lparr>jg_out := jg_out g @ commas c ts, jg_comma := (c \<or> ms \<noteq> []) # cs\<rparr>)))"

text \<open>The action writes a value; \<open>lead\<close> says whether blanks may come first.\<close>

definition writes :: "bool \<Rightarrow> json_ctx \<Rightarrow> json_action \<Rightarrow> json \<Rightarrow> bool" where
  "writes lead cx m v \<longleftrightarrow> (\<forall>g. ctx_of g = cx \<longrightarrow>
     (\<exists>w t. blank w \<and> (\<not> lead \<longrightarrow> w = []) \<and> json_text v t \<and> m g = (Ok (), g\<lparr>jg_out := jg_out g @ w @ t\<rparr>)))"

lemma membersI:
  "(\<And>g c cs. ctx_of g = cx \<Longrightarrow> jg_comma g = c # cs \<Longrightarrow> \<exists>ts. list_all2 member_text ms ts \<and>
     m g = (Ok (), g\<lparr>jg_out := jg_out g @ commas c ts, jg_comma := (c \<or> ms \<noteq> []) # cs\<rparr>)) \<Longrightarrow> members cx m ms"
  by (simp add: members_def)

lemma membersE:
  assumes "members cx m ms" "ctx_of g = cx" "jg_comma g = c # cs"
  obtains ts where "list_all2 member_text ms ts"
    "m g = (Ok (), g\<lparr>jg_out := jg_out g @ commas c ts, jg_comma := (c \<or> ms \<noteq> []) # cs\<rparr>)"
  using assms unfolding members_def by blast

lemma writesE:
  assumes "writes b cx m v" "ctx_of g = cx"
  obtains w t where "blank w" "\<not> b \<longrightarrow> w = []" "json_text v t" "m g = (Ok (), g\<lparr>jg_out := jg_out g @ w @ t\<rparr>)"
  using assms unfolding writes_def by blast

lemma writes_blanks: "writes b cx m v \<Longrightarrow> writes True cx m v"
  unfolding writes_def by blast

text \<open>Running the primitives of the writer.\<close>

lemma writer_steps [run_simps]:
  "seqA (emit s) n g = n (g\<lparr>jg_out := jg_out g @ s\<rparr>)"
  "seqA emit_indent n g = n (g\<lparr>jg_out := jg_out g @ indent g\<rparr>)"
  "jg_comma g \<noteq> [] \<Longrightarrow> seqA write_comma_if_needed n g =
     n (g\<lparr>jg_out := jg_out g @ (if hd (jg_comma g) then '','' @ [CHR 0x0A] else [])\<rparr>)"
  "jg_comma g \<noteq> [] \<Longrightarrow> indicate_comma_needed g = (Ok (), g\<lparr>jg_comma := True # tl (jg_comma g)\<rparr>)"
  "jg_comma g \<noteq> [] \<Longrightarrow> seqA indicate_comma_needed n g = n (g\<lparr>jg_comma := True # tl (jg_comma g)\<rparr>)"
  "jg_comma g \<noteq> [] \<Longrightarrow> seqA comma_pop n g = n (g\<lparr>jg_comma := tl (jg_comma g)\<rparr>)"
  "seqA (comma_push b) n g = n (g\<lparr>jg_comma := b # jg_comma g\<rparr>)"
  "seqA indent_up n g = n (g\<lparr>gn_indent := gn_indent g + 1\<rparr>)"
  "seqA indent_down n g = n (g\<lparr>gn_indent := gn_indent g - 1\<rparr>)"
  by (cases "jg_comma g"; simp add: emit_def emit_indent_def write_comma_if_needed_def indicate_comma_needed_def
      comma_pop_def comma_push_def comma_top_def indent_up_def indent_down_def run_simps)+

lemma emit_run [run_simps]: "emit s g = (Ok (), g\<lparr>jg_out := jg_out g @ s\<rparr>)"
  by (simp add: emit_def run_simps)

section \<open>Rules of the writer\<close>

lemma members_return: "members cx (returnA ()) []"
  by (rule membersI) (simp add: returnA_def)

lemma members_seq:
  assumes m: "members cx m xs" and n: "members cx n ys"
  shows "members cx (seqA m n) (xs @ ys)"
proof (rule membersI)
  fix g c cs assume g: "ctx_of g = cx" "jg_comma g = c # cs"
  obtain ts where ts: "list_all2 member_text xs ts"
    "m g = (Ok (), g\<lparr>jg_out := jg_out g @ commas c ts, jg_comma := (c \<or> xs \<noteq> []) # cs\<rparr>)"
    using membersE [OF m g] .
  let ?g = "g\<lparr>jg_out := jg_out g @ commas c ts, jg_comma := (c \<or> xs \<noteq> []) # cs\<rparr>"
  have g': "ctx_of ?g = cx" "jg_comma ?g = (c \<or> xs \<noteq> []) # cs" using g by simp_all
  obtain us where us: "list_all2 member_text ys us"
    "n ?g = (Ok (), ?g\<lparr>jg_out := jg_out ?g @ commas (c \<or> xs \<noteq> []) us, jg_comma := ((c \<or> xs \<noteq> []) \<or> ys \<noteq> []) # cs\<rparr>)"
    using membersE [OF n g'] .
  have len: "ts \<noteq> [] \<longleftrightarrow> xs \<noteq> []" using ts(1) by (auto simp: list_all2_Cons1)
  have "list_all2 member_text (xs @ ys) (ts @ us)" using ts(1) us(1) by (simp add: list_all2_appendI)
  moreover have "seqA m n g = (Ok (), g\<lparr>jg_out := jg_out g @ commas c (ts @ us), jg_comma := (c \<or> xs @ ys \<noteq> []) # cs\<rparr>)"
    using us(2) len by (simp add: seqA_Ok [where m = m, OF ts(2)] commas_append disj_assoc)
  ultimately show "\<exists>ts. list_all2 member_text (xs @ ys) ts \<and>
      seqA m n g = (Ok (), g\<lparr>jg_out := jg_out g @ commas c ts, jg_comma := (c \<or> xs @ ys \<noteq> []) # cs\<rparr>)" by blast
qed

lemma members_when: "(b \<Longrightarrow> members cx m xs) \<Longrightarrow> members cx (whenA b m) (if b then xs else [])"
  by (simp add: whenA_def members_return)

lemma members_get:
  "(\<And>g. ctx_of g = cx \<Longrightarrow> q g = Ok x) \<Longrightarrow> members cx (k x) xs \<Longrightarrow> members cx (bindA (getsO q) k) xs"
  unfolding members_def by (simp add: run_simps)

lemma writes_get:
  "(\<And>g. ctx_of g = cx \<Longrightarrow> q g = Ok x) \<Longrightarrow> writes b cx (k x) v \<Longrightarrow> writes b cx (bindA (getsO q) k) v"
  unfolding writes_def by (simp add: run_simps)

lemma json_str_text: "safe_string s \<Longrightarrow> json_text (JString s) (json_str s)"
  unfolding json_str_def by (intro string_text escape_json_chars)

lemma writes_emit: "json_text v t \<Longrightarrow> writes False cx (emit t) v"
  unfolding writes_def by (auto simp: run_simps)

lemma writes_string: "safe_string s \<Longrightarrow> writes False cx (write_string s) (JString s)"
  unfolding write_string_def by (intro writes_emit json_str_text)

text \<open>The text of a member, as the writer puts it together behind a pending comma.\<close>

lemma member_textI:
  assumes "safe_string k" "blank a" "blank w" "json_text v u"
  shows "member_text (k, v) (a @ json_str k @ '': '' @ w @ u)"
  unfolding member_text_def
proof (intro exI conjI)
  show "a @ json_str k @ '': '' @ w @ u = a @ CHR 0x22 # escape_json_string k @ CHR 0x22 # [] @ CHR '':'' # ('' '' @ w) @ u @ []"
    by (simp add: json_str_def)
  show "json_chars (fst (k, v)) (escape_json_string k)" using assms(1) by (simp add: escape_json_chars)
qed (use assms in simp_all)

lemma key_value_run:
  assumes m: "writes b cx m v" and k: "safe_string k"
  shows "members cx (seqA (write_key_and k) m) [(k, v)]"
proof (rule membersI)
  fix g c cs assume g: "ctx_of g = cx" "jg_comma g = c # cs"
  let ?nl = "if c then [CHR 0x0A] else []"
  let ?g = "g\<lparr>jg_out := jg_out g @ (if c then '','' else []) @ ?nl @ indent g @ json_str k @ '': '', jg_comma := True # cs\<rparr>"
  have "ctx_of ?g = cx" using g by simp
  then obtain w t where t: "blank w" "json_text v t" "m ?g = (Ok (), ?g\<lparr>jg_out := jg_out ?g @ w @ t\<rparr>)"
    using writesE [OF m] by metis
  have "indent (g\<lparr>jg_out := s\<rparr>) = indent g" for s by (simp add: indent_def)
  then have "seqA (write_key_and k) m g = m ?g"
    using g by (simp add: write_key_and_def run_simps)
  moreover have "member_text (k, v) ((?nl @ indent g) @ json_str k @ '': '' @ w @ t)"
    by (rule member_textI) (use t(1,2) k in simp_all)
  ultimately show "\<exists>ts. list_all2 member_text [(k, v)] ts \<and>
      seqA (write_key_and k) m g = (Ok (), g\<lparr>jg_out := jg_out g @ commas c ts, jg_comma := (c \<or> [(k, v)] \<noteq> []) # cs\<rparr>)"
    using t(3) by (intro exI [of _ "[(?nl @ indent g) @ json_str k @ '': '' @ w @ t]"]) simp
qed

lemma members_string: "safe_string k \<Longrightarrow> safe_string s \<Longrightarrow> members cx (write_key_and_string k s) [(k, JString s)]"
  and members_integer: "safe_string k \<Longrightarrow> members cx (write_key_and_integer k i) [(k, JNumber (show_int i))]"
  and members_bool: "safe_string k \<Longrightarrow> members cx (write_key_and_bool k b) [(k, JBool b)]"
proof -
  have fused: "members cx (block [write_comma_if_needed, emit_indent, emit (json_str k @ '': '' @ t), indicate_comma_needed]) [(k, v)]"
    if "safe_string k" "json_text v t" for v t
  proof (rule membersI)
    fix g c cs assume g: "ctx_of g = cx" "jg_comma g = c # cs"
    from key_value_run [OF writes_emit [OF that(2)] that(1), of cx]
    obtain ts where ts: "list_all2 member_text [(k, v)] ts" "seqA (write_key_and k) (emit t) g =
        (Ok (), g\<lparr>jg_out := jg_out g @ commas c ts, jg_comma := (c \<or> [(k, v)] \<noteq> []) # cs\<rparr>)"
      using g by (blast elim: membersE)
    have "block [write_comma_if_needed, emit_indent, emit (json_str k @ '': '' @ t), indicate_comma_needed] g =
        seqA (write_key_and k) (emit t) g"
      using g by (simp add: write_key_and_def run_simps)
    with ts show "\<exists>ts. list_all2 member_text [(k, v)] ts \<and>
        block [write_comma_if_needed, emit_indent, emit (json_str k @ '': '' @ t), indicate_comma_needed] g =
        (Ok (), g\<lparr>jg_out := jg_out g @ commas c ts, jg_comma := (c \<or> [(k, v)] \<noteq> []) # cs\<rparr>)" by metis
  qed
  show "safe_string k \<Longrightarrow> safe_string s \<Longrightarrow> members cx (write_key_and_string k s) [(k, JString s)]"
    unfolding write_key_and_string_def by (intro fused json_str_text)
  show "safe_string k \<Longrightarrow> members cx (write_key_and_integer k i) [(k, JNumber (show_int i))]"
    unfolding write_key_and_integer_def by (intro fused number_text show_int_number)
  show "safe_string k \<Longrightarrow> members cx (write_key_and_bool k b) [(k, JBool b)]"
    unfolding write_key_and_bool_def by (intro fused bool_text)
qed

text \<open>
  The rest of an object: the actions add the members and close it. A key may be followed by the
  action that writes its value.
\<close>

inductive closes :: "json_ctx \<Rightarrow> json_action list \<Rightarrow> (string \<times> json) list \<Rightarrow> bool" for cx where
  closes_end: "closes cx [end_object] []"
| closes_member: "members cx m xs \<Longrightarrow> closes cx ms ys \<Longrightarrow> closes cx (m # ms) (xs @ ys)"
| closes_pair: "members cx (seqA m n) xs \<Longrightarrow> closes cx ms ys \<Longrightarrow> closes cx (m # n # ms) (xs @ ys)"

lemma closes_key:
  "writes b cx m v \<Longrightarrow> safe_string k \<Longrightarrow> closes cx ms ys \<Longrightarrow> closes cx (write_key_and k # m # ms) ((k, v) # ys)"
  using closes_pair [OF key_value_run] by fastforce

lemma closes_split: "closes cx ms xs \<Longrightarrow> \<exists>m. members cx m xs \<and> block ms = seqA m (block [end_object])"
proof (induction rule: closes.induct)
  case closes_end
  have "block [end_object] = seqA (returnA ()) (block [end_object])" by (simp add: run_simps)
  with members_return show ?case by blast
next
  case (closes_member m xs ms ys)
  then show ?case using members_seq by (metis block.simps(2) run_seq_seq)
next
  case (closes_pair m n xs ms ys)
  then show ?case using members_seq by (metis block.simps(2) run_seq_seq)
qed

lemma writes_object:
  assumes "closes cx ms xs"
  shows "writes b cx (block (start_object b # ms)) (JObject xs)"
  unfolding writes_def
proof (intro allI impI)
  fix g assume g: "ctx_of g = cx"
  obtain m where m: "members cx m xs" and ms: "block ms = seqA m (block [end_object])"
    using closes_split [OF assms] by blast
  define w where "w = (if b then indent g else [])"
  let ?g = "g\<lparr>jg_out := jg_out g @ w @ ''{'' @ [CHR 0x0A], gn_indent := gn_indent g + 1, jg_comma := False # jg_comma g\<rparr>"
  have "ctx_of ?g = cx" "jg_comma ?g = False # jg_comma g" using g by simp_all
  then obtain ts where ts: "list_all2 member_text xs ts"
    "m ?g = (Ok (), ?g\<lparr>jg_out := jg_out ?g @ commas False ts, jg_comma := (False \<or> xs \<noteq> []) # jg_comma g\<rparr>)"
    by (rule membersE [OF m])
  have "block (start_object b # ms) g = seqA m (block [end_object]) ?g"
    by (cases b) (simp_all add: ms start_object_def run_simps w_def)
  also have "\<dots> = block [end_object] (?g\<lparr>jg_out := jg_out ?g @ commas False ts, jg_comma := (False \<or> xs \<noteq> []) # jg_comma g\<rparr>)"
    by (rule seqA_Ok [where m = m, OF ts(2)])
  also have "\<dots> = (Ok (), g\<lparr>jg_out := jg_out g @ w @ ''{'' @ [CHR 0x0A] @ commas False ts @ (CHR 0x0A # indent g) @ ''}''\<rparr>)"
    by (simp add: end_object_def run_simps indent_def)
  finally have run: "block (start_object b # ms) g =
      (Ok (), g\<lparr>jg_out := jg_out g @ w @ ''{'' @ [CHR 0x0A] @ commas False ts @ (CHR 0x0A # indent g) @ ''}''\<rparr>)" .
  have "json_text (JObject xs) (''{'' @ [CHR 0x0A] @ commas False ts @ (CHR 0x0A # indent g) @ ''}'')"
    using ts(1) unfolding member_text_def by (intro object_text) simp_all
  with run show "\<exists>w t. blank w \<and> (\<not> b \<longrightarrow> w = []) \<and> json_text (JObject xs) t \<and>
      block (start_object b # ms) g = (Ok (), g\<lparr>jg_out := jg_out g @ w @ t\<rparr>)"
    by (intro exI [of _ w] exI conjI) (auto simp: w_def)
qed

text \<open>The items of an array, from any state of the comma.\<close>

lemma items_run:
  assumes "list_all2 (\<lambda>x v. writes True cx (item x) v) xs vs" "ctx_of g = cx" "jg_comma g = c # cs"
  shows "\<exists>ts. list_all2 elem_text vs ts \<and>
     for_each xs (\<lambda>x. block [write_comma_if_needed, item x, indicate_comma_needed]) g =
       (Ok (), g\<lparr>jg_out := jg_out g @ commas c ts, jg_comma := (c \<or> xs \<noteq> []) # cs\<rparr>)"
  using assms
proof (induction xs arbitrary: vs g c)
  case Nil
  then show ?case by (auto simp: returnA_def)
next
  case (Cons x xs)
  then obtain v vs' where vs: "vs = v # vs'" "writes True cx (item x) v" "list_all2 (\<lambda>x v. writes True cx (item x) v) xs vs'"
    by (auto simp: list_all2_Cons1)
  let ?nl = "if c then [CHR 0x0A] else []"
  define sep where "sep = (if c then '','' else []) @ ?nl"
  let ?g1 = "g\<lparr>jg_out := jg_out g @ sep\<rparr>"
  have "ctx_of ?g1 = cx" using Cons.prems by simp
  then obtain w t where t: "blank w" "json_text v t" "item x ?g1 = (Ok (), ?g1\<lparr>jg_out := jg_out ?g1 @ w @ t\<rparr>)"
    using vs(2) by (metis writesE)
  let ?g2 = "?g1\<lparr>jg_out := jg_out ?g1 @ w @ t, jg_comma := True # cs\<rparr>"
  have step: "block [write_comma_if_needed, item x, indicate_comma_needed] g = (Ok (), ?g2)"
  proof -
    have "block [write_comma_if_needed, item x, indicate_comma_needed] g =
        seqA (item x) (block [indicate_comma_needed]) ?g1"
      using Cons.prems(3) by (simp add: run_simps sep_def)
    also have "\<dots> = block [indicate_comma_needed] (?g1\<lparr>jg_out := jg_out ?g1 @ w @ t\<rparr>)"
      by (rule seqA_Ok [where m = "item x", OF t(3)])
    finally show ?thesis using Cons.prems(3) by (simp add: run_simps)
  qed
  obtain ts where ts: "list_all2 elem_text vs' ts"
    "for_each xs (\<lambda>x. block [write_comma_if_needed, item x, indicate_comma_needed]) ?g2 =
       (Ok (), ?g2\<lparr>jg_out := jg_out ?g2 @ commas True ts, jg_comma := (True \<or> xs \<noteq> []) # cs\<rparr>)"
    using Cons.IH [OF vs(3), of ?g2 True] Cons.prems(2) by auto
  have "elem_text v (?nl @ w @ t)"
    unfolding elem_text_def using t(1,2) by (intro exI [of _ "?nl @ w"] exI [of _ t] exI [of _ "[]"]) simp
  moreover have "for_each (x # xs) (\<lambda>x. block [write_comma_if_needed, item x, indicate_comma_needed]) g =
      for_each xs (\<lambda>x. block [write_comma_if_needed, item x, indicate_comma_needed]) ?g2"
    unfolding for_each.simps by (rule seqA_Ok [where m = "block _", OF step])
  ultimately show ?case
    using ts by (intro exI [of _ "(?nl @ w @ t) # ts"]) (simp add: vs(1) sep_def)
qed

lemma writes_array:
  assumes "list_all2 (\<lambda>x v. writes True cx (item x) v) xs vs"
  shows "writes b cx (write_items xs item) (JArray vs)"
  unfolding writes_def
proof (intro allI impI)
  fix g assume g: "ctx_of g = cx"
  let ?g = "g\<lparr>jg_out := jg_out g @ ''['' @ [CHR 0x0A], gn_indent := gn_indent g + 1, jg_comma := False # jg_comma g\<rparr>"
  let ?loop = "for_each xs (\<lambda>x. block [write_comma_if_needed, item x, indicate_comma_needed])"
  obtain ts where ts: "list_all2 elem_text vs ts"
    "?loop ?g = (Ok (), ?g\<lparr>jg_out := jg_out ?g @ commas False ts, jg_comma := (xs \<noteq> []) # jg_comma g\<rparr>)"
    using items_run [OF assms, of ?g False] g by auto
  define e where "e = (if xs \<noteq> [] then [CHR 0x0A] else []) @ indent g"
  have "write_items xs item g = seqA ?loop (block [end_array]) ?g"
    by (simp add: write_items_def start_array_def run_simps)
  also have "\<dots> = block [end_array] (?g\<lparr>jg_out := jg_out ?g @ commas False ts, jg_comma := (xs \<noteq> []) # jg_comma g\<rparr>)"
    by (rule seqA_Ok [where m = ?loop, OF ts(2)])
  also have "\<dots> = (Ok (), g\<lparr>jg_out := jg_out g @ ''['' @ [CHR 0x0A] @ commas False ts @ e @ '']''\<rparr>)"
    by (simp add: end_array_def comma_top_def run_simps indent_def e_def)
  finally have run: "write_items xs item g = (Ok (), g\<lparr>jg_out := jg_out g @ ''['' @ [CHR 0x0A] @ commas False ts @ e @ '']''\<rparr>)" .
  have "json_text (JArray vs) (''['' @ [CHR 0x0A] @ commas False ts @ e @ '']'')"
    using ts(1) unfolding elem_text_def by (intro array_text) (simp_all add: e_def)
  with run show "\<exists>w t. blank w \<and> (\<not> b \<longrightarrow> w = []) \<and> json_text (JArray vs) t \<and>
      write_items xs item g = (Ok (), g\<lparr>jg_out := jg_out g @ w @ t\<rparr>)"
    by (intro exI [of _ "[]"] exI conjI) auto
qed

text \<open>
  A value followed by more members of the object it stands in, as the description of a type is
  written behind its key.
\<close>

definition value_members :: "json_ctx \<Rightarrow> json_action \<Rightarrow> json \<Rightarrow> (string \<times> json) list \<Rightarrow> bool" where
  "value_members cx m v ms \<longleftrightarrow> (\<forall>g cs. ctx_of g = cx \<longrightarrow> jg_comma g = True # cs \<longrightarrow>
     (\<exists>t ts. json_text v t \<and> list_all2 member_text ms ts \<and>
        m g = (Ok (), g\<lparr>jg_out := jg_out g @ t @ commas True ts\<rparr>)))"

lemma value_members_get:
  "(\<And>g. ctx_of g = cx \<Longrightarrow> q g = Ok x) \<Longrightarrow> value_members cx (k x) v xs \<Longrightarrow> value_members cx (bindA (getsO q) k) v xs"
  unfolding value_members_def by (simp add: run_simps)

lemma value_members_seq:
  assumes m: "writes False cx m v" and n: "members cx n ms"
  shows "value_members cx (seqA m n) v ms"
  unfolding value_members_def
proof (intro allI impI)
  fix g cs assume g: "ctx_of g = cx" "jg_comma g = True # cs"
  obtain t where t: "json_text v t" "m g = (Ok (), g\<lparr>jg_out := jg_out g @ t\<rparr>)"
    using writesE [OF m g(1)] by auto
  have g': "ctx_of (g\<lparr>jg_out := jg_out g @ t\<rparr>) = cx" "jg_comma (g\<lparr>jg_out := jg_out g @ t\<rparr>) = True # cs"
    using g by simp_all
  obtain ts where ts: "list_all2 member_text ms ts"
    "n (g\<lparr>jg_out := jg_out g @ t\<rparr>) = (Ok (), g\<lparr>jg_out := jg_out g @ t @ commas True ts, jg_comma := True # cs\<rparr>)"
    using membersE [OF n g'] by auto
  have "g\<lparr>jg_comma := True # cs\<rparr> = g" using g(2) [symmetric] by simp
  then have "g\<lparr>jg_out := s, jg_comma := True # cs\<rparr> = g\<lparr>jg_out := s\<rparr>" for s
    by (metis json_gen.surjective json_gen.update_convs(3,4))
  with t ts show "\<exists>t ts. json_text v t \<and> list_all2 member_text ms ts \<and>
        seqA m n g = (Ok (), g\<lparr>jg_out := jg_out g @ t @ commas True ts\<rparr>)"
    by (intro exI conjI) (auto simp: seqA_Ok [where m = m, OF t(2)])
qed

lemma key_value_members:
  assumes m: "value_members cx m v ms" and k: "safe_string k"
  shows "members cx (seqA (write_key_and k) m) ((k, v) # ms)"
proof (rule membersI)
  fix g c cs assume g: "ctx_of g = cx" "jg_comma g = c # cs"
  let ?nl = "if c then [CHR 0x0A] else []"
  let ?g = "g\<lparr>jg_out := jg_out g @ (if c then '','' else []) @ ?nl @ indent g @ json_str k @ '': '', jg_comma := True # cs\<rparr>"
  have "ctx_of ?g = cx" "jg_comma ?g = True # cs" using g by simp_all
  then obtain t ts where t: "json_text v t" "list_all2 member_text ms ts"
    "m ?g = (Ok (), ?g\<lparr>jg_out := jg_out ?g @ t @ commas True ts\<rparr>)"
    using m unfolding value_members_def by blast
  have "indent (g\<lparr>jg_out := s\<rparr>) = indent g" for s by (simp add: indent_def)
  then have "seqA (write_key_and k) m g = m ?g"
    using g by (simp add: write_key_and_def run_simps)
  moreover have "member_text (k, v) ((?nl @ indent g) @ json_str k @ '': '' @ [] @ t)"
    by (rule member_textI) (use t(1) k in simp_all)
  ultimately show "\<exists>ts. list_all2 member_text ((k, v) # ms) ts \<and>
      seqA (write_key_and k) m g = (Ok (), g\<lparr>jg_out := jg_out g @ commas c ts, jg_comma := (c \<or> (k, v) # ms \<noteq> []) # cs\<rparr>)"
    using t(2,3) by (intro exI [of _ "((?nl @ indent g) @ json_str k @ '': '' @ t) # ts"]) simp
qed

end
