(* ===== verification/Json_Spec.thy ===== *)
theory Json_Spec
  imports Json_Text
begin

text \<open>
  What the JSON generator describes, as a JSON value: a specification of each of its routines that
  knows nothing of text, commas, indentation or escapes, and the proof that the text the
  generator writes is a JSON text of that value.
\<close>

section \<open>The described values\<close>

fun res :: "'a outcome \<Rightarrow> 'a option" where
  "res (Ok x) = Some x"
| "res _ = None"

lemma res_Some [simp]: "res m = Some x \<longleftrightarrow> m = Ok x"
  by (cases m) simp_all

abbreviation cx_qualified :: "json_ctx \<Rightarrow> t_type_obj \<Rightarrow> string outcome" where
  "cx_qualified cx t \<equiv> get_qualified_name (cx_merge cx) (cx_this cx) (cx_heap cx) t"

definition spec_type_object :: "(addr \<Rightarrow> (string \<times> (string \<times> json) list) option) \<Rightarrow> nat \<Rightarrow> json_ctx \<Rightarrow> string \<Rightarrow> addr \<Rightarrow>
    (string \<times> json) list option" where
  "spec_type_object spec n cx name ty =
     Option.bind (res (get_true_type n (cx_heap cx) ty)) (\<lambda>ty'.
     Option.bind (h_types (cx_heap cx) ty') (\<lambda>t.
       if is_struct t \<or> is_xception t \<or> is_container t
       then map_option (\<lambda>(id, ms). [(name, JObject ((''typeId'', JString id) # ms))]) (spec ty')
       else Some []))"

primrec spec_type :: "nat \<Rightarrow> nat \<Rightarrow> json_ctx \<Rightarrow> addr \<Rightarrow> (string \<times> (string \<times> json) list) option" where
  "spec_type 0 = (\<lambda>n cx ty. None)"
| "spec_type (Suc k) = (\<lambda>n cx ty.
     Option.bind (res (get_true_type n (cx_heap cx) ty)) (\<lambda>ty'.
     Option.bind (h_types (cx_heap cx) ty') (\<lambda>t.
     Option.bind (res (get_type_name n (cx_heap cx) ty')) (\<lambda>id.
       map_option (Pair id)
        (case t of
           Struct st \<Rightarrow> map_option (\<lambda>q. [(''class'', JString q)]) (res (cx_qualified cx t))
         | Map_type m \<Rightarrow>
             Option.bind (res (get_type_name n (cx_heap cx) (ma_key_type m))) (\<lambda>kid.
             Option.bind (res (get_type_name n (cx_heap cx) (ma_val_type m))) (\<lambda>vid.
             Option.bind (spec_type_object (spec_type k n cx) n cx ''keyType'' (ma_key_type m)) (\<lambda>ks.
             Option.bind (spec_type_object (spec_type k n cx) n cx ''valueType'' (ma_val_type m)) (\<lambda>vs.
               Some ((''keyTypeId'', JString kid) # (''valueTypeId'', JString vid) # ks @ vs)))))
         | List_type l \<Rightarrow>
             Option.bind (res (get_type_name n (cx_heap cx) (li_elem_type l))) (\<lambda>eid.
             map_option (\<lambda>es. (''elemTypeId'', JString eid) # es)
               (spec_type_object (spec_type k n cx) n cx ''elemType'' (li_elem_type l)))
         | Set_type l \<Rightarrow>
             Option.bind (res (get_type_name n (cx_heap cx) (se_elem_type l))) (\<lambda>eid.
             map_option (\<lambda>es. (''elemTypeId'', JString eid) # es)
               (spec_type_object (spec_type k n cx) n cx ''elemType'' (se_elem_type l)))
         | _ \<Rightarrow> Some [])))))"

definition json_key :: "(double \<Rightarrow> string) \<Rightarrow> heap \<Rightarrow> t_const_value \<Rightarrow> string option" where
  "json_key pd h cv =
     (case cv_valType cv of
        Some CV_IDENTIFIER \<Rightarrow> map_option show_int (res (get_integer h cv))
      | Some CV_INTEGER \<Rightarrow> map_option show_int (res (get_integer h cv))
      | Some CV_DOUBLE \<Rightarrow> map_option pd (cv_doubleVal cv)
      | Some CV_STRING \<Rightarrow> Some (cv_stringVal cv)
      | _ \<Rightarrow> None)"

text \<open>A map with a key that is itself a list or a map has no JSON value.\<close>

function spec_const :: "(double \<Rightarrow> string) \<Rightarrow> heap \<Rightarrow> t_const_value \<Rightarrow> json option" where
  "spec_const pd h cv =
     (case cv_valType cv of
        None \<Rightarrow> None
      | Some vt \<Rightarrow>
          (case vt of
             CV_IDENTIFIER \<Rightarrow> map_option (\<lambda>i. JNumber (show_int i)) (res (get_integer h cv))
           | CV_INTEGER \<Rightarrow> map_option (\<lambda>i. JNumber (show_int i)) (res (get_integer h cv))
           | CV_DOUBLE \<Rightarrow> map_option (\<lambda>d. JNumber (pd d)) (cv_doubleVal cv)
           | CV_STRING \<Rightarrow> Some (JString (cv_stringVal cv))
           | CV_LIST \<Rightarrow> map_option JArray (those (map (spec_const pd h) (cv_listVal cv)))
           | CV_MAP \<Rightarrow>
               map_option JObject (those (map (\<lambda>(k, v).
                 Option.bind (json_key pd h k) (\<lambda>key. map_option (Pair key) (spec_const pd h v))) (cv_mapVal cv)))))"
  by pat_completeness auto
termination
  by (relation "measure (\<lambda>(pd, h, cv). size cv)") (auto dest: cv_children_smaller)

declare spec_const.simps [simp del]

section \<open>Reading the parse tree\<close>

lemma members_read:
  "get_type_name n (cx_heap cx) ty = Ok s \<Longrightarrow> members cx (kn s) xs \<Longrightarrow> members cx (bindA (type_name_of n ty) kn) xs"
  "cx_qualified cx t = Ok s \<Longrightarrow> members cx (kn s) xs \<Longrightarrow> members cx (bindA (qualified_name_of t) kn) xs"
  "get_true_type n (cx_heap cx) ty = Ok ty' \<Longrightarrow> members cx (kt ty') xs \<Longrightarrow> members cx (bindA (true_type_of n ty) kt) xs"
  "h_types (cx_heap cx) ty = Some t \<Longrightarrow> members cx (ko t) xs \<Longrightarrow> members cx (bindA (type_at ty) ko) xs"
  unfolding type_name_of_def qualified_name_of_def true_type_of_def type_at_def
  by (rule members_get; auto)+

lemma value_members_read:
  "get_true_type n (cx_heap cx) ty = Ok ty' \<Longrightarrow> value_members cx (kt ty') v xs \<Longrightarrow>
     value_members cx (bindA (true_type_of n ty) kt) v xs"
  "h_types (cx_heap cx) ty = Some t \<Longrightarrow> value_members cx (ko t) v xs \<Longrightarrow> value_members cx (bindA (type_at ty) ko) v xs"
  unfolding true_type_of_def type_at_def by (rule value_members_get; auto)+

lemma writes_read:
  "get_type_name n (cx_heap cx) ty = Ok s \<Longrightarrow> writes b cx (kn s) v \<Longrightarrow> writes b cx (bindA (type_name_of n ty) kn) v"
  "h_types (cx_heap cx) ty = Some t \<Longrightarrow> writes b cx (ko t) v \<Longrightarrow> writes b cx (bindA (type_at ty) ko) v"
  "h_fields (cx_heap cx) fa = Some f \<Longrightarrow> writes b cx (kf f) v \<Longrightarrow>
     writes b cx (bindA (getsO (\<lambda>g. deref (h_fields (gn_heap g) fa))) kf) v"
  "h_programs (cx_heap cx) pa = Some p \<Longrightarrow> writes b cx (kp p) v \<Longrightarrow>
     writes b cx (bindA (getsO (\<lambda>g. deref (h_programs (gn_heap g) pa))) kp) v"
  "get_integer (cx_heap cx) cv = Ok i \<Longrightarrow> writes b cx (ki i) v \<Longrightarrow>
     writes b cx (bindA (getsO (\<lambda>g. get_integer (gn_heap g) cv)) ki) v"
  "po = Some x \<Longrightarrow> writes b cx (kx x) v \<Longrightarrow> writes b cx (bindA (getsO (\<lambda>_. deref po)) kx) v"
  unfolding type_name_of_def type_at_def
  by (rule writes_get; auto)+

section \<open>Refinement\<close>

subsection \<open>Types\<close>

lemma safe_keys [simp]:
  "safe_string ''typeId''" "safe_string ''class''" "safe_string ''keyTypeId''" "safe_string ''valueTypeId''"
  "safe_string ''keyType''" "safe_string ''valueType''" "safe_string ''elemTypeId''" "safe_string ''elemType''"
  "safe_string ''type''" "safe_string ''name''" "safe_string ''doc''" "safe_string ''key''"
  "safe_string ''required''" "safe_string ''req_out''" "safe_string ''optional''" "safe_string ''default''"
  "safe_string ''returnTypeId''" "safe_string ''returnType''" "safe_string ''oneway''"
  "safe_string ''arguments''" "safe_string ''exceptions''" "safe_string ''extends''" "safe_string ''functions''"
  "safe_string ''isException''" "safe_string ''isUnion''" "safe_string ''fields''" "safe_string ''value''"
  "safe_string ''members''" "safe_string ''namespaces''" "safe_string ''includes''" "safe_string ''enums''"
  "safe_string ''typedefs''" "safe_string ''structs''" "safe_string ''constants''" "safe_string ''services''"
  by (simp_all add: safe_string_def)

abbreviation members_safe :: "(string \<times> json) list \<Rightarrow> bool" where
  "members_safe ms \<equiv> list_all (\<lambda>(k, v). safe_string k \<and> json_safe v) ms"

lemma type_object_refines:
  assumes spec: "spec_type_object spec n cx name ty = Some ms" "members_safe ms" "safe_string name"
    and rec: "\<And>ty tid xs. spec ty = Some (tid, xs) \<Longrightarrow> safe_string tid \<Longrightarrow> members_safe xs \<Longrightarrow>
      value_members cx (write_spec ty) (JString tid) xs"
  shows "members cx (write_type_spec_object write_spec n name ty) ms"
proof -
  from spec(1) obtain ty' t where t: "get_true_type n (cx_heap cx) ty = Ok ty'" "h_types (cx_heap cx) ty' = Some t"
    and ms: "(if is_struct t \<or> is_xception t \<or> is_container t
       then map_option (\<lambda>(tid, ms). [(name, JObject ((''typeId'', JString tid) # ms))]) (spec ty') else Some []) = Some ms"
    by (auto simp: spec_type_object_def bind_eq_Some_conv)
  let ?body = "block [write_key_and name, start_object False, write_key_and ''typeId'', write_spec ty', end_object]"
  have "members cx (whenA (is_struct t \<or> is_xception t \<or> is_container t) ?body) ms"
  proof (cases "is_struct t \<or> is_xception t \<or> is_container t")
    case True
    with ms obtain tid xs where xs: "spec ty' = Some (tid, xs)" "ms = [(name, JObject ((''typeId'', JString tid) # xs))]"
      by auto
    have "members cx (seqA (write_key_and ''typeId'') (write_spec ty')) ((''typeId'', JString tid) # xs)"
      using xs spec(2) by (intro key_value_members rec) simp_all
    then have "closes cx [write_key_and ''typeId'', write_spec ty', end_object] ((''typeId'', JString tid) # xs)"
      using closes_pair closes_end by fastforce
    then have "members cx ?body ms"
      unfolding xs(2) block.simps(2) [of "write_key_and name"] by (intro key_value_run [OF writes_object] spec(3))
    with True show ?thesis by (simp add: whenA_def)
  next
    case False
    with ms show ?thesis by (simp add: whenA_def members_return)
  qed
  with t show ?thesis
    unfolding write_type_spec_object_def by (intro members_read)
qed

lemma members_last: "members cx m xs \<Longrightarrow> members cx (seqA m (returnA ())) xs"
  using members_seq [OF _ members_return] by fastforce

lemma members_cons: "members cx m [x] \<Longrightarrow> members cx n ys \<Longrightarrow> members cx (seqA m n) (x # ys)"
  using members_seq by fastforce

lemma type_spec_refines:
  "spec_type k n cx ty = Some (tid, ms) \<Longrightarrow> safe_string tid \<Longrightarrow> members_safe ms \<Longrightarrow>
   value_members cx (write_type_spec k n ty) (JString tid) ms"
proof (induction k arbitrary: ty tid ms)
  case (Suc k)
  then obtain ty' t where t: "get_true_type n (cx_heap cx) ty = Ok ty'" "h_types (cx_heap cx) ty' = Some t"
      "get_type_name n (cx_heap cx) ty' = Ok tid"
    by (auto simp: bind_eq_Some_conv)
  note obj = type_object_refines [where spec = "spec_type k n cx" and write_spec = "write_type_spec k n", OF _ _ _ Suc.IH]
  let ?rest = "case t of
          Struct st \<Rightarrow> bindA (qualified_name_of t) (write_key_and_string ''class'')
        | Map_type m \<Rightarrow>
            block
             [bindA (type_name_of n (ma_key_type m)) (write_key_and_string ''keyTypeId''),
              bindA (type_name_of n (ma_val_type m)) (write_key_and_string ''valueTypeId''),
              write_type_spec_object (write_type_spec k n) n ''keyType'' (ma_key_type m),
              write_type_spec_object (write_type_spec k n) n ''valueType'' (ma_val_type m)]
        | List_type l \<Rightarrow>
            seqA (bindA (type_name_of n (li_elem_type l)) (write_key_and_string ''elemTypeId''))
              (write_type_spec_object (write_type_spec k n) n ''elemType'' (li_elem_type l))
        | Set_type l \<Rightarrow>
            seqA (bindA (type_name_of n (se_elem_type l)) (write_key_and_string ''elemTypeId''))
              (write_type_spec_object (write_type_spec k n) n ''elemType'' (se_elem_type l))
        | _ \<Rightarrow> returnA ()"
  have rest: "members cx ?rest ms"
  proof (cases t)
    case (Struct st)
    with Suc.prems t show ?thesis by (auto intro!: members_read members_string)
  next
    case (Map_type m)
    with Suc.prems t show ?thesis
      unfolding Map_type t_type_obj.case block.simps
      by (auto simp: bind_eq_Some_conv intro!: members_cons members_seq members_last members_read members_string obj)
  next
    case (List_type l)
    with Suc.prems t show ?thesis
      by (auto simp: bind_eq_Some_conv intro!: members_cons members_read members_string obj)
  next
    case (Set_type l)
    with Suc.prems t show ?thesis
      by (auto simp: bind_eq_Some_conv intro!: members_cons members_read members_string obj)
  qed (use Suc.prems t in \<open>auto simp: members_return\<close>)
  have "value_members cx (seqA (bindA (type_name_of n ty') write_string) ?rest) (JString tid) ms"
    by (rule value_members_seq [OF writes_read(1) [where kn = write_string, OF t(3) writes_string [OF Suc.prems(2)]] rest])
  with t show ?case
    unfolding write_type_spec.simps by (intro value_members_read)
qed simp

subsection \<open>Constants\<close>

lemma those_Some: "those xs = Some ys \<longleftrightarrow> list_all2 (\<lambda>x y. x = Some y) xs ys"
proof (induction xs arbitrary: ys)
  case (Cons x xs)
  then show ?case by (cases x) (auto simp: list_all2_Cons1 Cons.IH)
qed auto

lemma those_map_Some: "those (map f xs) = Some ys \<longleftrightarrow> list_all2 (\<lambda>x y. f x = Some y) xs ys"
  by (simp add: those_Some list_all2_map1)

lemma writes_indented: "writes b cx m v \<Longrightarrow> writes True cx (seqA emit_indent m) v"
  unfolding writes_def
proof (intro allI impI)
  fix g
  assume m: "\<forall>g. ctx_of g = cx \<longrightarrow> (\<exists>w t. blank w \<and> (\<not> b \<longrightarrow> w = []) \<and> json_text v t \<and> m g = (Ok (), g\<lparr>jg_out := jg_out g @ w @ t\<rparr>))"
    and g: "ctx_of g = cx"
  let ?g = "g\<lparr>jg_out := jg_out g @ indent g\<rparr>"
  have "ctx_of ?g = cx" using g by simp
  then obtain w t where "blank w" "json_text v t" "m ?g = (Ok (), ?g\<lparr>jg_out := jg_out ?g @ w @ t\<rparr>)"
    using m by blast
  then show "\<exists>w t. blank w \<and> (\<not> True \<longrightarrow> w = []) \<and> json_text v t \<and> seqA emit_indent m g = (Ok (), g\<lparr>jg_out := jg_out g @ w @ t\<rparr>)"
    by (intro exI [of _ "indent g @ w"] exI [of _ t]) (simp add: run_simps)
qed

lemma members_for_each:
  "list_all2 (\<lambda>x y. members cx (f x) [y]) xs ys \<Longrightarrow> members cx (for_each xs f) ys"
proof (induction xs arbitrary: ys)
  case (Cons x xs)
  then show ?case by (auto simp: list_all2_Cons1 intro: members_cons)
qed (simp add: members_return)

lemma members_entry:
  assumes k: "writes False cx mk (JString key)" and v: "writes False cx mv v"
  shows "members cx (block [write_comma_if_needed, emit_indent, mk, emit '': '', mv, indicate_comma_needed]) [(key, v)]"
proof (rule membersI)
  fix g c cs assume g: "ctx_of g = cx" "jg_comma g = c # cs"
  define pre where "pre = (if c then [CHR 0x0A] else []) @ indent g"
  define sep where "sep = (if c then '','' else []) @ pre"
  have pre: "blank pre" by (simp add: pre_def)
  let ?g1 = "g\<lparr>jg_out := jg_out g @ sep\<rparr>"
  have "ctx_of ?g1 = cx" using g by simp
  then obtain t where "json_text (JString key) t" and mk: "mk ?g1 = (Ok (), ?g1\<lparr>jg_out := jg_out ?g1 @ t\<rparr>)"
    using writesE [OF k] by (metis append_Nil)
  then obtain s where s: "t = CHR 0x22 # s @ [CHR 0x22]" "json_chars key s" by (auto elim: json_text.cases)
  let ?g2 = "g\<lparr>jg_out := jg_out g @ sep @ t @ '': ''\<rparr>"
  have "ctx_of ?g2 = cx" using g by simp
  then obtain u where u: "json_text v u" and mv: "mv ?g2 = (Ok (), ?g2\<lparr>jg_out := jg_out ?g2 @ u\<rparr>)"
    using writesE [OF v] by (metis append_Nil)
  have ind: "indent (g\<lparr>jg_out := x\<rparr>) = indent g" for x by (simp add: indent_def)
  have "block [write_comma_if_needed, emit_indent, mk, emit '': '', mv, indicate_comma_needed] g =
      seqA mk (block [emit '': '', mv, indicate_comma_needed]) ?g1"
    using g(2) by (simp add: run_simps ind sep_def pre_def)
  also have "\<dots> = block [emit '': '', mv, indicate_comma_needed] (?g1\<lparr>jg_out := jg_out ?g1 @ t\<rparr>)"
    by (rule seqA_Ok [where m = mk, OF mk])
  also have "\<dots> = seqA mv (block [indicate_comma_needed]) ?g2" by (simp add: run_simps)
  also have "\<dots> = block [indicate_comma_needed] (?g2\<lparr>jg_out := jg_out ?g2 @ u\<rparr>)"
    by (rule seqA_Ok [where m = mv, OF mv])
  also have "\<dots> = (Ok (), g\<lparr>jg_out := jg_out g @ sep @ t @ '': '' @ u, jg_comma := True # cs\<rparr>)"
    using g(2) by (simp add: run_simps)
  finally have run: "block [write_comma_if_needed, emit_indent, mk, emit '': '', mv, indicate_comma_needed] g =
      (Ok (), g\<lparr>jg_out := jg_out g @ sep @ t @ '': '' @ u, jg_comma := True # cs\<rparr>)" .
  have "member_text (key, v) (pre @ CHR 0x22 # s @ CHR 0x22 # [] @ CHR '':'' # '' '' @ u @ [])"
    unfolding member_text_def using s(2) u pre
    by (intro exI [of _ "pre"] exI [of _ s] exI [of _ "[]"] exI [of _ "'' ''"] exI [of _ u] exI [of _ "[]"] conjI)
      simp_all
  then show "\<exists>ts. list_all2 member_text [(key, v)] ts \<and>
      block [write_comma_if_needed, emit_indent, mk, emit '': '', mv, indicate_comma_needed] g =
      (Ok (), g\<lparr>jg_out := jg_out g @ commas c ts, jg_comma := (c \<or> [(key, v)] \<noteq> []) # cs\<rparr>)"
    unfolding run s(1) sep_def
    by (intro exI [of _ "[pre @ CHR 0x22 # s @ CHR 0x22 # [] @ CHR '':'' # '' '' @ u @ []]"]) simp
qed

lemma bind_get_Ok [simp]: "bindA (getsO (\<lambda>_. Ok x)) f = f x"
  by (simp add: run_simps fun_eq_iff)

lemma key_refines:
  assumes "json_key pd (cx_heap cx) cv = Some key" "safe_string key"
  shows "writes False cx (write_const_value pd True cv) (JString key)"
proof (cases "cv_valType cv")
  case (Some vt)
  with assms show ?thesis
    unfolding write_const_value.simps [of pd True cv]
    by (cases vt) (auto simp: json_key_def intro!: writes_read writes_string)
qed (use assms in \<open>simp add: json_key_def\<close>)

definition const_entry :: "(double \<Rightarrow> string) \<Rightarrow> t_const_value \<times> t_const_value \<Rightarrow> json_action" where
  "const_entry pd = (\<lambda>(k, w). block [write_comma_if_needed, emit_indent, write_const_value pd True k, emit '': '',
     write_const_value pd False w, indicate_comma_needed])"

lemma entries_refine:
  assumes "those (map (\<lambda>(k, w). Option.bind (json_key pd (cx_heap cx) k)
      (\<lambda>key. map_option (Pair key) (spec_const pd (cx_heap cx) w))) kvs) = Some ms" "members_safe ms"
    and rec: "\<And>k w j. (k, w) \<in> set kvs \<Longrightarrow> spec_const pd (cx_heap cx) w = Some j \<Longrightarrow> json_safe j \<Longrightarrow>
      writes False cx (write_const_value pd False w) j"
  shows "members cx (for_each kvs (const_entry pd)) ms"
  using assms
proof (induction kvs arbitrary: ms)
  case Nil
  then show ?case by (simp add: members_return)
next
  case (Cons x kvs)
  obtain k w where x: "x = (k, w)" by (cases x)
  with Cons.prems(1) obtain key j ms' where ms: "ms = (key, j) # ms'" "json_key pd (cx_heap cx) k = Some key"
      "spec_const pd (cx_heap cx) w = Some j"
      "those (map (\<lambda>(k, w). Option.bind (json_key pd (cx_heap cx) k)
        (\<lambda>key. map_option (Pair key) (spec_const pd (cx_heap cx) w))) kvs) = Some ms'"
    by (auto simp: bind_eq_Some_conv split: option.splits)
  have "members cx (const_entry pd x) [(key, j)]"
    unfolding const_entry_def x prod.case using Cons.prems(2) ms(1,2) Cons.prems(3) [of k w j] ms(3) x
    by (intro members_entry key_refines) simp_all
  moreover have "members cx (for_each kvs (const_entry pd)) ms'"
    using Cons.prems(2,3) ms(1,4) by (intro Cons.IH) auto
  ultimately show ?case unfolding ms(1) for_each.simps by (rule members_cons)
qed

lemma const_refines:
  "spec_const pd (cx_heap cx) cv = Some v \<Longrightarrow> json_safe v \<Longrightarrow> writes False cx (write_const_value pd False cv) v"
proof (induction "size cv" arbitrary: cv v rule: less_induct)
  case less
  obtain vt where vt: "cv_valType cv = Some vt"
    using less.prems(1) by (cases "cv_valType cv") (simp_all add: spec_const.simps)
  note code = write_const_value.simps [of pd False cv] and spec = less.prems(1) [unfolded spec_const.simps [of pd _ cv]]
  show ?case
  proof (cases vt)
    case CV_LIST
    with spec vt obtain vs where v: "v = JArray vs"
      and vs: "list_all2 (\<lambda>x y. spec_const pd (cx_heap cx) x = Some y) (cv_listVal cv) vs"
      by (auto simp: those_map_Some)
    have "list_all2 (\<lambda>x y. writes True cx (seqA emit_indent (write_const_value pd False x)) y) (cv_listVal cv) vs"
      using vs less.prems(2) unfolding v
      by (auto simp: list_all2_conv_all_nth list_all_length
          intro!: writes_indented [where b = False] less.hyps cv_children_smaller(1))
    then have "writes False cx (write_items (cv_listVal cv) (\<lambda>x. seqA emit_indent (write_const_value pd False x))) v"
      unfolding v by (rule writes_array)
    moreover have "write_const_value pd False cv = write_items (cv_listVal cv) (\<lambda>x. seqA emit_indent (write_const_value pd False x))"
      unfolding code using vt CV_LIST by (simp add: write_items_def run_seq_seq)
    ultimately show ?thesis by simp
  next
    case CV_MAP
    with spec vt obtain ms where v: "v = JObject ms" and ms: "those (map (\<lambda>(k, w). Option.bind (json_key pd (cx_heap cx) k)
        (\<lambda>key. map_option (Pair key) (spec_const pd (cx_heap cx) w))) (cv_mapVal cv)) = Some ms"
      by auto
    have "members cx (for_each (cv_mapVal cv) (const_entry pd)) ms"
      using ms less.prems(2) unfolding v
      by (intro entries_refine) (auto intro: less.hyps dest: cv_children_smaller)
    then have "closes cx [for_each (cv_mapVal cv) (const_entry pd), end_object] ms"
      using closes_member closes_end by fastforce
    then have "writes False cx (block [start_object False, for_each (cv_mapVal cv) (const_entry pd), end_object]) v"
      unfolding v by (rule writes_object)
    then show ?thesis unfolding code const_entry_def using vt CV_MAP by simp
  qed (use spec vt less.prems(2) in \<open>auto simp: code intro!: writes_read writes_string writes_emit number_text\<close>)
qed

end
