(* ===== verification/Json_Program.thy ===== *)
theory Json_Program
  imports Json_Spec
begin

text \<open>
  The JSON description of whole programs: what the generator describes of fields, functions,
  services, structs, enums, typedefs, constants and of the program, and the theorem that the file it
  writes is a JSON text of that description.
\<close>

section \<open>The described values\<close>

definition spec_doc :: "'a t_doc_scheme \<Rightarrow> (string \<times> json) list" where
  "spec_doc d = (if has_doc d then [(''doc'', JString (doc d))] else [])"

abbreviation spec_type_of :: "nat \<Rightarrow> json_ctx \<Rightarrow> string \<Rightarrow> addr \<Rightarrow> (string \<times> json) list option" where
  "spec_type_of n cx name ty \<equiv> spec_type_object (spec_type n n cx) n cx name ty"

fun req_name :: "e_req \<Rightarrow> string" where
  "req_name T_REQUIRED = ''required''"
| "req_name T_OPT_IN_REQ_OUT = ''req_out''"
| "req_name T_OPTIONAL = ''optional''"

definition spec_default :: "(double \<Rightarrow> string) \<Rightarrow> json_ctx \<Rightarrow> t_const_value option \<Rightarrow> (string \<times> json) list option" where
  "spec_default pd cx v =
     (case v of None \<Rightarrow> Some [] | Some cv \<Rightarrow> map_option (\<lambda>j. [(''default'', j)]) (spec_const pd (cx_heap cx) cv))"

definition spec_field :: "(double \<Rightarrow> string) \<Rightarrow> nat \<Rightarrow> json_ctx \<Rightarrow> addr \<Rightarrow> json option" where
  "spec_field pd n cx fa =
     Option.bind (h_fields (cx_heap cx) fa) (\<lambda>f.
     Option.bind (res (get_type_name n (cx_heap cx) (fl_type f))) (\<lambda>tid.
     Option.bind (spec_type_of n cx ''type'' (fl_type f)) (\<lambda>tms.
     Option.bind (fl_req f) (\<lambda>req.
     Option.bind (spec_default pd cx (fl_value f)) (\<lambda>d.
       Some (JObject
         ((''key'', JNumber (show_int (fl_key f))) # (''name'', JString (fl_name f)) #
          (''typeId'', JString tid) # tms @ spec_doc f @ (''required'', JString (req_name req)) # d)))))))"

definition spec_fields :: "(double \<Rightarrow> string) \<Rightarrow> nat \<Rightarrow> json_ctx \<Rightarrow> addr \<Rightarrow> json option" where
  "spec_fields pd n cx ty =
     (case h_types (cx_heap cx) ty of
        Some (Struct st) \<Rightarrow> map_option JArray (those (map (spec_field pd n cx) (st_members st)))
      | _ \<Rightarrow> None)"

definition spec_function :: "(double \<Rightarrow> string) \<Rightarrow> nat \<Rightarrow> json_ctx \<Rightarrow> t_function \<Rightarrow> json option" where
  "spec_function pd n cx fn =
     Option.bind (res (get_type_name n (cx_heap cx) (fn_returntype fn))) (\<lambda>tid.
     Option.bind (spec_type_of n cx ''returnType'' (fn_returntype fn)) (\<lambda>tms.
     Option.bind (spec_fields pd n cx (fn_arglist fn)) (\<lambda>args.
     Option.bind (spec_fields pd n cx (fn_xceptions fn)) (\<lambda>excs.
       Some (JObject
         ((''name'', JString (fn_name fn)) # (''returnTypeId'', JString tid) # tms @
          (''oneway'', JBool (fn_oneway fn)) # spec_doc fn @
          [(''arguments'', args), (''exceptions'', excs)]))))))"

definition spec_extends :: "json_ctx \<Rightarrow> addr option \<Rightarrow> (string \<times> json) list option" where
  "spec_extends cx e =
     (case e of
        None \<Rightarrow> Some []
      | Some ea \<Rightarrow>
          Option.bind (h_types (cx_heap cx) ea) (\<lambda>et.
          map_option (\<lambda>q. [(''extends'', JString q)]) (res (cx_qualified cx et))))"

definition spec_service :: "(double \<Rightarrow> string) \<Rightarrow> nat \<Rightarrow> json_ctx \<Rightarrow> addr \<Rightarrow> json option" where
  "spec_service pd n cx sa =
     (case h_types (cx_heap cx) sa of
        Some (Service sv) \<Rightarrow>
          Option.bind (res (cx_qualified cx (Service sv))) (\<lambda>name.
          Option.bind (spec_extends cx (sv_extends sv)) (\<lambda>ext.
          Option.bind (those (map (spec_function pd n cx) (sv_functions sv))) (\<lambda>fns.
            Some (JObject ((''name'', JString name) # ext @ spec_doc sv @ [(''functions'', JArray fns)])))))
      | _ \<Rightarrow> None)"

definition spec_struct :: "(double \<Rightarrow> string) \<Rightarrow> nat \<Rightarrow> json_ctx \<Rightarrow> addr \<Rightarrow> json option" where
  "spec_struct pd n cx oa =
     (case h_types (cx_heap cx) oa of
        Some (Struct st) \<Rightarrow>
          map_option (\<lambda>fs. JObject
            ((''name'', JString (ty_name st)) # spec_doc st @
             [(''isException'', JBool (st_is_xception st)), (''isUnion'', JBool (st_is_union st)),
              (''fields'', JArray fs)]))
           (those (map (spec_field pd n cx) (st_members st)))
      | _ \<Rightarrow> None)"

definition spec_enum_value :: "t_enum_value \<Rightarrow> json" where
  "spec_enum_value c =
     JObject ((''name'', JString (ev_name c)) # (''value'', JNumber (show_int (ev_value c))) # spec_doc c)"

definition spec_enum :: "json_ctx \<Rightarrow> addr \<Rightarrow> json option" where
  "spec_enum cx ea =
     (case h_types (cx_heap cx) ea of
        Some (Enum e) \<Rightarrow>
          Some (JObject ((''name'', JString (ty_name e)) # spec_doc e @
            [(''members'', JArray (map spec_enum_value (en_constants e)))]))
      | _ \<Rightarrow> None)"

definition spec_typedef :: "nat \<Rightarrow> json_ctx \<Rightarrow> addr \<Rightarrow> json option" where
  "spec_typedef n cx ta =
     Option.bind (h_types (cx_heap cx) ta) (\<lambda>t.
     Option.bind (res (cx_qualified cx t)) (\<lambda>name.
     Option.bind (res (get_true_type n (cx_heap cx) ta)) (\<lambda>ty.
     Option.bind (res (get_type_name n (cx_heap cx) ty)) (\<lambda>tid.
     Option.bind (spec_type_of n cx ''type'' ty) (\<lambda>tms.
       Some (JObject ((''name'', JString name) # (''typeId'', JString tid) # tms @ spec_doc (type_part t))))))))"

definition spec_constant :: "(double \<Rightarrow> string) \<Rightarrow> nat \<Rightarrow> json_ctx \<Rightarrow> t_const \<Rightarrow> json option" where
  "spec_constant pd n cx c =
     Option.bind (res (get_type_name n (cx_heap cx) (co_type c))) (\<lambda>tid.
     Option.bind (spec_type_of n cx ''type'' (co_type c)) (\<lambda>tms.
     Option.bind (spec_const pd (cx_heap cx) (co_value c)) (\<lambda>v.
       Some (JObject ((''name'', JString (co_name c)) # (''typeId'', JString tid) # tms @ spec_doc c @ [(''value'', v)])))))"

definition spec_outer :: "json_ctx \<Rightarrow> t_program \<Rightarrow> (string \<times> json) list option" where
  "spec_outer cx p =
     (if cx_merge cx then Some []
      else map_option (\<lambda>ps.
        [(''namespaces'', JObject (map (\<lambda>(lang, ns). (lang, JString ns)) (pr_namespaces p))),
         (''includes'', JArray (map (\<lambda>q. JString (pr_name q)) ps))])
       (those (map (h_programs (cx_heap cx)) (pr_includes p))))"

definition spec_program :: "(double \<Rightarrow> string) \<Rightarrow> nat \<Rightarrow> json_ctx \<Rightarrow> json option" where
  "spec_program pd n cx =
     Option.bind (h_programs (cx_heap cx) (cx_this cx)) (\<lambda>p.
     Option.bind (spec_outer cx p) (\<lambda>outer.
     Option.bind (those (map (spec_enum cx) (pr_enums p))) (\<lambda>enums.
     Option.bind (those (map (spec_typedef n cx) (pr_typedefs p))) (\<lambda>typedefs.
     Option.bind (those (map (spec_struct pd n cx) (pr_objects p))) (\<lambda>structs.
     Option.bind (those (map (spec_constant pd n cx) (pr_consts p))) (\<lambda>consts.
     Option.bind (those (map (spec_service pd n cx) (pr_services p))) (\<lambda>services.
       Some (JObject
         ((''name'', JString (pr_name p)) # spec_doc p @ outer @
          [(''enums'', JArray enums), (''typedefs'', JArray typedefs), (''structs'', JArray structs),
           (''constants'', JArray consts), (''services'', JArray services)])))))))))"

section \<open>Refinement\<close>

lemma closes_cons: "members cx m [x] \<Longrightarrow> closes cx ms ys \<Longrightarrow> closes cx (m # ms) (x # ys)"
  using closes_member by fastforce

lemma closes_last: "members cx m xs \<Longrightarrow> closes cx [m, end_object] xs"
  using closes_member [OF _ closes_end] by fastforce

lemma closes_last_key: "writes b cx m v \<Longrightarrow> safe_string k \<Longrightarrow> closes cx [write_key_and k, m, end_object] [(k, v)]"
  using closes_key [OF _ _ closes_end] by blast

lemma members_doc: "members_safe (spec_doc d) \<Longrightarrow> members cx (write_doc d) (spec_doc d)"
  unfolding write_doc_def spec_doc_def by (rule members_when) (simp add: members_string)

lemma members_type:
  "spec_type_of n cx name ty = Some ms \<Longrightarrow> members_safe ms \<Longrightarrow> safe_string name \<Longrightarrow> members cx (write_type_object n name ty) ms"
  unfolding write_type_object_def by (rule type_object_refines) (auto intro: type_spec_refines)

lemma writes_those:
  assumes "those (map f xs) = Some vs" "list_all json_safe vs"
    and "\<And>x v. x \<in> set xs \<Longrightarrow> f x = Some v \<Longrightarrow> json_safe v \<Longrightarrow> writes True cx (item x) v"
  shows "writes b cx (write_items xs item) (JArray vs)"
proof (rule writes_array, rule list_all2_all_nthI)
  have all: "list_all2 (\<lambda>x v. f x = Some v) xs vs" using assms(1) by (simp add: those_map_Some)
  then show "length xs = length vs" by (rule list_all2_lengthD)
  then show "writes True cx (item (xs ! i)) (vs ! i)" if "i < length xs" for i
    using that all assms(2) list_all2_nthD [OF all that]
    by (intro assms(3)) (simp_all add: list_all_length)
qed

lemmas object_rules = closes_key [where b = False] closes_cons closes_last closes_member members_string members_integer members_bool
  members_doc members_type

lemma members_default:
  assumes "spec_default pd cx v = Some d" "members_safe d"
  shows "members cx (case v of None \<Rightarrow> returnA () | Some v \<Rightarrow> seqA (write_key_and ''default'') (write_const_value pd False v)) d"
  using assms by (cases v) (auto simp: spec_default_def intro!: members_return key_value_run const_refines)

lemma field_refines:
  assumes spec: "spec_field pd n cx fa = Some v" and safe: "json_safe v"
  shows "writes True cx (json_generate_field pd n fa) v"
proof -
  from spec obtain f tid tms req d where f: "h_fields (cx_heap cx) fa = Some f"
      "get_type_name n (cx_heap cx) (fl_type f) = Ok tid" "spec_type_of n cx ''type'' (fl_type f) = Some tms"
      "fl_req f = Some req" "spec_default pd cx (fl_value f) = Some d"
    and v: "v = JObject ((''key'', JNumber (show_int (fl_key f))) # (''name'', JString (fl_name f)) #
          (''typeId'', JString tid) # tms @ spec_doc f @ (''required'', JString (req_name req)) # d)"
    by (auto simp: spec_field_def bind_eq_Some_conv)
  have req: "(case req of T_REQUIRED \<Rightarrow> ''required'' | T_OPT_IN_REQ_OUT \<Rightarrow> ''req_out'' | T_OPTIONAL \<Rightarrow> ''optional'') = req_name req"
    and safe_req: "safe_string (req_name req)"
    by (cases req; simp)+
  have "writes True cx (block
        [start_object True, write_key_and_integer ''key'' (fl_key f), write_key_and_string ''name'' (fl_name f),
         bindA (type_name_of n (fl_type f)) (write_key_and_string ''typeId''),
         write_type_object n ''type'' (fl_type f), write_doc f, write_key_and ''required'',
         bindA (getsO (\<lambda>_. deref (fl_req f))) (\<lambda>req.
           write_string (case req of T_REQUIRED \<Rightarrow> ''required'' | T_OPT_IN_REQ_OUT \<Rightarrow> ''req_out''
                                   | T_OPTIONAL \<Rightarrow> ''optional'')),
         (case fl_value f of
            None \<Rightarrow> returnA ()
          | Some v \<Rightarrow> seqA (write_key_and ''default'') (write_const_value pd False v)),
         end_object]) v"
    using safe unfolding v
    by (intro writes_object object_rules members_read(1) [OF f(2)] f(3) members_default f(5))
      (simp_all add: f(4) req safe_req writes_string)
  then show ?thesis
    unfolding json_generate_field_def by (rule writes_read(3) [OF f(1)])
qed

lemma fields_refine:
  assumes spec: "spec_fields pd n cx ty = Some v" and safe: "json_safe v"
  shows "writes b cx (bindA (struct_members ty) (\<lambda>fas. write_items fas (json_generate_field pd n))) v"
proof -
  from spec obtain st vs where st: "h_types (cx_heap cx) ty = Some (Struct st)"
    and vs: "those (map (spec_field pd n cx) (st_members st)) = Some vs" and v: "v = JArray vs"
    by (auto simp: spec_fields_def split: option.splits t_type_obj.splits)
  have "writes b cx (write_items (st_members st) (json_generate_field pd n)) v"
    using vs safe unfolding v by (intro writes_those [where f = "spec_field pd n cx"]) (auto intro: field_refines)
  then show ?thesis
    unfolding struct_members_def run_bind_bind by (intro writes_read(2) [OF st]) simp
qed

lemma function_refines:
  assumes spec: "spec_function pd n cx fn = Some v" and safe: "json_safe v"
  shows "writes True cx (json_generate_function pd n fn) v"
proof -
  from spec obtain tid tms args excs where f:
      "get_type_name n (cx_heap cx) (fn_returntype fn) = Ok tid" "spec_type_of n cx ''returnType'' (fn_returntype fn) = Some tms"
      "spec_fields pd n cx (fn_arglist fn) = Some args" "spec_fields pd n cx (fn_xceptions fn) = Some excs"
    and v: "v = JObject ((''name'', JString (fn_name fn)) # (''returnTypeId'', JString tid) # tms @
          (''oneway'', JBool (fn_oneway fn)) # spec_doc fn @ [(''arguments'', args), (''exceptions'', excs)])"
    by (auto simp: spec_function_def bind_eq_Some_conv)
  show ?thesis
    using safe unfolding v json_generate_function_def
    by (intro writes_object closes_last_key [where b = False] object_rules members_read(1) [OF f(1)] f(2)
        fields_refine f(3,4)) simp_all
qed

lemma members_extends:
  assumes "spec_extends cx e = Some ms" "members_safe ms"
  shows "members cx (case e of None \<Rightarrow> returnA () | Some ea \<Rightarrow>
     bindA (type_at ea) (\<lambda>et. bindA (qualified_name_of et) (write_key_and_string ''extends''))) ms"
  using assms
  by (cases e) (auto simp: spec_extends_def bind_eq_Some_conv intro!: members_return members_read members_string)

lemma service_refines:
  assumes spec: "spec_service pd n cx sa = Some v" and safe: "json_safe v"
  shows "writes True cx (json_generate_service pd n sa) v"
proof -
  from spec obtain sv name ext fns where sv: "h_types (cx_heap cx) sa = Some (Service sv)"
      "cx_qualified cx (Service sv) = Ok name" "spec_extends cx (sv_extends sv) = Some ext"
    and fns: "those (map (spec_function pd n cx) (sv_functions sv)) = Some fns"
    and v: "v = JObject ((''name'', JString name) # ext @ spec_doc sv @ [(''functions'', JArray fns)])"
    by (auto simp: spec_service_def bind_eq_Some_conv split: option.splits t_type_obj.splits)
  have "writes True cx (block
             [start_object True, bindA (qualified_name_of (Service sv)) (write_key_and_string ''name''),
              (case sv_extends sv of None \<Rightarrow> returnA () | Some ea \<Rightarrow>
                   bindA (type_at ea) (\<lambda>et. bindA (qualified_name_of et) (write_key_and_string ''extends''))),
              write_doc sv, write_key_and ''functions'',
              write_items (sv_functions sv) (json_generate_function pd n), end_object]) v"
    using safe fns unfolding v
    by (intro writes_object closes_last_key [where b = False] object_rules members_read(2) [OF sv(2)]
        members_extends [OF sv(3)] writes_those [where f = "spec_function pd n cx"]) (auto intro: function_refines)
  then show ?thesis
    unfolding json_generate_service_def by (intro writes_read(2) [OF sv(1)]) simp
qed

lemma struct_refines:
  assumes spec: "spec_struct pd n cx oa = Some v" and safe: "json_safe v"
  shows "writes True cx (json_generate_struct pd n oa) v"
proof -
  from spec obtain st fs where st: "h_types (cx_heap cx) oa = Some (Struct st)"
    and fs: "those (map (spec_field pd n cx) (st_members st)) = Some fs"
    and v: "v = JObject ((''name'', JString (ty_name st)) # spec_doc st @
             [(''isException'', JBool (st_is_xception st)), (''isUnion'', JBool (st_is_union st)), (''fields'', JArray fs)])"
    by (auto simp: spec_struct_def split: option.splits t_type_obj.splits)
  have "writes True cx (block
             [start_object True, write_key_and_string ''name'' (ty_name st), write_doc st,
              write_key_and_bool ''isException'' (st_is_xception st), write_key_and_bool ''isUnion'' (st_is_union st),
              write_key_and ''fields'', write_items (st_members st) (json_generate_field pd n), end_object]) v"
    using safe fs unfolding v
    by (intro writes_object closes_last_key [where b = False] object_rules
        writes_those [where f = "spec_field pd n cx"]) (auto intro: field_refines)
  then show ?thesis
    unfolding json_generate_struct_def by (intro writes_read(2) [OF st]) simp
qed

lemma enum_value_refines:
  "json_safe (spec_enum_value c) \<Longrightarrow> writes True cx (write_enum_value c) (spec_enum_value c)"
  unfolding spec_enum_value_def write_enum_value_def
  by (intro writes_object object_rules) simp_all

lemma enum_refines:
  assumes spec: "spec_enum cx ea = Some v" and safe: "json_safe v"
  shows "writes True cx (json_generate_enum ea) v"
proof -
  from spec obtain e where e: "h_types (cx_heap cx) ea = Some (Enum e)"
    and v: "v = JObject ((''name'', JString (ty_name e)) # spec_doc e @
            [(''members'', JArray (map spec_enum_value (en_constants e)))])"
    by (auto simp: spec_enum_def split: option.splits t_type_obj.splits)
  have "list_all2 (\<lambda>x v. writes True cx (write_enum_value x) v) (en_constants e) (map spec_enum_value (en_constants e))"
    using safe enum_value_refines unfolding v by (auto simp: list_all2_map2 list_all2_same list_all_iff)
  then have "writes True cx (block
             [start_object True, write_key_and_string ''name'' (ty_name e), write_doc e, write_key_and ''members'',
              write_items (en_constants e) write_enum_value, end_object]) v"
    using safe unfolding v
    by (intro writes_object closes_last_key [where b = False] object_rules writes_array) simp_all
  then show ?thesis
    unfolding json_generate_enum_def by (intro writes_read(2) [OF e]) simp
qed

lemma typedef_refines:
  assumes spec: "spec_typedef n cx ta = Some v" and safe: "json_safe v"
  shows "writes True cx (json_generate_typedef n ta) v"
proof -
  from spec obtain t name ty tid tms where t: "h_types (cx_heap cx) ta = Some t" "cx_qualified cx t = Ok name"
      "get_true_type n (cx_heap cx) ta = Ok ty" "get_type_name n (cx_heap cx) ty = Ok tid"
      "spec_type_of n cx ''type'' ty = Some tms"
    and v: "v = JObject ((''name'', JString name) # (''typeId'', JString tid) # tms @ spec_doc (type_part t))"
    by (auto simp: spec_typedef_def bind_eq_Some_conv)
  have "writes True cx (block
        [start_object True, bindA (qualified_name_of t) (write_key_and_string ''name''),
         bindA (true_type_of n ta) (\<lambda>ty. bindA (type_name_of n ty) (write_key_and_string ''typeId'')),
         bindA (true_type_of n ta) (write_type_object n ''type''), write_doc (type_part t), end_object]) v"
    using safe unfolding v
    by (intro writes_object object_rules members_read(2) [OF t(2)] members_read(3) [OF t(3)] members_read(1) [OF t(4)] t(5))
      simp_all
  then show ?thesis
    unfolding json_generate_typedef_def by (rule writes_read(2) [OF t(1)])
qed

lemma constant_refines:
  assumes spec: "spec_constant pd n cx c = Some v" and safe: "json_safe v"
  shows "writes True cx (generate_constant pd n c) v"
proof -
  from spec obtain tid tms j where c: "get_type_name n (cx_heap cx) (co_type c) = Ok tid"
      "spec_type_of n cx ''type'' (co_type c) = Some tms" "spec_const pd (cx_heap cx) (co_value c) = Some j"
    and v: "v = JObject ((''name'', JString (co_name c)) # (''typeId'', JString tid) # tms @ spec_doc c @ [(''value'', j)])"
    by (auto simp: spec_constant_def bind_eq_Some_conv)
  show ?thesis
    using safe unfolding v generate_constant_def
    by (intro writes_object closes_last_key [where b = False] object_rules members_read(1) [OF c(1)] c(2) const_refines c(3))
      simp_all
qed

lemma members_indicate:
  assumes "members cx m [x]"
  shows "members cx (seqA m indicate_comma_needed) [x]"
proof (rule membersI)
  fix g c cs assume "ctx_of g = cx" "jg_comma g = c # cs"
  then obtain ts where ts: "list_all2 member_text [x] ts"
    "m g = (Ok (), g\<lparr>jg_out := jg_out g @ commas c ts, jg_comma := (c \<or> [x] \<noteq> []) # cs\<rparr>)"
    using membersE [OF assms] by blast
  then show "\<exists>ts. list_all2 member_text [x] ts \<and>
      seqA m indicate_comma_needed g = (Ok (), g\<lparr>jg_out := jg_out g @ commas c ts, jg_comma := (c \<or> [x] \<noteq> []) # cs\<rparr>)"
    by (intro exI [of _ ts]) (simp add: seqA_Ok [where m = m, OF ts(2)] run_simps)
qed

lemma namespaces_refine:
  assumes "members_safe (map (\<lambda>(lang, ns). (lang, JString ns)) nss)"
  shows "members cx (write_namespaces nss) [(''namespaces'', JObject (map (\<lambda>(lang, ns). (lang, JString ns)) nss))]"
proof -
  have "members cx (for_each nss (\<lambda>(lang, ns). seqA (write_key_and_string lang ns) indicate_comma_needed))
      (map (\<lambda>(lang, ns). (lang, JString ns)) nss)"
    using assms
    by (intro members_for_each) (auto simp: list_all2_map2 list_all2_same list_all_iff intro!: members_indicate members_string)
  then show ?thesis
    unfolding write_namespaces_def block.simps(2) [of "write_key_and _"]
    by (intro key_value_run [OF writes_object] closes_last safe_keys)
qed

lemma includes_refine:
  assumes "those (map (h_programs (cx_heap cx)) ias) = Some ps" "list_all (\<lambda>q. safe_string (pr_name q)) ps"
  shows "members cx (write_includes ias) [(''includes'', JArray (map (\<lambda>q. JString (pr_name q)) ps))]"
proof -
  have all: "list_all2 (\<lambda>ia q. h_programs (cx_heap cx) ia = Some q) ias ps" using assms(1) by (simp add: those_map_Some)
  have "list_all2 (\<lambda>ia v. writes True cx (bindA (getsO (\<lambda>g. deref (h_programs (gn_heap g) ia))) (\<lambda>q. write_string (pr_name q))) v)
      ias (map (\<lambda>q. JString (pr_name q)) ps)"
    using all assms(2)
    by (auto simp: list_all2_conv_all_nth list_all_length intro!: writes_read writes_blanks [OF writes_string])
  then show ?thesis
    unfolding write_includes_def block.simps run_seq_seq [symmetric]
    by (intro members_last key_value_run [where b = False] writes_array) simp_all
qed

lemma read_this:
  assumes "h_programs (cx_heap cx) (cx_this cx) = Some p"
  shows "members cx (km p) xs \<Longrightarrow> members cx (bindA this_program km) xs"
    and "writes b cx (kw p) v \<Longrightarrow> writes b cx (bindA this_program kw) v"
  unfolding this_program_def by (rule members_get writes_get; use assms in auto)+

lemma outer_refines:
  assumes p: "h_programs (cx_heap cx) (cx_this cx) = Some p" and spec: "spec_outer cx p = Some ms" "members_safe ms"
  shows "members cx (bindA (gets jg_merge) (\<lambda>merge. whenA (\<not> merge)
           (seqA (bindA this_program (\<lambda>p. write_namespaces (pr_namespaces p)))
             (bindA this_program (\<lambda>p. write_includes (pr_includes p)))))) ms"
proof -
  let ?m = "whenA (\<not> cx_merge cx) (seqA (bindA this_program (\<lambda>p. write_namespaces (pr_namespaces p)))
             (bindA this_program (\<lambda>p. write_includes (pr_includes p))))"
  have "members cx ?m ms"
  proof (cases "cx_merge cx")
    case True
    with spec show ?thesis by (simp add: spec_outer_def whenA_def members_return)
  next
    case False
    with spec obtain ps where "those (map (h_programs (cx_heap cx)) (pr_includes p)) = Some ps"
      and ms: "ms = [(''namespaces'', JObject (map (\<lambda>(lang, ns). (lang, JString ns)) (pr_namespaces p))),
         (''includes'', JArray (map (\<lambda>q. JString (pr_name q)) ps))]"
      by (auto simp: spec_outer_def)
    with False spec(2) show ?thesis unfolding ms
      by (auto simp: whenA_def list_all_iff intro!: members_cons read_this [OF p] namespaces_refine includes_refine)
  qed
  then show ?thesis unfolding members_def by (auto simp: run_simps)
qed

lemma description_refines:
  assumes spec: "spec_program pd n cx = Some v" and safe: "json_safe v"
  shows "writes True cx (write_program pd n) v"
proof -
  from spec obtain p outer ens tds sts cos svs where
      p: "h_programs (cx_heap cx) (cx_this cx) = Some p" and outer: "spec_outer cx p = Some outer"
    and groups: "those (map (spec_enum cx) (pr_enums p)) = Some ens"
      "those (map (spec_typedef n cx) (pr_typedefs p)) = Some tds"
      "those (map (spec_struct pd n cx) (pr_objects p)) = Some sts"
      "those (map (spec_constant pd n cx) (pr_consts p)) = Some cos"
      "those (map (spec_service pd n cx) (pr_services p)) = Some svs"
    and v: "v = JObject ((''name'', JString (pr_name p)) # spec_doc p @ outer @
          [(''enums'', JArray ens), (''typedefs'', JArray tds), (''structs'', JArray sts),
           (''constants'', JArray cos), (''services'', JArray svs)])"
    by (auto simp: spec_program_def bind_eq_Some_conv)
  show ?thesis
    using safe unfolding v write_program_def
    by (intro writes_object closes_last_key [where b = False] closes_key [where b = False] closes_cons closes_member
        read_this [OF p] outer_refines [OF p outer] members_string members_doc
        writes_those [OF groups(1)] writes_those [OF groups(2)] writes_those [OF groups(3)]
        writes_those [OF groups(4)] writes_those [OF groups(5)]
        enum_refines typedef_refines struct_refines constant_refines service_refines) simp_all
qed

section \<open>The file\<close>

lemma json_init_run:
  assumes new: "new_json_generator h pa opts = Ok g" and p: "h_programs h pa = Some p"
    and merge: "if jg_merge g then merge_includes n pa h = (Ok (), h') else h' = h"
  shows "json_init_generator n g =
    (Ok (), g\<lparr>jg_file := get_out_dir p ''gen-json'' @ pr_name p @ ''.json'', jg_out := [], gn_heap := h'\<rparr>)"
proof -
  from new have g: "gn_heap g = h" "gn_program g = pa" "gn_out_dir_base g = ''gen-json''"
    by (auto simp: new_json_generator_def new_generator_def t_generator.defs)
  have keep: "g\<lparr>jg_file := f, jg_out := [], gn_heap := h\<rparr> = g\<lparr>jg_file := f, jg_out := []\<rparr>" for f
    using g(1) by (cases g) simp
  have rd: "bindA this_program k g = k p g" for k :: "t_program \<Rightarrow> json_action"
    using p g by (simp add: this_program_def run_simps)
  show ?thesis
  proof (cases "jg_merge g")
    case True
    with merge g rd show ?thesis
      by (simp add: json_init_generator_def run_simps with_heap_def)
  next
    case False
    with merge g rd keep show ?thesis
      by (simp add: json_init_generator_def run_simps)
  qed
qed


text \<open>A program with an enum, a struct with a list field, and a constant.\<close>

definition json_demo_heap :: heap where
  "json_demo_heap =
     \<lparr>h_types = [2 \<mapsto> Base_type (new_base_type ''i32'' TYPE_I32), 3 \<mapsto> List_type (new_list 2),
        4 \<mapsto> Struct ((new_struct (Some 0) ''S'')\<lparr>st_members := [5]\<rparr>),
        6 \<mapsto> Enum ((new_enum 0)\<lparr>ty_name := ''E'', en_constants := [new_enum_value ''A'' 1]\<rparr>)],
      h_fields = [5 \<mapsto> new_field 3 ''xs'' 1],
      h_programs = [0 \<mapsto> (new_program ''a.thrift'')\<lparr>pr_enums := [6], pr_objects := [4],
        pr_consts := [new_const 2 ''K'' (CV 7 (Some CV_INTEGER) (Some 5) None '''' '''' None [] [])]\<rparr>],
      h_next = 8\<rparr>"

definition json_demo_value :: json where
  "json_demo_value = JObject [(''name'', JString ''a''), (''namespaces'', JObject []), (''includes'', JArray []),
     (''enums'', JArray [JObject [(''name'', JString ''E''),
        (''members'', JArray [JObject [(''name'', JString ''A''), (''value'', JNumber ''1'')]])]]),
     (''typedefs'', JArray []),
     (''structs'', JArray [JObject [(''name'', JString ''S''), (''isException'', JBool False), (''isUnion'', JBool False),
        (''fields'', JArray [JObject [(''key'', JNumber ''1''), (''name'', JString ''xs''), (''typeId'', JString ''list''),
           (''type'', JObject [(''typeId'', JString ''list''), (''elemTypeId'', JString ''i32'')]),
           (''required'', JString ''req_out'')]])]]),
     (''constants'', JArray [JObject [(''name'', JString ''K''), (''typeId'', JString ''i32''), (''value'', JNumber ''5'')]]),
     (''services'', JArray [])]"


end
