(* ===== verification/Gv.thy ===== *)
theory Gv
  imports Generator
begin

text \<open>
  The Graphviz generator (\<^verbatim>\<open>t_gv_generator.cc\<close>): a node for every definition, an arrow for every
  use of a named type, collected while the nodes are written and printed when the generator closes.
  The casts of a type pointer to the class of its shape are checked: a cast of an object of another class is
  undefined.
\<close>

section \<open>The generator\<close>

record gv_gen = t_generator +
  gv_file :: string
  gv_out :: string
  gv_edges :: "string list"
  gv_exception_arrows :: bool

type_synonym gv_action = "(gv_gen, unit) action"

definition new_gv_generator :: "heap \<Rightarrow> addr \<Rightarrow> (string \<times> string) list \<Rightarrow> gv_gen outcome" where
  "new_gv_generator h pa parsed_options =
     bind_outcome (new_generator h pa ''gen-gv'') (\<lambda>g.
       Ok (t_generator.extend g
             \<lparr>gv_file = '''', gv_out = '''', gv_edges = [],
              gv_exception_arrows = (smap_find parsed_options ''exceptions'' \<noteq> None)\<rparr>))"

definition gv_emit :: "string \<Rightarrow> gv_action" where
  "gv_emit s = modify (\<lambda>g. g\<lparr>gv_out := gv_out g @ s\<rparr>)"

definition gv_line :: "string \<Rightarrow> gv_action" where
  "gv_line s = gv_emit (s @ [CHR 0x0A])"

definition gv_escaped :: "string \<Rightarrow> (gv_gen, string) action" where
  "gv_escaped s = gets (\<lambda>g. escape_string (gn_escape g) s)"

definition gv_push_edge :: "string \<Rightarrow> gv_action" where
  "gv_push_edge e = modify (\<lambda>g. g\<lparr>gv_edges := gv_edges g @ [e]\<rparr>)"

definition gv_open :: "t_program \<Rightarrow> gv_gen \<Rightarrow> gv_gen" where
  "gv_open p g = g\<lparr>gn_escape := smap_set (CHR ''}'') [CHR 0x5C, CHR ''}'']
       (smap_set (CHR ''{'') [CHR 0x5C, CHR ''{''] (gn_escape g)),
     gv_file := get_out_dir p (gn_out_dir_base g) @ pr_name p @ ''.gv'', gv_out := ''''\<rparr>"

definition gv_init_generator :: gv_action where
  "gv_init_generator =
     bindA this_program (\<lambda>p.
     seqA (modify (gv_open p))
      (bindA (gets gn_program_name) (\<lambda>name.
       bindA (gv_escaped name) (\<lambda>name.
         block
          [gv_line (''digraph '' @ in_quotes name @ '' {''),
           gv_line ''node [style=filled, shape=record];'',
           gv_line ''edge [arrowsize=0.5];'',
           gv_line ''rankdir=LR'']))))"

definition gv_close_generator :: gv_action where
  "gv_close_generator =
     block
      [bindA (gets gv_edges) (\<lambda>edges. for_each edges gv_line),
       gv_line ''}'',
       modify (\<lambda>g. g\<lparr>gn_files := gn_files g @ [(gv_file g, gv_out g)]\<rparr>)]"

section \<open>Types and constants\<close>

primrec gv_print_type :: "nat \<Rightarrow> addr \<Rightarrow> string \<Rightarrow> gv_action" where
  "gv_print_type 0 = (\<lambda>ty struct_field_ref g. (Out_of_fuel, g))"
| "gv_print_type (Suc n) = (\<lambda>ty struct_field_ref.
     bindA (type_at ty) (\<lambda>t.
       (case t of
          List_type l \<Rightarrow>
            block [gv_emit (''list'' @ [CHR 0x5C, CHR ''<'']), gv_print_type n (li_elem_type l) struct_field_ref,
                   gv_emit [CHR 0x5C, CHR ''>'']]
        | Set_type l \<Rightarrow>
            block [gv_emit (''set'' @ [CHR 0x5C, CHR ''<'']), gv_print_type n (se_elem_type l) struct_field_ref,
                   gv_emit [CHR 0x5C, CHR ''>'']]
        | Map_type m \<Rightarrow>
            block [gv_emit (''map'' @ [CHR 0x5C, CHR ''<'']), gv_print_type n (ma_key_type m) struct_field_ref,
                   gv_emit '', '', gv_print_type n (ma_val_type m) struct_field_ref,
                   gv_emit [CHR 0x5C, CHR ''>'']]
        | Base_type b \<Rightarrow> gv_emit (if is_binary b then ''binary'' else get_name t)
        | _ \<Rightarrow>
            seqA (gv_emit (get_name t)) (gv_push_edge (struct_field_ref @ '' -> '' @ get_name t)))))"

text \<open>The elements of a constant, separated by commas.\<close>

fun gv_separated :: "bool \<Rightarrow> gv_action list \<Rightarrow> gv_action" where
  "gv_separated first [] = returnA ()"
| "gv_separated first (m # ms) =
     seqA (whenA (\<not> first) (gv_emit '', '')) (seqA m (gv_separated False ms))"

text \<open>\<open>pd\<close> is the output of a \<^verbatim>\<open>double\<close> with the default precision of a stream.\<close>

function gv_print_const_value :: "(double \<Rightarrow> string) \<Rightarrow> addr \<Rightarrow> t_const_value \<Rightarrow> gv_action" where
  "gv_print_const_value pd ty tvalue =
     bindA (getsO (\<lambda>_. deref (cv_valType tvalue))) (\<lambda>vt.
       (case vt of
          CV_INTEGER \<Rightarrow> bindA (getsO (\<lambda>g. get_integer (gn_heap g) tvalue)) (\<lambda>i. gv_emit (show_int i))
        | CV_DOUBLE \<Rightarrow> bindA (getsO (\<lambda>_. deref (cv_doubleVal tvalue))) (\<lambda>d. gv_emit (pd d))
        | CV_STRING \<Rightarrow>
            bindA (gets (\<lambda>g. get_escaped_string (gn_escape g) tvalue)) (\<lambda>s.
              gv_emit ([CHR 0x5C, CHR 0x22] @ s @ [CHR 0x5C, CHR 0x22]))
        | CV_MAP \<Rightarrow>
            block
             [gv_emit [CHR 0x5C, CHR ''{'', CHR '' ''],
              gv_separated True (map (\<lambda>(k, v).
                bindA (type_at ty) (\<lambda>t.
                  (case t of
                     Map_type m \<Rightarrow>
                       block [gv_print_const_value pd (ma_key_type m) k, gv_emit '' = '',
                              gv_print_const_value pd (ma_val_type m) v]
                   | _ \<Rightarrow> getsO (\<lambda>_. Undefined)))) (cv_mapVal tvalue)),
              gv_emit [CHR '' '', CHR 0x5C, CHR ''}'']]
        | CV_LIST \<Rightarrow>
            block
             [gv_emit [CHR 0x5C, CHR ''{'', CHR '' ''],
              gv_separated True (map (\<lambda>v.
                bindA (type_at ty) (\<lambda>t.
                  (case t of
                     List_type l \<Rightarrow> gv_print_const_value pd (li_elem_type l) v
                   | Set_type l \<Rightarrow> gv_print_const_value pd (se_elem_type l) v
                   | _ \<Rightarrow> getsO (\<lambda>_. Undefined)))) (cv_listVal tvalue)),
              gv_emit [CHR '' '', CHR 0x5C, CHR ''}'']]
        | CV_IDENTIFIER \<Rightarrow>
            bindA (type_at ty) (\<lambda>t.
            bindA (gv_escaped (get_name t)) (\<lambda>tn.
            bindA (getsO (\<lambda>_. get_identifier_name tvalue)) (\<lambda>name.
            bindA (gv_escaped name) (\<lambda>name.
              gv_emit (tn @ ''.'' @ name)))))))"
  by pat_completeness auto
termination
  by (relation "measure (\<lambda>(pd, ty, tvalue). size tvalue)") (auto dest: cv_children_smaller)

declare gv_print_const_value.simps [simp del]

section \<open>Definitions\<close>

definition gv_node :: "string \<Rightarrow> string \<Rightarrow> gv_action" where
  "gv_node color name =
     seqA (gv_line (''node [fillcolor='' @ color @ ''];'')) (gv_emit (name @ '' [label='' @ [CHR 0x22]))"

definition gv_end_node :: gv_action where
  "gv_end_node = gv_line (CHR 0x22 # ''];'')"

definition gv_typed :: "nat \<Rightarrow> addr \<Rightarrow> string \<Rightarrow> gv_action" where
  "gv_typed n ty ref = seqA (gv_emit '' :: '') (gv_print_type n ty ref)"

definition gv_generate_typedef :: "nat \<Rightarrow> addr \<Rightarrow> gv_action" where
  "gv_generate_typedef n ta =
     bindA (type_at ta) (\<lambda>t.
       (case t of
          Typedef td \<Rightarrow>
            block
             [gv_node ''azure'' (ty_name td),
              bindA (gv_escaped (ty_name td)) gv_emit,
              bindA (getsO (\<lambda>g. typedef_get_type (gn_heap g) td)) (\<lambda>ty. gv_typed n ty (ty_name td)),
              gv_end_node]
        | _ \<Rightarrow> getsO (\<lambda>_. Undefined)))"

definition gv_generate_enum :: "addr \<Rightarrow> gv_action" where
  "gv_generate_enum ea =
     bindA (type_at ea) (\<lambda>t.
       (case t of
          Enum e \<Rightarrow>
            block
             [gv_node ''white'' (ty_name e),
              bindA (gv_escaped (ty_name e)) (\<lambda>s. gv_emit (''enum '' @ s)),
              for_each (en_constants e) (\<lambda>c. gv_emit (''|'' @ ev_name c @ '' = '' @ show_int (ev_value c))),
              gv_end_node]
        | _ \<Rightarrow> getsO (\<lambda>_. Undefined)))"

definition gv_generate_const :: "(double \<Rightarrow> string) \<Rightarrow> nat \<Rightarrow> t_const \<Rightarrow> gv_action" where
  "gv_generate_const pd n c =
     block
      [gv_node ''aliceblue'' (''const_'' @ co_name c),
       bindA (gv_escaped (co_name c)) gv_emit,
       gv_emit '' = '',
       gv_print_const_value pd (co_type c) (co_value c),
       gv_typed n (co_type c) (''const_'' @ co_name c),
       gv_end_node]"

definition gv_generate_struct :: "nat \<Rightarrow> addr \<Rightarrow> gv_action" where
  "gv_generate_struct n oa =
     bindA (type_at oa) (\<lambda>t.
       (case t of
          Struct st \<Rightarrow>
            (let name = ty_name st;
                 (color, kind) = (if st_is_xception st then (''lightpink'', ''exception '')
                                  else if st_is_union st then (''lightcyan'', ''union '')
                                  else (''beige'', ''struct ''))
             in block
                 [gv_node color name,
                  bindA (gv_escaped name) (\<lambda>s. gv_emit (kind @ s)),
                  for_each (st_members st) (\<lambda>fa.
                    bindA (getsO (\<lambda>g. deref (h_fields (gn_heap g) fa))) (\<lambda>f.
                      seqA (gv_emit (''|<field_'' @ fl_name f @ ''>'' @ fl_name f))
                        (gv_typed n (fl_type f) (name @ '':field_'' @ fl_name f)))),
                  gv_end_node])
        | _ \<Rightarrow> getsO (\<lambda>_. Undefined)))"

definition gv_members :: "addr \<Rightarrow> (gv_gen, addr list) action" where
  "gv_members ty =
     bindA (type_at ty) (\<lambda>t. getsO (\<lambda>_. case t of Struct st \<Rightarrow> Ok (st_members st) | _ \<Rightarrow> Undefined))"

definition gv_argument :: "(double \<Rightarrow> string) \<Rightarrow> nat \<Rightarrow> string \<Rightarrow> addr \<Rightarrow> gv_action" where
  "gv_argument pd n fname fa =
     bindA (getsO (\<lambda>g. deref (h_fields (gn_heap g) fa))) (\<lambda>f.
       block
        [gv_emit (''|<param_'' @ fl_name f @ ''>'' @ fl_name f),
         (case fl_value f of
            None \<Rightarrow> returnA ()
          | Some v \<Rightarrow> seqA (gv_emit '' = '') (gv_print_const_value pd (fl_type f) v)),
         gv_typed n (fl_type f) (''function_'' @ fname @ '':param_'' @ fl_name f)])"

definition gv_exception_edge :: "string \<Rightarrow> addr \<Rightarrow> gv_action" where
  "gv_exception_edge fname fa =
     bindA (getsO (\<lambda>g. deref (h_fields (gn_heap g) fa))) (\<lambda>f.
     bindA (type_at (fl_type f)) (\<lambda>t.
       gv_push_edge (''function_'' @ fname @ '' -> '' @ get_name t @ '' [color=red]'')))"

definition gv_function :: "(double \<Rightarrow> string) \<Rightarrow> nat \<Rightarrow> t_function \<Rightarrow> gv_action" where
  "gv_function pd n fn =
     block
      [gv_emit (''function_'' @ fn_name fn),
       bindA (gv_escaped (fn_name fn)) (\<lambda>s. gv_emit (''[label='' @ CHR 0x22 # ''<return_type>function '' @ s)),
       gv_typed n (fn_returntype fn) (''function_'' @ fn_name fn @ '':return_type''),
       bindA (gv_members (fn_arglist fn)) (\<lambda>args. for_each args (gv_argument pd n (fn_name fn))),
       gv_end_node,
       bindA (gets gv_exception_arrows) (\<lambda>arrows.
         whenA arrows
           (bindA (gv_members (fn_xceptions fn)) (\<lambda>excepts. for_each excepts (gv_exception_edge (fn_name fn)))))]"

definition gv_generate_service :: "(double \<Rightarrow> string) \<Rightarrow> nat \<Rightarrow> addr \<Rightarrow> gv_action" where
  "gv_generate_service pd n sa =
     bindA (type_at sa) (\<lambda>t.
       (case t of
          Service sv \<Rightarrow>
            block
             [gv_line (''subgraph cluster_'' @ ty_name sv @ '' {''),
              gv_line ''node [fillcolor=bisque];'',
              gv_line ''style=dashed;'',
              bindA (gv_escaped (ty_name sv)) (\<lambda>s. gv_line (''label = '' @ in_quotes (s @ '' service'') @ '';'')),
              for_each (sv_functions sv) (gv_function pd n),
              gv_line '' }'']
        | _ \<Rightarrow> getsO (\<lambda>_. Undefined)))"

definition gv_hooks :: "(double \<Rightarrow> string) \<Rightarrow> nat \<Rightarrow> _ gen_hooks" where
  "gv_hooks pd n =
     \<lparr>hk_init_generator = gv_init_generator, hk_close_generator = gv_close_generator,
      hk_generate_consts = generate_consts (gv_generate_const pd n),
      hk_generate_typedef = gv_generate_typedef n, hk_generate_enum = gv_generate_enum,
      hk_generate_struct = gv_generate_struct n, hk_generate_service = gv_generate_service pd n,
      hk_generate_forward_declaration = (\<lambda>_. returnA ()), hk_generate_xception = gv_generate_struct n\<rparr>"

section \<open>What the generator keeps\<close>

text \<open>
  The parse tree and the files are left alone, the text written so far stays, and every arrow is
  good. With the trivial predicates on arrows and files and no text this is \<open>at_program\<close>.
\<close>

definition gv_inv :: "(string \<Rightarrow> bool) \<Rightarrow> (string \<Rightarrow> (string \<times> string) list \<Rightarrow> bool) \<Rightarrow> heap \<Rightarrow> addr \<Rightarrow> string \<Rightarrow> gv_gen \<Rightarrow> bool" where
  "gv_inv good Q h pa pre g \<longleftrightarrow> at_program h pa g \<and> Q (gv_file g) (gn_files g) \<and>
     prefix pre (gv_out g) \<and> list_all good (gv_edges g)"

definition named_type :: "t_type_obj \<Rightarrow> bool" where
  "named_type t \<longleftrightarrow> \<not> is_container t \<and> \<not> is_base_type t"

definition arrows_good :: "(string \<Rightarrow> bool) \<Rightarrow> heap \<Rightarrow> bool" where
  "arrows_good good h \<longleftrightarrow> (\<forall>src ty t. h_types h ty = Some t \<longrightarrow>
     (named_type t \<longrightarrow> good (src @ '' -> '' @ get_name t)) \<and> good (src @ '' -> '' @ get_name t @ '' [color=red]''))"

lemma gv_inv_at_program: "gv_inv (\<lambda>_. True) (\<lambda>_ _. True) h pa [] g \<longleftrightarrow> at_program h pa g"
  by (simp add: gv_inv_def list_all_iff)

lemma gv_emit_keeps: "keeps (gv_inv good Q h pa pre) (gv_emit s)" "keeps (gv_inv good Q h pa pre) (gv_line s)"
  by (auto simp: keeps_def gv_emit_def gv_line_def modify_def gv_inv_def at_program_def)

lemma gv_push_keeps: "good e \<Longrightarrow> keeps (gv_inv good Q h pa pre) (gv_push_edge e)"
  by (auto simp: keeps_def gv_push_edge_def modify_def gv_inv_def at_program_def)

lemma gv_escaped_keeps: "keeps I (gv_escaped s)"
  by (simp add: gv_escaped_def)

text \<open>What is read from the parse tree is what the tree holds.\<close>

lemma gv_type_keeps:
  assumes "\<And>t. h_types h ty = Some t \<Longrightarrow> keeps (gv_inv good Q h pa pre) (k t)"
  shows "keeps (gv_inv good Q h pa pre) (bindA (type_at ty) k)"
proof (rule keepsI)
  fix g assume g: "gv_inv good Q h pa pre g"
  then have h: "gn_heap g = h" by (simp add: gv_inv_def at_program_def)
  show "gv_inv good Q h pa pre (snd (bindA (type_at ty) k g))"
  proof (cases "h_types h ty")
    case None
    with g h show ?thesis by (simp add: type_at_def run_simps)
  next
    case (Some t)
    with h have "bindA (type_at ty) k g = k t g" by (simp add: type_at_def run_simps)
    with keepsD [OF assms [OF Some] g] show ?thesis by simp
  qed
qed

lemma gv_print_type_keeps:
  assumes good: "arrows_good good h"
  shows "keeps (gv_inv good Q h pa pre) (gv_print_type n ty ref)"
proof (induction n arbitrary: ty)
  case 0
  show ?case by (simp add: keeps_def)
next
  case (Suc n)
  have "keeps (gv_inv good Q h pa pre) (gv_push_edge (ref @ '' -> '' @ get_name t))"
    if "h_types h ty = Some t" "named_type t" for t
    using that good by (intro gv_push_keeps) (auto simp: arrows_good_def)
  then show ?case
    unfolding gv_print_type.simps
    by (intro gv_type_keeps)
      (auto simp: named_type_def split: t_type_obj.splits intro!: keeps_seq gv_emit_keeps Suc.IH)
qed

lemma gv_separated_keeps:
  "(\<And>m. m \<in> set ms \<Longrightarrow> keeps (gv_inv good Q h pa pre) m) \<Longrightarrow> keeps (gv_inv good Q h pa pre) (gv_separated first ms)"
  by (induction ms arbitrary: first) (auto intro!: gv_emit_keeps)

lemma gv_const_keeps: "keeps (gv_inv good Q h pa pre) (gv_print_const_value pd ty cv)"
proof (induction "size cv" arbitrary: ty cv rule: less_induct)
  case less
  let ?I = "gv_inv good Q h pa pre"
  have sub: "keeps ?I (gv_print_const_value pd ty' v)"
    if "v \<in> set (cv_listVal cv) \<or> (\<exists>w. (v, w) \<in> set (cv_mapVal cv) \<or> (w, v) \<in> set (cv_mapVal cv))" for ty' v
    using that by (intro less) (auto dest: cv_children_smaller)
  have elems: "keeps ?I (gv_separated True (map f (cv_listVal cv)))" if "\<And>v. v \<in> set (cv_listVal cv) \<Longrightarrow> keeps ?I (f v)" for f
    using that by (intro gv_separated_keeps) auto
  have entries: "keeps ?I (gv_separated True (map f (cv_mapVal cv)))"
    if "\<And>k v. (k, v) \<in> set (cv_mapVal cv) \<Longrightarrow> keeps ?I (f (k, v))" for f
    using that by (intro gv_separated_keeps) auto
  show ?case
    unfolding gv_print_const_value.simps [of pd ty cv] block.simps
    by (intro keeps_bind keeps_pure)
      (auto split: t_const_value_type.splits t_type_obj.splits
        intro!: keeps_seq gv_type_keeps keeps_bind gv_emit_keeps gv_escaped_keeps elems entries sub)
qed

lemmas gv_keeps = keeps_seq gv_type_keeps keeps_bind keeps_pure keeps_return keeps_for_each keeps_when gv_emit_keeps
  gv_escaped_keeps gv_print_type_keeps gv_const_keeps

lemma gv_node_keeps:
  "keeps (gv_inv good Q h pa pre) (gv_node c s)" "keeps (gv_inv good Q h pa pre) gv_end_node"
  "arrows_good good h \<Longrightarrow> keeps (gv_inv good Q h pa pre) (gv_typed n ty ref)"
  unfolding gv_node_def gv_end_node_def gv_typed_def by (intro gv_keeps; assumption)+

lemma gv_members_keeps: "keeps (gv_inv good Q h pa pre) (gv_members ty)"
  unfolding gv_members_def by (intro gv_keeps)

lemma gv_exception_keeps:
  assumes "arrows_good good h"
  shows "keeps (gv_inv good Q h pa pre) (gv_exception_edge fname fa)"
  unfolding gv_exception_edge_def
  by (intro keeps_bind keeps_pure gv_type_keeps gv_push_keeps)
    (use assms in \<open>auto simp: arrows_good_def dest: spec [of _ "''function_'' @ fname"]\<close>)

lemma gv_argument_keeps:
  "arrows_good good h \<Longrightarrow> keeps (gv_inv good Q h pa pre) (gv_argument pd n fname fa)"
  unfolding gv_argument_def block.simps by (auto intro!: gv_keeps gv_node_keeps split: option.splits)

lemma gv_function_keeps: "arrows_good good h \<Longrightarrow> keeps (gv_inv good Q h pa pre) (gv_function pd n fn)"
  unfolding gv_function_def block.simps
  by (intro gv_keeps gv_node_keeps gv_members_keeps gv_exception_keeps gv_argument_keeps)

text \<open>The virtual methods between opening and closing.\<close>

lemma gv_hooks_keep:
  assumes "arrows_good good h"
  shows "keeps (gv_inv good Q h pa pre) (gv_generate_typedef n ty)"
    and "keeps (gv_inv good Q h pa pre) (gv_generate_enum ty)"
    and "keeps (gv_inv good Q h pa pre) (gv_generate_const pd n c)"
    and "keeps (gv_inv good Q h pa pre) (gv_generate_struct n ty)"
    and "keeps (gv_inv good Q h pa pre) (gv_generate_service pd n ty)"
  unfolding gv_generate_typedef_def gv_generate_enum_def gv_generate_const_def gv_generate_struct_def
    gv_generate_service_def block.simps Let_def
  using assms
  by (auto split: t_type_obj.splits prod.splits
      intro!: gv_keeps gv_node_keeps gv_function_keeps)

lemma gv_init_keeps: "keeps (at_program h pa) gv_init_generator"
proof -
  have "keeps (at_program h pa) (modify (gv_open p))" "keeps (at_program h pa) (gv_line s)" for p s
    by (auto simp: keeps_def modify_def gv_open_def gv_line_def gv_emit_def at_program_def)
  then show ?thesis
    unfolding gv_init_generator_def block.simps this_program_def gv_escaped_def
    by (intro keeps_bind keeps_seq keeps_pure keeps_return)
qed

interpretation gv: program_walk "gv_hooks pd n" for pd n
proof (unfold_locales, goal_cases)
  case (1 h pa)
  show ?case by (simp add: gv_hooks_def gv_init_keeps)
next
  case (2 h pa cs)
  then show ?case
    using gv_hooks_keep(3) [where good = "\<lambda>_. True" and Q = "\<lambda>_ _. True" and pre = "[]"]
    by (simp add: gv_hooks_def generate_consts_def gv_inv_at_program [abs_def] arrows_good_def keeps_for_each)
qed (use gv_hooks_keep [where good = "\<lambda>_. True" and Q = "\<lambda>_ _. True" and pre = "[]"] in
    \<open>simp_all add: gv_hooks_def gv_inv_at_program [abs_def] arrows_good_def\<close>)

section \<open>The file\<close>

definition gv_header :: "string \<Rightarrow> string" where
  "gv_header name =
     ''digraph '' @ in_quotes name @ '' {'' @ [CHR 0x0A] @ ''node [style=filled, shape=record];'' @ [CHR 0x0A] @
     ''edge [arrowsize=0.5];'' @ [CHR 0x0A] @ ''rankdir=LR'' @ [CHR 0x0A]"

definition gv_escapes :: "(char \<times> string) list" where
  "gv_escapes = smap_set (CHR ''}'') [CHR 0x5C, CHR ''}''] (smap_set (CHR ''{'') [CHR 0x5C, CHR ''{''] default_escape)"

text \<open>An arrow that leads to a type of the program: black for a use, red for an exception.\<close>

definition arrow_to_type :: "heap \<Rightarrow> string \<Rightarrow> bool" where
  "arrow_to_type h e \<longleftrightarrow> (\<exists>src ty t. h_types h ty = Some t \<and>
     (named_type t \<and> e = src @ '' -> '' @ get_name t \<or> e = src @ '' -> '' @ get_name t @ '' [color=red]''))"

lemma arrow_to_type_good: "arrows_good (arrow_to_type h) h"
  unfolding arrows_good_def arrow_to_type_def by blast

lemma gv_line_run [run_simps]: "seqA (gv_line s) m g = m (g\<lparr>gv_out := gv_out g @ s @ [CHR 0x0A]\<rparr>)"
  by (simp add: gv_line_def gv_emit_def run_simps)

lemma gv_lines_run:
  "for_each es gv_line g = (Ok (), g\<lparr>gv_out := gv_out g @ concat (map (\<lambda>e. e @ [CHR 0x0A]) es)\<rparr>)"
  by (induction es arbitrary: g) (simp_all add: run_simps)

lemma gv_init_run:
  assumes "at_program h pa g" "h_programs h pa = Some p" "gn_escape g = default_escape"
  shows "gv_init_generator g =
    (Ok (), (gv_open p g)\<lparr>gv_out := gv_header (escape_string gv_escapes (gn_program_name g))\<rparr>)"
proof -
  have "bindA this_program k g = k p g" for k :: "t_program \<Rightarrow> gv_action"
    using assms by (simp add: this_program_def at_program_def run_simps)
  then show ?thesis
    using assms(3) by (simp add: gv_init_generator_def gv_escaped_def run_simps gv_open_def gv_header_def gv_escapes_def)
qed

lemma gv_close_run:
  "gn_files g = [] \<Longrightarrow> gv_close_generator g = (Ok (), g') \<Longrightarrow>
   gv_edges g' = gv_edges g \<and>
   gn_files g' = [(gv_file g, gv_out g @ concat (map (\<lambda>e. e @ [CHR 0x0A]) (gv_edges g)) @ ''}'' @ [CHR 0x0A])]"
proof -
  assume files: "gn_files g = []" and close: "gv_close_generator g = (Ok (), g')"
  have "seqA (for_each (gv_edges g) gv_line) m g =
      m (g\<lparr>gv_out := gv_out g @ concat (map (\<lambda>e. e @ [CHR 0x0A]) (gv_edges g))\<rparr>)" for m :: gv_action
    by (rule seqA_Ok [OF gv_lines_run])
  with files close show ?thesis
    by (auto simp: gv_close_generator_def run_simps)
qed

lemma gv_walk_keeps:
  assumes good: "arrows_good good h" and m: "m \<in> set (tl (butlast (program_calls (gv_hooks pd n) p)))"
  shows "keeps (gv_inv good Q h pa pre) m"
proof -
  note hooks = gv_hooks_keep [OF good]
  have "keeps (gv_inv good Q h pa pre) (generate_object (gv_hooks pd n) ty)" for ty
    unfolding generate_object_def gv_hooks_def by (intro gv_type_keeps) (simp add: hooks)
  moreover have "keeps (gv_inv good Q h pa pre) (generate_service_named (gv_hooks pd n) ty)" for ty
  proof -
    have "keeps (gv_inv good Q h pa pre) (modify (\<lambda>g. g\<lparr>gn_service_name := name\<rparr>))" for name
      by (rule keepsI) (simp add: modify_def gv_inv_def at_program_def)
    then show ?thesis
      unfolding generate_service_named_def gv_hooks_def
      by (intro gv_type_keeps keeps_seq) (simp_all add: hooks)
  qed
  ultimately show ?thesis
    using m hooks by (auto simp: program_calls_def gv_hooks_def butlast_append generate_consts_def)
qed


text \<open>A program with a typedef of a list of an enum.\<close>

definition gv_demo_heap :: heap where
  "gv_demo_heap =
     \<lparr>h_types = [2 \<mapsto> Enum ((new_enum 0)\<lparr>ty_name := ''E'', en_constants := [new_enum_value ''A'' 1]\<rparr>),
        3 \<mapsto> List_type (new_list 2), 4 \<mapsto> Typedef (new_typedef 0 3 ''Es'')],
      h_fields = Map.empty,
      h_programs = [0 \<mapsto> (new_program ''a.thrift'')\<lparr>pr_enums := [2], pr_typedefs := [4]\<rparr>],
      h_next = 5\<rparr>"


text \<open>
  A constant of a struct type makes the Graphviz generator run into undefined behaviour: its
  value is a map of field names to values, and for every map the generator casts the type to
  \<^verbatim>\<open>t_map\<close>, also when it is a struct, an exception or a typedef. The other
  generators resolve typedefs and treat structs on their own.
\<close>

lemma gv_struct_constant_undefined:
  assumes "cv_valType v = Some CV_MAP" "cv_mapVal v \<noteq> []"
    and "h_types (gn_heap g) ty = Some t" "\<not> is_map t"
  shows "fst (gv_print_const_value pd ty v g) = Undefined"
proof -
  obtain k w rest where v: "cv_mapVal v = (k, w) # rest" using assms(2) by (cases "cv_mapVal v") auto
  have "fst (gv_print_const_value pd ty v g) = fst ((case t of
      Map_type m \<Rightarrow> block [gv_print_const_value pd (ma_key_type m) k, gv_emit '' = '', gv_print_const_value pd (ma_val_type m) w]
    | _ \<Rightarrow> getsO (\<lambda>_. Undefined)) (g\<lparr>gv_out := gv_out g @ [CHR 0x5C, CHR ''{'', CHR '' '']\<rparr>))"
    if "\<not> is_map t"
    using that assms(1,3) v by (cases t)
      (simp_all add: gv_print_const_value.simps [of pd ty v] gv_emit_def type_at_def run_simps action_simps)
  with assms(4) show ?thesis by (cases t) (simp_all add: getsO_def)
qed

lemma gv_struct_constant_undefined_witness:
  "let v = CV 7 (Some CV_MAP) None None '''' '''' None []
         [(CV 8 (Some CV_STRING) None None ''x'' '''' None [] [], CV 9 (Some CV_INTEGER) (Some 1) None '''' '''' None [] [])];
       h = \<lparr>h_types = [4 \<mapsto> Struct (new_struct (Some 0) ''S'')], h_fields = Map.empty,
            h_programs = [0 \<mapsto> new_program ''a.thrift''], h_next = 5\<rparr>
   in \<exists>g. new_gv_generator h 0 [] = Ok g \<and> fst (gv_print_const_value (\<lambda>_. '''') 4 v g) = Undefined"
proof -
  define v where "v = CV 7 (Some CV_MAP) None None '''' '''' None []
         [(CV 8 (Some CV_STRING) None None ''x'' '''' None [] [], CV 9 (Some CV_INTEGER) (Some 1) None '''' '''' None [] [])]"
  define h where "h = \<lparr>h_types = [4 \<mapsto> Struct (new_struct (Some 0) ''S'')], h_fields = Map.empty,
            h_programs = [0 \<mapsto> new_program ''a.thrift''], h_next = 5\<rparr>"
  obtain g where g: "new_gv_generator h 0 [] = Ok g" "gn_heap g = h"
    by (auto simp: new_gv_generator_def new_generator_def h_def t_generator.defs)
  have "fst (gv_print_const_value (\<lambda>_. '''') 4 v g) = Undefined"
    by (rule gv_struct_constant_undefined [where t = "Struct (new_struct (Some 0) ''S'')"])
      (simp_all add: v_def g(2) h_def)
  with g show ?thesis unfolding v_def [symmetric] h_def [symmetric] Let_def by blast
qed

end
