(* ===== verification/Xsd.thy ===== *)
theory Xsd
  imports Generator
begin

text \<open>
  The XML Schema generator (\<^verbatim>\<open>t_xsd_generator.cc\<close>): type definitions collected in a string
  stream, one schema file per service, and a PHP table of the element names of lists. Every schema it
  writes is proved to be a well-formed XML document.
\<close>

section \<open>The generator\<close>

record xsd_gen = t_generator +
  xs_php_file :: string
  xs_php :: string
  xs_xsd :: string
  xs_types :: string

type_synonym xsd_action = "(xsd_gen, unit) action"

definition new_xsd_generator :: "heap \<Rightarrow> addr \<Rightarrow> xsd_gen outcome" where
  "new_xsd_generator h pa =
     bind_outcome (new_generator h pa ''gen-xsd'') (\<lambda>g.
       Ok (t_generator.extend g \<lparr>xs_php_file = '''', xs_php = '''', xs_xsd = '''', xs_types = ''''\<rparr>))"

text \<open>The stream a routine writes to: the collected types or the file of the current service.\<close>

datatype xsd_stream = S_xsd_types | F_xsd

fun xs_put :: "xsd_stream \<Rightarrow> string \<Rightarrow> xsd_gen \<Rightarrow> xsd_gen" where
  "xs_put S_xsd_types s g = g\<lparr>xs_types := xs_types g @ s\<rparr>"
| "xs_put F_xsd s g = g\<lparr>xs_xsd := xs_xsd g @ s\<rparr>"

definition xs_emit :: "xsd_stream \<Rightarrow> string \<Rightarrow> xsd_action" where
  "xs_emit out s = modify (xs_put out s)"

definition xs_line :: "xsd_stream \<Rightarrow> string \<Rightarrow> xsd_action" where
  "xs_line out s = bindA (gets indent) (\<lambda>ind. xs_emit out (ind @ s @ [CHR 0x0A]))"

definition php_line :: "string \<Rightarrow> xsd_action" where
  "php_line s = modify (\<lambda>g. g\<lparr>xs_php := xs_php g @ s @ [CHR 0x0A]\<rparr>)"

text \<open>The attributes of a tag, each name with its value in quotes.\<close>

definition xml_attrs :: "(string \<times> string) list \<Rightarrow> string" where
  "xml_attrs kvs = concat (map (\<lambda>(k, v). '' '' @ k @ ''='' @ in_quotes v) kvs)"

text \<open>The start tag, the indented contents and the end tag of an element; and an empty element.\<close>

definition xs_element :: "xsd_stream \<Rightarrow> string \<Rightarrow> (string \<times> string) list \<Rightarrow> xsd_action \<Rightarrow> xsd_action" where
  "xs_element out tag attrs body =
     block [xs_line out (''<'' @ tag @ xml_attrs attrs @ ''>''), indent_up, body, indent_down,
            xs_line out (''</'' @ tag @ ''>'')]"

definition xs_empty_element :: "xsd_stream \<Rightarrow> string \<Rightarrow> (string \<times> string) list \<Rightarrow> xsd_action" where
  "xs_empty_element out tag attrs = xs_line out (''<'' @ tag @ xml_attrs attrs @ '' />'')"

definition xsd_init_generator :: xsd_action where
  "xsd_init_generator =
     bindA this_program (\<lambda>p.
     seqA (modify (\<lambda>g. g\<lparr>xs_php_file := get_out_dir p (gn_out_dir_base g) @ pr_name p @ ''_xsd.php'', xs_php := ''''\<rparr>))
      (php_line ''<?php''))"

definition xsd_close_generator :: xsd_action where
  "xsd_close_generator =
     seqA (php_line ''?>'') (modify (\<lambda>g. g\<lparr>gn_files := gn_files g @ [(xs_php_file g, xs_php g)]\<rparr>))"

fun xsd_base_type_name :: "t_base \<Rightarrow> string" where
  "xsd_base_type_name TYPE_VOID = ''void''"
| "xsd_base_type_name TYPE_STRING = ''string''"
| "xsd_base_type_name TYPE_BOOL = ''boolean''"
| "xsd_base_type_name TYPE_BYTE = ''byte''"
| "xsd_base_type_name TYPE_I16 = ''short''"
| "xsd_base_type_name TYPE_I32 = ''int''"
| "xsd_base_type_name TYPE_I64 = ''long''"
| "xsd_base_type_name TYPE_DOUBLE = ''decimal''"

definition xsd_ns :: "string \<Rightarrow> string \<Rightarrow> string" where
  "xsd_ns s ns = ns @ '':'' @ s"

definition xsd_type_name :: "t_type_obj \<Rightarrow> string" where
  "xsd_type_name t =
     (case t of
        Typedef td \<Rightarrow> get_name t
      | Base_type b \<Rightarrow> xsd_ns (xsd_base_type_name (bt_base b)) ''xsd''
      | Enum e \<Rightarrow> xsd_ns ''int'' ''xsd''
      | Struct st \<Rightarrow> get_name t
      | _ \<Rightarrow> ''container'')"

section \<open>Definitions\<close>

definition xsd_restriction :: "t_type_obj \<Rightarrow> xsd_action" where
  "xsd_restriction t =
     (case t of
        Base_type b \<Rightarrow>
          if is_string_enum b
          then xs_element S_xsd_types ''xsd:restriction'' [(''base'', xsd_type_name t)]
                 (for_each (bt_string_enum_vals b) (\<lambda>v.
                    xs_empty_element S_xsd_types ''xsd:enumeration'' [(''value'', v)]))
          else xs_empty_element S_xsd_types ''xsd:restriction'' [(''base'', xsd_type_name t)]
      | _ \<Rightarrow> xs_empty_element S_xsd_types ''xsd:restriction'' [(''base'', xsd_type_name t)])"

definition xsd_generate_typedef :: "addr \<Rightarrow> xsd_action" where
  "xsd_generate_typedef ta =
     bindA (type_at ta) (\<lambda>t.
       (case t of
          Typedef td \<Rightarrow>
            seqA
             (xs_element S_xsd_types ''xsd:simpleType'' [(''name'', ty_name td)]
               (bindA (getsO (\<lambda>g. typedef_get_type (gn_heap g) td)) (\<lambda>ty. bindA (type_at ty) xsd_restriction)))
             (xs_emit S_xsd_types [CHR 0x0A])
        | _ \<Rightarrow> getsO (\<lambda>_. Undefined)))"

definition xsd_members :: "addr \<Rightarrow> (xsd_gen, addr list) action" where
  "xsd_members ty =
     bindA (type_at ty) (\<lambda>t. getsO (\<lambda>_. case t of Struct st \<Rightarrow> Ok (st_members st) | _ \<Rightarrow> Undefined))"

definition xsd_attributes :: "xsd_stream \<Rightarrow> addr \<Rightarrow> xsd_action" where
  "xsd_attributes out attrs =
     bindA (xsd_members attrs) (\<lambda>fas.
       for_each fas (\<lambda>fa.
         bindA (getsO (\<lambda>g. deref (h_fields (gn_heap g) fa))) (\<lambda>f.
         bindA (type_at (fl_type f)) (\<lambda>t.
           xs_empty_element out ''xsd:attribute'' [(''name'', fl_name f), (''type'', xsd_type_name t)]))))"

primrec xsd_generate_element :: "nat \<Rightarrow> xsd_stream \<Rightarrow> string \<Rightarrow> addr \<Rightarrow> addr option \<Rightarrow> bool \<Rightarrow> bool \<Rightarrow> bool \<Rightarrow> xsd_action" where
  "xsd_generate_element 0 = (\<lambda>out name ty attrs optional nillable list_element g. (Out_of_fuel, g))"
| "xsd_generate_element (Suc n) = (\<lambda>out name ty attrs optional nillable list_element.
     bindA (type_at ty) (\<lambda>t.
       let soptional = (if optional \<or> list_element then [(''minOccurs'', ''0'')] else []) @
                       (if list_element then [(''maxOccurs'', ''unbounded'')] else []);
           snillable = (if nillable then [(''nillable'', ''true'')] else [])
       in if is_void t \<or> is_list t
          then xs_element out ''xsd:element'' ((''name'', name) # soptional @ snillable)
                (if attrs = None \<and> is_void t then xs_empty_element out ''xsd:complexType'' []
                 else xs_element out ''xsd:complexType'' []
                   (seqA
                     (case t of
                        List_type l \<Rightarrow>
                          seqA
                           (xs_element out ''xsd:sequence'' [(''minOccurs'', ''0''), (''maxOccurs'', ''unbounded'')]
                             (bindA (type_at (li_elem_type l)) (\<lambda>st.
                              bindA this_program (\<lambda>p.
                                (let subname = (if is_base_type st \<or> is_container st then name @ ''_elt'' else xsd_type_name st)
                                 in seqA (php_line (''$GLOBALS['' @ quoted (pr_name p @ ''_xsd_elt_'' @ name) @ ''] = '' @ quoted subname @ '';''))
                                      (xsd_generate_element n out subname (li_elem_type l) None False False True))))))
                           (xs_empty_element out ''xsd:attribute'' [(''name'', ''list''), (''type'', ''xsd:boolean'')])
                      | _ \<Rightarrow> returnA ())
                     (case attrs of None \<Rightarrow> returnA () | Some aa \<Rightarrow> xsd_attributes out aa)))
          else
            (case attrs of
               None \<Rightarrow>
                 xs_empty_element out ''xsd:element''
                   ((''name'', name) # (''type'', xsd_type_name t) # soptional @ snillable)
             | Some aa \<Rightarrow>
                 xs_element out ''xsd:element'' ((''name'', name) # soptional @ snillable)
                  (xs_element out ''xsd:complexType'' []
                    (xs_element out ''xsd:complexContent'' []
                      (xs_element out ''xsd:extension'' [(''base'', xsd_type_name t)]
                        (xsd_attributes out aa)))))))"

definition xsd_generate_struct :: "nat \<Rightarrow> addr \<Rightarrow> xsd_action" where
  "xsd_generate_struct n oa =
     bindA (type_at oa) (\<lambda>t.
       (case t of
          Struct st \<Rightarrow>
            seqA
             (xs_element S_xsd_types ''xsd:complexType'' [(''name'', ty_name st)]
               (xs_element S_xsd_types (if st_xsd_all st then ''xsd:all'' else ''xsd:sequence'') []
                 (for_each (st_members st) (\<lambda>fa.
                   bindA (getsO (\<lambda>g. deref (h_fields (gn_heap g) fa))) (\<lambda>f.
                     xsd_generate_element n S_xsd_types (fl_name f) (fl_type f) (fl_xsd_attrs f)
                       (fl_xsd_optional f \<or> st_xsd_all st) (fl_xsd_nillable f) False)))))
             (xs_emit S_xsd_types [CHR 0x0A])
        | _ \<Rightarrow> getsO (\<lambda>_. Undefined)))"

text \<open>The map \<^verbatim>\<open>all_xceptions\<close> after the exceptions of one function.\<close>

fun collect_xceptions :: "heap \<Rightarrow> addr list \<Rightarrow> (string \<times> addr) list \<Rightarrow> (string \<times> addr) list outcome" where
  "collect_xceptions h [] m = Ok m"
| "collect_xceptions h (fa # fas) m =
     bind_outcome (deref (h_fields h fa)) (\<lambda>f. collect_xceptions h fas (smap_set (fl_name f) (fl_type f) m))"

fun xsd_functions :: "nat \<Rightarrow> t_function list \<Rightarrow> (string \<times> addr) list \<Rightarrow> (xsd_gen, (string \<times> addr) list) action" where
  "xsd_functions n [] m = returnA m"
| "xsd_functions n (fn # fns) m =
     seqA (xsd_generate_element n F_xsd (fn_name fn @ ''_response'') (fn_returntype fn) None False False False)
      (seqA (xs_emit F_xsd [CHR 0x0A])
        (bindA (xsd_members (fn_xceptions fn)) (\<lambda>xs.
         bindA (getsO (\<lambda>g. collect_xceptions (gn_heap g) xs m)) (\<lambda>m. xsd_functions n fns m))))"

definition schema_attrs :: "string \<Rightarrow> (string \<times> string) list" where
  "schema_attrs ns =
     (''xmlns:xsd'', ''http://www.w3.org/2001/XMLSchema'') #
     (if ns \<noteq> [] then [(''targetNamespace'', ns), (''xmlns'', ns), (''elementFormDefault'', ''qualified'')] else [])"

definition xsd_header :: "string \<Rightarrow> string" where
  "xsd_header ns =
     ''<?xml version='' @ in_quotes ''1.0'' @ '' encoding='' @ in_quotes ''UTF-8'' @ '' ?>'' @ [CHR 0x0A] @
     ''<xsd:schema'' @ xml_attrs (schema_attrs ns) @ ''>'' @ [CHR 0x0A, CHR 0x0A] @ ''<!-- Yo yo yo, this XSD woz be generated by Thrift. -->'' @ [CHR 0x0A, CHR 0x0A]"

definition xsd_generate_service :: "nat \<Rightarrow> addr \<Rightarrow> xsd_action" where
  "xsd_generate_service n sa =
     bindA (type_at sa) (\<lambda>t.
     bindA this_program (\<lambda>p.
       (case t of
          Service sv \<Rightarrow>
            bindA (gets xs_types) (\<lambda>types.
            seqA (modify (\<lambda>g. g\<lparr>xs_xsd := xsd_header (get_namespace p ''xsd'') @ indent g @ types\<rparr>))
             (bindA (xsd_functions n (sv_functions sv) []) (\<lambda>all_xceptions.
                block
                 [for_each all_xceptions (\<lambda>(name, ty). xsd_generate_element n F_xsd name ty None False False False),
                  xs_emit F_xsd ([CHR 0x0A] @ ''</xsd:schema>'' @ [CHR 0x0A]),
                  modify (\<lambda>g. g\<lparr>gn_files := gn_files g @
                    [(get_out_dir p (gn_out_dir_base g) @ ty_name sv @ ''.xsd'', xs_xsd g)]\<rparr>)])))
        | _ \<Rightarrow> getsO (\<lambda>_. Undefined))))"

definition xsd_hooks :: "nat \<Rightarrow> _ gen_hooks" where
  "xsd_hooks n =
     \<lparr>hk_init_generator = xsd_init_generator, hk_close_generator = xsd_close_generator,
      hk_generate_consts = generate_consts (\<lambda>_. returnA ()),
      hk_generate_typedef = xsd_generate_typedef, hk_generate_enum = (\<lambda>_. returnA ()),
      hk_generate_struct = xsd_generate_struct n, hk_generate_service = xsd_generate_service n,
      hk_generate_forward_declaration = (\<lambda>_. returnA ()), hk_generate_xception = xsd_generate_struct n\<rparr>"

section \<open>Well-formed XML\<close>

text \<open>
  The part of XML the schemas use: nested elements and empty elements with distinct attributes, comments and
  blank space. Names and values are printable ASCII without the characters XML reserves.
\<close>

definition name_char :: "char \<Rightarrow> bool" where
  "name_char c \<longleftrightarrow> is_upper c \<or> is_lower c \<or> is_digit c \<or> c \<in> set ''_:.-''"

definition xml_name :: "string \<Rightarrow> bool" where
  "xml_name s \<longleftrightarrow> s \<noteq> [] \<and> list_all name_char s \<and> \<not> is_digit (hd s) \<and> hd s \<notin> set ''.-''"

definition xml_value :: "string \<Rightarrow> bool" where
  "xml_value s \<longleftrightarrow> list_all (\<lambda>c. c \<notin> {CHR ''<'', CHR ''&'', CHR 0x22} \<and> 32 \<le> (of_char c :: nat) \<and> (of_char c :: nat) < 127) s"

definition attrs_ok :: "(string \<times> string) list \<Rightarrow> bool" where
  "attrs_ok kvs \<longleftrightarrow> distinct (map fst kvs) \<and> list_all (\<lambda>(k, v). xml_name k \<and> xml_value v) kvs"

definition xml_space :: "string \<Rightarrow> bool" where
  "xml_space s \<longleftrightarrow> list_all (\<lambda>c. c = CHR '' '' \<or> c = CHR 0x0A) s"

inductive xml_content :: "string \<Rightarrow> bool" where
  space: "xml_space s \<Longrightarrow> xml_content s"
| comment: "\<not> sublist ''--'' (s @ ''-'') \<Longrightarrow> list_all (\<lambda>c. 32 \<le> (of_char c :: nat) \<and> (of_char c :: nat) < 127) s \<Longrightarrow>
    xml_content (''<!--'' @ s @ ''-->'')"
| empty_element: "xml_name tag \<Longrightarrow> attrs_ok kvs \<Longrightarrow> xml_content (''<'' @ tag @ xml_attrs kvs @ '' />'')"
| element: "xml_name tag \<Longrightarrow> attrs_ok kvs \<Longrightarrow> xml_content c \<Longrightarrow>
    xml_content (''<'' @ tag @ xml_attrs kvs @ ''>'' @ c @ ''</'' @ tag @ ''>'')"
| append: "xml_content c \<Longrightarrow> xml_content d \<Longrightarrow> xml_content (c @ d)"

definition xml_document :: "string \<Rightarrow> bool" where
  "xml_document s \<longleftrightarrow> (\<exists>tag kvs c w. xml_name tag \<and> attrs_ok kvs \<and> xml_content c \<and> xml_space w \<and>
     s = ''<?xml version='' @ in_quotes ''1.0'' @ '' encoding='' @ in_quotes ''UTF-8'' @ '' ?>'' @ [CHR 0x0A] @
       ''<'' @ tag @ xml_attrs kvs @ ''>'' @ c @ ''</'' @ tag @ ''>'' @ w)"

lemma xml_space_simps [simp]:
  "xml_space []" "xml_space (c # s) \<longleftrightarrow> (c = CHR '' '' \<or> c = CHR 0x0A) \<and> xml_space s"
  "xml_space (s @ t) \<longleftrightarrow> xml_space s \<and> xml_space t"
  by (simp_all add: xml_space_def)

lemma xml_space_indent [simp]: "xml_space (indent g)"
  by (simp add: indent_def spaces_def xml_space_def list_all_iff)

lemma xml_value_simps [simp]:
  "xml_value []" "xml_value (s @ t) \<longleftrightarrow> xml_value s \<and> xml_value t"
  by (simp_all add: xml_value_def)

lemma xsd_names [simp]:
  "xml_name ''xsd:element''" "xml_name ''xsd:complexType''" "xml_name ''xsd:complexContent''"
  "xml_name ''xsd:extension''" "xml_name ''xsd:attribute''" "xml_name ''xsd:sequence''" "xml_name ''xsd:all''"
  "xml_name ''xsd:simpleType''" "xml_name ''xsd:restriction''" "xml_name ''xsd:enumeration''" "xml_name ''xsd:schema''"
  "xml_name ''name''" "xml_name ''type''" "xml_name ''base''" "xml_name ''value''" "xml_name ''minOccurs''"
  "xml_name ''maxOccurs''" "xml_name ''nillable''" "xml_name ''xmlns:xsd''" "xml_name ''xmlns''"
  "xml_name ''targetNamespace''" "xml_name ''elementFormDefault''"
  by code_simp+

lemma xsd_values [simp]:
  "xml_value ''_elt''" "xml_value ''_response''" "xml_value ''0''" "xml_value ''unbounded''" "xml_value ''true''"
  "xml_value ''list''" "xml_value ''xsd:boolean''" "xml_value ''container''" "xml_value ''xsd:int''"
  "xml_value ''http://www.w3.org/2001/XMLSchema''" "xml_value ''qualified''"
  by code_simp+

lemma attrs_ok_simps [simp]:
  "attrs_ok []" "attrs_ok ((k, v) # kvs) \<longleftrightarrow> k \<notin> fst ` set kvs \<and> xml_name k \<and> xml_value v \<and> attrs_ok kvs"
  by (auto simp: attrs_ok_def)

section \<open>Well-formed input\<close>

text \<open>
  What the generator needs of the parse tree: the objects it reads are there, list types nest at most
  as deep as the fuel, and the names it writes are values XML allows. Identifiers of the
  language always are; the values of a string enumeration and the namespace are arbitrary strings.
\<close>

definition xsd_type_ok :: "heap \<Rightarrow> addr \<Rightarrow> bool" where
  "xsd_type_ok h ty \<longleftrightarrow> (case h_types h ty of Some t \<Rightarrow> xml_value (get_name t) | None \<Rightarrow> False)"

primrec xsd_nested :: "nat \<Rightarrow> heap \<Rightarrow> addr \<Rightarrow> bool" where
  "xsd_nested 0 h ty = False"
| "xsd_nested (Suc n) h ty =
     (xsd_type_ok h ty \<and> (case h_types h ty of Some (List_type l) \<Rightarrow> xsd_nested n h (li_elem_type l) | _ \<Rightarrow> True))"

definition xsd_field_ok :: "heap \<Rightarrow> (t_field \<Rightarrow> bool) \<Rightarrow> addr \<Rightarrow> bool" where
  "xsd_field_ok h ok fa \<longleftrightarrow> (case h_fields h fa of Some f \<Rightarrow> xml_value (fl_name f) \<and> ok f | None \<Rightarrow> False)"

definition xsd_struct_ok :: "heap \<Rightarrow> (t_field \<Rightarrow> bool) \<Rightarrow> addr \<Rightarrow> bool" where
  "xsd_struct_ok h ok ty \<longleftrightarrow>
     (case h_types h ty of
        Some (Struct st) \<Rightarrow> xml_value (ty_name st) \<and> list_all (xsd_field_ok h ok) (st_members st)
      | _ \<Rightarrow> False)"

definition xsd_attrs_ok :: "heap \<Rightarrow> addr option \<Rightarrow> bool" where
  "xsd_attrs_ok h attrs \<longleftrightarrow>
     (case attrs of None \<Rightarrow> True | Some aa \<Rightarrow> xsd_struct_ok h (\<lambda>f. xsd_type_ok h (fl_type f)) aa)"

definition xsd_object_ok :: "nat \<Rightarrow> heap \<Rightarrow> addr \<Rightarrow> bool" where
  "xsd_object_ok n h ty \<longleftrightarrow>
     xsd_struct_ok h (\<lambda>f. xsd_nested n h (fl_type f) \<and> xsd_attrs_ok h (fl_xsd_attrs f)) ty"

definition xsd_target_ok :: "heap \<Rightarrow> addr \<Rightarrow> bool" where
  "xsd_target_ok h ty \<longleftrightarrow> xsd_type_ok h ty \<and>
     (case h_types h ty of Some (Base_type b) \<Rightarrow> list_all xml_value (bt_string_enum_vals b) | _ \<Rightarrow> True)"

definition xsd_typedef_ok :: "heap \<Rightarrow> addr \<Rightarrow> bool" where
  "xsd_typedef_ok h ta \<longleftrightarrow>
     (case h_types h ta of
        Some (Typedef td) \<Rightarrow> xml_value (ty_name td) \<and>
          (case typedef_get_type h td of
             Ok ty \<Rightarrow> xsd_target_ok h ty
           | _ \<Rightarrow> False)
      | _ \<Rightarrow> False)"

definition xsd_function_ok :: "nat \<Rightarrow> heap \<Rightarrow> t_function \<Rightarrow> bool" where
  "xsd_function_ok n h fn \<longleftrightarrow> xml_value (fn_name fn) \<and> xsd_nested n h (fn_returntype fn) \<and>
     xsd_struct_ok h (\<lambda>f. xsd_nested n h (fl_type f)) (fn_xceptions fn)"

definition xsd_service_ok :: "nat \<Rightarrow> heap \<Rightarrow> addr \<Rightarrow> bool" where
  "xsd_service_ok n h sa \<longleftrightarrow>
     (case h_types h sa of Some (Service sv) \<Rightarrow> list_all (xsd_function_ok n h) (sv_functions sv) | _ \<Rightarrow> False)"

definition xsd_program_ok :: "nat \<Rightarrow> heap \<Rightarrow> t_program \<Rightarrow> bool" where
  "xsd_program_ok n h p \<longleftrightarrow>
     xml_value (get_namespace p ''xsd'') \<and> list_all (xsd_typedef_ok h) (pr_typedefs p) \<and>
     list_all (xsd_object_ok n h) (pr_objects p) \<and> list_all (xsd_service_ok n h) (pr_services p)"

section \<open>What an action writes\<close>

text \<open>
  An action that returns normally, touches nothing but the indentation, the PHP table and its stream, and appends
  to it a text that stands in the given relation to its result.
\<close>

definition outputs :: "heap \<Rightarrow> addr \<Rightarrow> xsd_stream \<Rightarrow> ('a \<Rightarrow> string \<Rightarrow> bool) \<Rightarrow> (xsd_gen, 'a) action \<Rightarrow> bool" where
  "outputs h pa out P m \<longleftrightarrow> (\<forall>g. at_program h pa g \<longrightarrow>
     (\<exists>v c i php. P v c \<and> m g = (Ok v, xs_put out c (g\<lparr>gn_indent := i, xs_php := php\<rparr>))))"

abbreviation writes_xml :: "heap \<Rightarrow> addr \<Rightarrow> xsd_stream \<Rightarrow> xsd_action \<Rightarrow> bool" where
  "writes_xml h pa out \<equiv> outputs h pa out (\<lambda>_. xml_content)"

lemma xs_put_simps [simp]:
  "xs_put out d ((xs_put out c g)\<lparr>gn_indent := i, xs_php := php\<rparr>) = xs_put out (c @ d) (g\<lparr>gn_indent := i, xs_php := php\<rparr>)"
  "at_program h pa (xs_put out c g) = at_program h pa g"
  "at_program h pa (g\<lparr>gn_indent := i, xs_php := php\<rparr>) = at_program h pa g"
  "xs_put out [] g = g"
  by (cases out; simp add: at_program_def)+

lemma outputs_bind:
  assumes m: "outputs h pa out P m" and f: "\<And>v c. P v c \<Longrightarrow> outputs h pa out (\<lambda>w d. Q w (c @ d)) (f v)"
  shows "outputs h pa out Q (bindA m f)"
  unfolding outputs_def
proof (intro allI impI)
  fix g :: xsd_gen assume "at_program h pa g"
  with m obtain v c i php where c: "P v c" and m: "m g = (Ok v, xs_put out c (g\<lparr>gn_indent := i, xs_php := php\<rparr>))"
    and at: "at_program h pa (xs_put out c (g\<lparr>gn_indent := i, xs_php := php\<rparr>))"
    unfolding outputs_def by fastforce
  from f [OF c] at obtain w d j php' where "Q w (c @ d)"
    and "f v (xs_put out c (g\<lparr>gn_indent := i, xs_php := php\<rparr>)) =
      (Ok w, xs_put out d ((xs_put out c (g\<lparr>gn_indent := i, xs_php := php\<rparr>))\<lparr>gn_indent := j, xs_php := php'\<rparr>))"
    unfolding outputs_def by blast
  with m show "\<exists>v c i php. Q v c \<and> bindA m f g = (Ok v, xs_put out c (g\<lparr>gn_indent := i, xs_php := php\<rparr>))"
    by (intro exI [of _ w] exI [of _ "c @ d"] exI [of _ j] exI [of _ php']) simp
qed

lemma outputs_weaken: "outputs h pa out P m \<Longrightarrow> (\<And>v c. P v c \<Longrightarrow> Q v c) \<Longrightarrow> outputs h pa out Q m"
  unfolding outputs_def by meson

lemma outputs_return: "P v [] \<Longrightarrow> outputs h pa out P (returnA v)"
  unfolding outputs_def returnA_def
proof (intro allI impI)
  fix g :: xsd_gen
  assume "P v []"
  then show "\<exists>w c i php. P w c \<and> (Ok v, g) = (Ok w, xs_put out c (g\<lparr>gn_indent := i, xs_php := php\<rparr>))"
    by (intro exI [of _ v] exI [of _ "[]"] exI [of _ "gn_indent g"] exI [of _ "xs_php g"]) simp
qed

lemma outputs_read:
  assumes "\<And>g. at_program h pa g \<Longrightarrow> f g = Ok v" "outputs h pa out P (k v)"
  shows "outputs h pa out P (bindA (getsO f) k)"
  using assms unfolding outputs_def by (metis run_getsO(1))

lemma writes_seq: "writes_xml h pa out m \<Longrightarrow> writes_xml h pa out m' \<Longrightarrow> writes_xml h pa out (seqA m m')"
  unfolding seqA_def by (rule outputs_bind, assumption, erule outputs_weaken, rule xml_content.append)

lemma writes_return: "writes_xml h pa out (returnA ())"
  by (rule outputs_return) (simp add: xml_content.space)

lemma writes_for_each: "(\<And>x. x \<in> set xs \<Longrightarrow> writes_xml h pa out (f x)) \<Longrightarrow> writes_xml h pa out (for_each xs f)"
  by (induction xs) (auto intro: writes_seq writes_return)

lemma outputs_emit: "P () s \<Longrightarrow> outputs h pa out P (xs_emit out s)"
  unfolding outputs_def xs_emit_def modify_def
proof (intro allI impI)
  fix g :: xsd_gen
  assume "P () s"
  then show "\<exists>v c i php. P v c \<and> (Ok (), xs_put out s g) = (Ok v, xs_put out c (g\<lparr>gn_indent := i, xs_php := php\<rparr>))"
    by (intro exI [of _ "()"] exI [of _ s] exI [of _ "gn_indent g"] exI [of _ "xs_php g"]) simp
qed

lemma outputs_line: "(\<And>w. xml_space w \<Longrightarrow> P () (w @ s @ [CHR 0x0A])) \<Longrightarrow> outputs h pa out P (xs_line out s)"
proof -
  assume P: "\<And>w. xml_space w \<Longrightarrow> P () (w @ s @ [CHR 0x0A])"
  have "outputs h pa out P (bindA (gets indent) (\<lambda>ind. xs_emit out (ind @ s @ [CHR 0x0A])))"
  proof -
    have "outputs h pa out (\<lambda>ind c. xml_space ind \<and> c = []) (gets indent)"
      unfolding outputs_def gets_def
    proof (intro allI impI)
      fix g :: xsd_gen
      show "\<exists>v c i php. (xml_space v \<and> c = []) \<and>
          (Ok (indent g), g) = (Ok v, xs_put out c (g\<lparr>gn_indent := i, xs_php := php\<rparr>))"
        by (intro exI [of _ "indent g"] exI [of _ "[]"] exI [of _ "gn_indent g"] exI [of _ "xs_php g"]) simp
    qed
    then show ?thesis by (rule outputs_bind) (auto intro: outputs_emit P)
  qed
  then show ?thesis by (simp add: xs_line_def)
qed

lemma outputs_other:
  assumes "\<And>g. \<exists>i php. f g = g\<lparr>gn_indent := i, xs_php := php\<rparr>" "P () []"
  shows "outputs h pa out P (modify f)"
  unfolding outputs_def modify_def
proof (intro allI impI)
  fix g :: xsd_gen
  from assms(1) [of g] obtain i php where "f g = g\<lparr>gn_indent := i, xs_php := php\<rparr>" by blast
  with assms(2) show "\<exists>v c i php. P v c \<and> (Ok (), f g) = (Ok v, xs_put out c (g\<lparr>gn_indent := i, xs_php := php\<rparr>))"
    by (intro exI [of _ "()"] exI [of _ "[]"] exI [of _ i] exI [of _ php]) simp
qed

lemma outputs_indent: "P () [] \<Longrightarrow> outputs h pa out P indent_up" "P () [] \<Longrightarrow> outputs h pa out P indent_down"
  unfolding indent_up_def indent_down_def
  by (rule outputs_other, metis xsd_gen.surjective xsd_gen.update_convs(2) t_generator.update_convs(7), assumption)+

lemma writes_php: "writes_xml h pa out (php_line s)"
  unfolding php_line_def
  by (rule outputs_other) (metis xsd_gen.surjective xsd_gen.update_convs(2) t_generator.update_convs(7), simp add: xml_content.space)

lemma outputs_skip:
  "outputs h pa out (\<lambda>_ s. s = []) m \<Longrightarrow> outputs h pa out P m' \<Longrightarrow> outputs h pa out P (seqA m m')"
  unfolding seqA_def by (rule outputs_bind, assumption) simp

lemma writes_space: "xml_space s \<Longrightarrow> writes_xml h pa out (xs_emit out s)"
  by (rule outputs_emit) (rule xml_content.space)

text \<open>An empty element, and an element around contents.\<close>

lemma xml_line: "xml_space w \<Longrightarrow> xml_content c \<Longrightarrow> xml_content (w @ c @ [CHR 0x0A])"
  by (intro xml_content.append) (auto intro: xml_content.space)

lemma writes_empty_element:
  assumes "xml_name tag" "attrs_ok kvs"
  shows "writes_xml h pa out (xs_empty_element out tag kvs)"
  unfolding xs_empty_element_def
  by (rule outputs_line) (simp only: xml_line xml_content.empty_element [OF assms])

lemma writes_element:
  assumes tag: "xml_name tag" "attrs_ok kvs" and body: "writes_xml h pa out body"
  shows "writes_xml h pa out (xs_element out tag kvs body)"
proof -
  let ?opening = "''<'' @ tag @ xml_attrs kvs @ ''>''" and ?closing = "''</'' @ tag @ ''>''"
  have whole: "xml_content ((v @ ?opening @ [CHR 0x0A]) @ c @ (w @ ?closing @ [CHR 0x0A]))"
    if "xml_space v" "xml_content c" "xml_space w" for v c w
  proof -
    have "xml_content ([CHR 0x0A] @ c @ w)"
      using that by (intro xml_content.append) (auto intro: xml_content.space)
    from xml_line [OF that(1) xml_content.element [OF tag this]] show ?thesis by simp
  qed
  have start: "outputs h pa out (\<lambda>_ s. \<exists>v. xml_space v \<and> s = v @ ?opening @ [CHR 0x0A]) (xs_line out ?opening)"
    and stop: "outputs h pa out (\<lambda>_ s. \<exists>w. xml_space w \<and> s = w @ ?closing @ [CHR 0x0A]) (xs_line out ?closing)"
    by (rule outputs_line; blast)+
  have "outputs h pa out (\<lambda>_ d. xml_content ((v @ ?opening @ [CHR 0x0A]) @ c @ d)) (block [indent_down, xs_line out ?closing])"
    if "xml_space v" "xml_content c" for v c
    unfolding block.simps seqA_def [of "xs_line out ?closing"] using that
    by (intro outputs_skip outputs_indent refl outputs_bind [OF stop] outputs_return) (auto intro!: whole [simplified])
  then have "outputs h pa out (\<lambda>_ d. xml_content ((v @ ?opening @ [CHR 0x0A]) @ d)) (block [indent_up, body, indent_down, xs_line out ?closing])"
    if "xml_space v" for v
    unfolding block.simps(2) [of indent_up] block.simps(2) [of body] seqA_def [of body] using that
    by (intro outputs_skip outputs_indent refl outputs_bind [OF body]) blast
  then show ?thesis
    unfolding xs_element_def block.simps(2) [of "xs_line out ?opening"] seqA_def [of "xs_line out ?opening"]
    by (intro outputs_bind [OF start]) blast
qed

section \<open>Every routine writes well-formed contents\<close>

lemma writes_type:
  "h_types h ty = Some t \<Longrightarrow> outputs h pa out P (k t) \<Longrightarrow> outputs h pa out P (bindA (type_at ty) k)"
  unfolding type_at_def by (rule outputs_read) (simp_all add: at_program_def)

lemma writes_field:
  "h_fields h fa = Some f \<Longrightarrow> outputs h pa out P (k f) \<Longrightarrow>
   outputs h pa out P (bindA (getsO (\<lambda>g. deref (h_fields (gn_heap g) fa))) k)"
  by (rule outputs_read) (simp_all add: at_program_def)

lemma writes_this:
  "h_programs h pa = Some p \<Longrightarrow> outputs h pa out P (k p) \<Longrightarrow> outputs h pa out P (bindA this_program k)"
  unfolding this_program_def by (rule outputs_read) (simp_all add: at_program_def)

lemma writes_members:
  "h_types h ty = Some (Struct st) \<Longrightarrow> outputs h pa out P (k (st_members st)) \<Longrightarrow> outputs h pa out P (bindA (xsd_members ty) k)"
  unfolding xsd_members_def run_bind_bind by (rule writes_type, assumption, rule outputs_read) simp_all

lemma xsd_type_name_value: "xml_value (get_name t) \<Longrightarrow> xml_value (xsd_type_name t)"
proof -
  have "xml_value (''xsd:'' @ xsd_base_type_name b)" for b by (cases b) (simp_all add: xml_value_def)
  then show "xml_value (get_name t) \<Longrightarrow> xml_value (xsd_type_name t)"
    unfolding xsd_type_name_def xsd_ns_def by (auto split: t_type_obj.splits)
qed

lemma xsd_type_okE:
  assumes "xsd_type_ok h ty"
  obtains t where "h_types h ty = Some t" "xml_value (xsd_type_name t)"
  using assms by (auto simp: xsd_type_ok_def xsd_type_name_value split: option.splits)

lemma xsd_struct_okE:
  assumes "xsd_struct_ok h ok ty"
  obtains st where "h_types h ty = Some (Struct st)" "xml_value (ty_name st)"
    "\<forall>fa \<in> set (st_members st). \<exists>f. h_fields h fa = Some f \<and> xml_value (fl_name f) \<and> ok f"
  using assms by (fastforce simp: xsd_struct_ok_def xsd_field_ok_def list_all_iff split: option.splits t_type_obj.splits)

lemma writes_attributes:
  assumes "xsd_struct_ok h (\<lambda>f. xsd_type_ok h (fl_type f)) aa"
  shows "writes_xml h pa out (xsd_attributes out aa)"
proof -
  from assms obtain st where st: "h_types h aa = Some (Struct st)" "xml_value (ty_name st)"
    and f: "\<forall>fa \<in> set (st_members st). \<exists>f. h_fields h fa = Some f \<and> xml_value (fl_name f) \<and> xsd_type_ok h (fl_type f)"
    by (rule xsd_struct_okE)
  show ?thesis
    unfolding xsd_attributes_def
  proof (intro writes_members [OF st(1)] writes_for_each)
    fix fa assume "fa \<in> set (st_members st)"
    from bspec [OF f this] obtain f t where "h_fields h fa = Some f" "xml_value (fl_name f)"
      "h_types h (fl_type f) = Some t" "xml_value (xsd_type_name t)" by (blast elim: xsd_type_okE)
    then show "writes_xml h pa out (bindA (getsO (\<lambda>g. deref (h_fields (gn_heap g) fa))) (\<lambda>f.
         bindA (type_at (fl_type f)) (\<lambda>t.
           xs_empty_element out ''xsd:attribute'' [(''name'', fl_name f), (''type'', xsd_type_name t)])))"
      by (intro writes_field writes_type writes_empty_element) simp_all
  qed
qed

lemma writes_optional_attributes:
  "xsd_attrs_ok h attrs \<Longrightarrow>
   writes_xml h pa out (case attrs of None \<Rightarrow> returnA () | Some aa \<Rightarrow> xsd_attributes out aa)"
  by (cases attrs) (simp_all add: xsd_attrs_ok_def writes_return writes_attributes)

theorem writes_xsd_element:
  assumes p: "h_programs h pa = Some p"
  shows "xsd_nested n h ty \<Longrightarrow> xml_value name \<Longrightarrow> xsd_attrs_ok h attrs \<Longrightarrow>
    writes_xml h pa out (xsd_generate_element n out name ty attrs optional nillable list_element)"
proof (induction n arbitrary: name ty attrs optional nillable list_element)
  case (Suc n)
  then obtain t where t: "h_types h ty = Some t" "xml_value (xsd_type_name t)"
    by (auto elim: xsd_type_okE)
  let ?opt = "(if optional \<or> list_element then [(''minOccurs'', ''0'')] else []) @
    (if list_element then [(''maxOccurs'', ''unbounded'')] else []) @ (if nillable then [(''nillable'', ''true'')] else [])"
  have opt: "attrs_ok ((''name'', name) # ?opt)" "attrs_ok ((''name'', name) # (''type'', xsd_type_name t) # ?opt)"
    using t Suc.prems(2) by simp_all
  have sub: "writes_xml h pa out (case t of
      List_type l \<Rightarrow>
        seqA
         (xs_element out ''xsd:sequence'' [(''minOccurs'', ''0''), (''maxOccurs'', ''unbounded'')]
           (bindA (type_at (li_elem_type l)) (\<lambda>st.
            bindA this_program (\<lambda>p.
              (let subname = (if is_base_type st \<or> is_container st then name @ ''_elt'' else xsd_type_name st)
               in seqA (php_line (''$GLOBALS['' @ quoted (pr_name p @ ''_xsd_elt_'' @ name) @ ''] = '' @ quoted subname @ '';''))
                    (xsd_generate_element n out subname (li_elem_type l) None False False True))))))
         (xs_empty_element out ''xsd:attribute'' [(''name'', ''list''), (''type'', ''xsd:boolean'')])
    | _ \<Rightarrow> returnA ())"
  proof (cases t)
    case (List_type l)
    with Suc.prems(1) t have l: "xsd_nested n h (li_elem_type l)" by simp
    then have "xsd_type_ok h (li_elem_type l)" by (cases n) simp_all
    then obtain t' where t': "h_types h (li_elem_type l) = Some t'" "xml_value (xsd_type_name t')" by (rule xsd_type_okE)
    let ?sub = "if is_base_type t' \<or> is_container t' then name @ ''_elt'' else xsd_type_name t'"
    have "writes_xml h pa out (xsd_generate_element n out ?sub (li_elem_type l) None False False True)"
      using l t'(2) Suc.prems(2) by (intro Suc.IH) (simp_all add: xsd_attrs_ok_def)
    then show ?thesis
      unfolding Let_def List_type t_type_obj.simps
      by (intro writes_seq writes_element writes_empty_element writes_type [OF t'(1)] writes_this [OF p] writes_php)
        simp_all
  qed (simp_all add: writes_return)
  note rules = writes_seq writes_element writes_empty_element xsd_names attrs_ok_simps(1) opt
  have base: "attrs_ok [(''base'', xsd_type_name t)]" using t(2) by simp
  show ?case
    unfolding xsd_generate_element.simps Let_def append_assoc
  proof (rule writes_type [OF t(1)], cases "is_void t \<or> is_list t", goal_cases)
    case 1
    have "writes_xml h pa out (if attrs = None \<and> is_void t then xs_empty_element out ''xsd:complexType'' []
        else xs_element out ''xsd:complexType'' [] (seqA m (case attrs of None \<Rightarrow> returnA () | Some aa \<Rightarrow> xsd_attributes out aa)))"
      if "writes_xml h pa out m" for m
      using that Suc.prems(3) by (simp add: rules writes_optional_attributes)
    from this [OF sub, unfolded Let_def] 1 show ?case
      by (simp only: if_True) (intro rules)
  next
    case 2
    then show ?case
      using Suc.prems(3) base
      by (cases attrs) (simp_all only: if_False option.simps rules writes_attributes xsd_attrs_ok_def)
  qed
qed simp

lemma writes_typedef:
  assumes "xsd_typedef_ok h ta"
  shows "writes_xml h pa S_xsd_types (xsd_generate_typedef ta)"
proof -
  from assms obtain td ty where td: "h_types h ta = Some (Typedef td)" "xml_value (ty_name td)"
    and ty: "typedef_get_type h td = Ok ty" "xsd_target_ok h ty"
    by (auto simp: xsd_typedef_ok_def split: option.splits t_type_obj.splits outcome.splits)
  from ty(2) obtain t where t: "h_types h ty = Some t" "xml_value (xsd_type_name t)"
    unfolding xsd_target_ok_def by (blast elim: xsd_type_okE)
  with ty(2) have enum: "list_all xml_value (bt_string_enum_vals b)" if "t = Base_type b" for b
    using that by (simp add: xsd_target_ok_def)
  have "writes_xml h pa S_xsd_types (xsd_restriction t)"
    using t(2) enum unfolding xsd_restriction_def
    by (auto intro!: writes_element writes_empty_element writes_for_each simp: list_all_iff split: t_type_obj.splits)
  then show ?thesis
    unfolding xsd_generate_typedef_def using td ty
    by (intro writes_type [OF td(1)])
      (auto intro!: writes_seq writes_element outputs_read writes_type [OF t(1)] writes_space simp: at_program_def)
qed

lemma writes_struct:
  assumes p: "h_programs h pa = Some p" and "xsd_object_ok n h oa"
  shows "writes_xml h pa S_xsd_types (xsd_generate_struct n oa)"
proof -
  from assms(2) [unfolded xsd_object_ok_def] obtain st where st: "h_types h oa = Some (Struct st)" "xml_value (ty_name st)"
    and f: "\<forall>fa \<in> set (st_members st). \<exists>f. h_fields h fa = Some f \<and> xml_value (fl_name f) \<and>
      xsd_nested n h (fl_type f) \<and> xsd_attrs_ok h (fl_xsd_attrs f)"
    by (rule xsd_struct_okE)
  have "writes_xml h pa S_xsd_types (bindA (getsO (\<lambda>g. deref (h_fields (gn_heap g) fa))) (\<lambda>f.
      xsd_generate_element n S_xsd_types (fl_name f) (fl_type f) (fl_xsd_attrs f)
        (fl_xsd_optional f \<or> st_xsd_all st) (fl_xsd_nillable f) False))" if "fa \<in> set (st_members st)" for fa
  proof -
    from bspec [OF f that] obtain f where "h_fields h fa = Some f" "xml_value (fl_name f)"
      "xsd_nested n h (fl_type f)" "xsd_attrs_ok h (fl_xsd_attrs f)" by blast
    then show ?thesis by (intro writes_field writes_xsd_element [OF p])
  qed
  with st show ?thesis
    unfolding xsd_generate_struct_def
    by (intro writes_type [OF st(1)]) (simp add: writes_seq writes_element writes_for_each writes_space)
qed

text \<open>The elements of a service: the responses of its functions, then the exceptions by name.\<close>

lemma collect_xceptions_ok:
  "list_all (xsd_field_ok h (\<lambda>f. xsd_nested n h (fl_type f))) fas \<Longrightarrow>
   list_all (\<lambda>(x, ty). xml_value x \<and> xsd_nested n h ty) m \<Longrightarrow>
   \<exists>m'. collect_xceptions h fas m = Ok m' \<and> list_all (\<lambda>(x, ty). xml_value x \<and> xsd_nested n h ty) m'"
proof (induction fas arbitrary: m)
  case (Cons fa fas)
  then obtain f where f: "h_fields h fa = Some f" "xml_value (fl_name f)" "xsd_nested n h (fl_type f)"
    by (auto simp: xsd_field_ok_def split: option.splits)
  have "list_all (\<lambda>(x, ty). xml_value x \<and> xsd_nested n h ty) (smap_set (fl_name f) (fl_type f) m)"
    using Cons.prems(2) f by (induction "fl_name f" "fl_type f" m rule: smap_set.induct) auto
  with Cons.IH [of "smap_set (fl_name f) (fl_type f) m"] Cons.prems(1) f(1) show ?case by simp
qed simp

lemma writes_functions:
  assumes p: "h_programs h pa = Some p"
  shows "list_all (xsd_function_ok n h) fns \<Longrightarrow> list_all (\<lambda>(x, ty). xml_value x \<and> xsd_nested n h ty) m \<Longrightarrow>
    outputs h pa F_xsd (\<lambda>m' c. xml_content c \<and> list_all (\<lambda>(x, ty). xml_value x \<and> xsd_nested n h ty) m') (xsd_functions n fns m)"
proof (induction fns arbitrary: m)
  case Nil
  then show ?case by (auto intro!: outputs_return xml_content.space)
next
  case (Cons fn fns)
  let ?ok = "list_all (\<lambda>(x, ty). xml_value x \<and> xsd_nested n h ty)"
  from Cons.prems(1) have fn: "xml_value (fn_name fn @ ''_response'')" "xsd_nested n h (fn_returntype fn)"
    and xs: "xsd_struct_ok h (\<lambda>f. xsd_nested n h (fl_type f)) (fn_xceptions fn)"
    by (simp_all add: xsd_function_ok_def)
  from xs obtain st where st: "h_types h (fn_xceptions fn) = Some (Struct st)"
    and fs: "list_all (xsd_field_ok h (\<lambda>f. xsd_nested n h (fl_type f))) (st_members st)"
    by (auto simp: xsd_struct_ok_def split: option.splits t_type_obj.splits)
  from collect_xceptions_ok [OF fs Cons.prems(2)] obtain m' where
    m': "collect_xceptions h (st_members st) m = Ok m'" "?ok m'" by blast
  have rest: "outputs h pa F_xsd (\<lambda>m' c. xml_content c \<and> ?ok m')
      (bindA (xsd_members (fn_xceptions fn)) (\<lambda>xs.
         bindA (getsO (\<lambda>g. collect_xceptions (gn_heap g) xs m)) (\<lambda>m. xsd_functions n fns m)))"
    using m' Cons.IH Cons.prems(1) by (intro writes_members [OF st] outputs_read) (auto simp: at_program_def)
  have append: "outputs h pa F_xsd (\<lambda>m' c. xml_content c \<and> ?ok m') (seqA w k)"
    if "writes_xml h pa F_xsd w" "outputs h pa F_xsd (\<lambda>m' c. xml_content c \<and> ?ok m') k" for w k
    unfolding seqA_def by (rule outputs_bind [OF that(1)], rule outputs_weaken [OF that(2)]) (auto intro: xml_content.append)
  show ?case
    unfolding xsd_functions.simps using fn
    by (intro append rest writes_xsd_element [OF p] writes_space) (simp_all add: xsd_attrs_ok_def)
qed

section \<open>The schema files\<close>

lemma xsd_keeps:
  "keeps (at_program h pa) (xs_emit out s)" "keeps (at_program h pa) (xs_line out s)"
  "keeps (at_program h pa) (php_line s)" "keeps (at_program h pa) (type_at ty)" "keeps (at_program h pa) (xsd_members ty)"
  "keeps (at_program h pa) (this_program :: (xsd_gen, t_program) action)"
  "keeps (at_program h pa) (indent_up :: xsd_action)" "keeps (at_program h pa) (indent_down :: xsd_action)"
  "keeps (at_program h pa) (xs_empty_element out tag kvs)"
  by (cases out; auto simp: keeps_def xs_emit_def xs_line_def php_line_def type_at_def xsd_members_def this_program_def
      indent_up_def indent_down_def xs_empty_element_def action_simps at_program_def split: option.splits outcome.splits prod.splits)+

lemma xs_element_keeps: "keeps (at_program h pa) body \<Longrightarrow> keeps (at_program h pa) (xs_element out tag kvs body)"
  unfolding xs_element_def block.simps by (intro keeps_seq keeps_return xsd_keeps)

lemmas xsd_rules = keeps_seq keeps_bind keeps_return keeps_for_each keeps_pure xsd_keeps xs_element_keeps

lemma xsd_attributes_keeps: "keeps (at_program h pa) (xsd_attributes out aa)"
  unfolding xsd_attributes_def by (intro xsd_rules)

lemma xsd_element_keeps:
  "keeps (at_program h pa) (xsd_generate_element n out x ty attrs optional nillable list_element)"
proof (induction n arbitrary: x ty attrs optional nillable list_element)
  case (Suc n)
  then show ?case
    unfolding xsd_generate_element.simps Let_def
    by (auto intro!: xsd_rules xsd_attributes_keeps split: t_type_obj.splits option.splits)
qed (simp add: keeps_def)

lemma xsd_functions_keeps: "keeps (at_program h pa) (xsd_functions n fns m)"
  by (induction fns arbitrary: m) (auto intro!: xsd_rules xsd_element_keeps)

lemma xsd_hooks_keep:
  "keeps (at_program h pa) xsd_init_generator"
  "keeps (at_program h pa) (xsd_generate_typedef ty)"
  "keeps (at_program h pa) (xsd_generate_struct n ty)"
  "keeps (at_program h pa) (xsd_generate_service n ty)"
proof -
  have m: "keeps (at_program h pa) (modify f)" if "\<And>g. gn_heap (f g) = gn_heap g \<and> gn_program (f g) = gn_program g"
    for f :: "xsd_gen \<Rightarrow> xsd_gen"
    using that by (simp add: keeps_def modify_def at_program_def)
  show "keeps (at_program h pa) xsd_init_generator"
    unfolding xsd_init_generator_def by (intro xsd_rules m) simp
  show "keeps (at_program h pa) (xsd_generate_typedef ty)"
    unfolding xsd_generate_typedef_def xsd_restriction_def by (auto intro!: xsd_rules split: t_type_obj.splits)
  show "keeps (at_program h pa) (xsd_generate_struct n ty)"
    unfolding xsd_generate_struct_def by (auto intro!: xsd_rules xsd_element_keeps split: t_type_obj.splits)
  show "keeps (at_program h pa) (xsd_generate_service n ty)"
    unfolding xsd_generate_service_def block.simps
    by (auto intro!: xsd_rules m xsd_element_keeps xsd_functions_keeps split: t_type_obj.splits prod.splits)
qed

interpretation xsd: program_walk "xsd_hooks n" for n
  by unfold_locales (simp_all add: xsd_hooks_def generate_consts_def xsd_hooks_keep keeps_for_each)

lemma writes_block: "(\<And>m. m \<in> set ms \<Longrightarrow> writes_xml h pa out m) \<Longrightarrow> writes_xml h pa out (block ms)"
  by (induction ms) (auto intro: writes_seq writes_return)

lemma outputsE:
  assumes "outputs h pa out P m" "at_program h pa g"
  obtains v c i php where "P v c" "m g = (Ok v, xs_put out c (g\<lparr>gn_indent := i, xs_php := php\<rparr>))"
  using assms unfolding outputs_def by blast

lemma writes_xmlE:
  assumes "writes_xml h pa out m" "at_program h pa g"
  obtains c i php where "xml_content c" "m g = (Ok (), xs_put out c (g\<lparr>gn_indent := i, xs_php := php\<rparr>))"
  by (rule outputsE [OF assms]) (metis unit.exhaust)

text \<open>The definitions before the services collect the types.\<close>

definition xsd_type_calls :: "nat \<Rightarrow> t_program \<Rightarrow> xsd_action list" where
  "xsd_type_calls n p =
     map (hk_generate_enum (xsd_hooks n)) (pr_enums p) @ map xsd_generate_typedef (pr_typedefs p) @
     map (hk_generate_forward_declaration (xsd_hooks n)) (pr_objects p) @
     map (generate_object (xsd_hooks n)) (pr_objects p) @ [hk_generate_consts (xsd_hooks n) (pr_consts p)]"

lemma writes_types:
  assumes p: "h_programs h pa = Some p" and ok: "xsd_program_ok n h p"
  shows "writes_xml h pa S_xsd_types (block (xsd_type_calls n p))"
proof -
  have "writes_xml h pa S_xsd_types (generate_object (xsd_hooks n) oa)" if "oa \<in> set (pr_objects p)" for oa
  proof -
    from ok that have oa: "xsd_object_ok n h oa" by (simp add: xsd_program_ok_def list_all_iff)
    then obtain st where "h_types h oa = Some (Struct st)"
      unfolding xsd_object_ok_def by (auto elim: xsd_struct_okE)
    then show ?thesis
      unfolding generate_object_def using writes_struct [OF p oa] by (intro writes_type) (simp_all add: xsd_hooks_def)
  qed
  moreover have "writes_xml h pa S_xsd_types (xsd_generate_typedef ta)" if "ta \<in> set (pr_typedefs p)" for ta
    using ok that by (intro writes_typedef) (simp add: xsd_program_ok_def list_all_iff)
  ultimately show ?thesis
    by (intro writes_block)
      (auto simp: xsd_type_calls_def xsd_hooks_def generate_consts_def writes_return writes_for_each)
qed

lemma xsd_document:
  assumes "xml_value ns" "xml_space w" "xml_content types" "xml_content c" "xml_content d"
  shows "xml_document (xsd_header ns @ (w @ types) @ c @ d @ [CHR 0x0A] @ ''</xsd:schema>'' @ [CHR 0x0A])"
proof -
  let ?note = "'' Yo yo yo, this XSD woz be generated by Thrift. ''"
  have "xml_content (''<!--'' @ ?note @ ''-->'')" by (rule xml_content.comment) code_simp+
  moreover have "xml_content ([CHR 0x0A, CHR 0x0A] @ n @ [CHR 0x0A, CHR 0x0A] @ w @ types @ c @ d @ [CHR 0x0A])"
    if "xml_content n" for n
    using assms that by (intro xml_content.append) (auto intro: xml_content.space)
  ultimately have "xml_content ([CHR 0x0A, CHR 0x0A] @ (''<!--'' @ ?note @ ''-->'') @ [CHR 0x0A, CHR 0x0A] @
      w @ types @ c @ d @ [CHR 0x0A])" by blast
  moreover have "attrs_ok (schema_attrs ns)" using assms(1) by (auto simp: schema_attrs_def)
  ultimately show ?thesis
    unfolding xml_document_def xsd_header_def
    by (intro exI [of _ "''xsd:schema''"] exI [of _ "schema_attrs ns"] exI [of _ "[CHR 0x0A]"] exI conjI) simp_all
qed

lemma xsd_service_run:
  assumes p: "h_programs h pa = Some p" and g: "at_program h pa g" "xml_content (xs_types g)"
    and ok: "xml_value (get_namespace p ''xsd'')" "xsd_service_ok n h sa"
  shows "\<exists>g' sv contents. generate_service_named (xsd_hooks n) sa g = (Ok (), g') \<and> at_program h pa g' \<and>
     xs_types g' = xs_types g \<and> gn_out_dir_base g' = gn_out_dir_base g \<and> xs_php_file g' = xs_php_file g \<and>
     h_types h sa = Some (Service sv) \<and> xml_document contents \<and>
     gn_files g' = gn_files g @ [(get_out_dir p (gn_out_dir_base g) @ ty_name sv @ ''.xsd'', contents)]"
proof -
  from ok(2) obtain sv where sv: "h_types h sa = Some (Service sv)" "list_all (xsd_function_ok n h) (sv_functions sv)"
    by (auto simp: xsd_service_ok_def split: option.splits t_type_obj.splits)
  define g1 where "g1 = g\<lparr>gn_service_name := ty_name sv,
    xs_xsd := xsd_header (get_namespace p ''xsd'') @ indent g @ xs_types g\<rparr>"
  have g1: "at_program h pa g1" using g(1) by (simp add: g1_def at_program_def)
  obtain m c i php where m: "xml_content c" "list_all (\<lambda>(x, ty). xml_value x \<and> xsd_nested n h ty) m"
    and run1: "xsd_functions n (sv_functions sv) [] g1 = (Ok m, xs_put F_xsd c (g1\<lparr>gn_indent := i, xs_php := php\<rparr>))"
    by (rule outputsE [OF writes_functions [OF p sv(2), of "[]"] g1]) auto
  define g2 where "g2 = xs_put F_xsd c (g1\<lparr>gn_indent := i, xs_php := php\<rparr>)"
  have g2: "at_program h pa g2" using g1 by (simp add: g2_def del: xs_put.simps)
  have "writes_xml h pa F_xsd (for_each m (\<lambda>(x, ty). xsd_generate_element n F_xsd x ty None False False False))"
    using m(2) by (intro writes_for_each) (auto simp: list_all_iff xsd_attrs_ok_def intro!: writes_xsd_element [OF p])
  from this g2 obtain d j php' where d: "xml_content d"
    and run2: "for_each m (\<lambda>(x, ty). xsd_generate_element n F_xsd x ty None False False False) g2 =
      (Ok (), xs_put F_xsd d (g2\<lparr>gn_indent := j, xs_php := php'\<rparr>))" by (rule writes_xmlE)
  define contents where "contents = xsd_header (get_namespace p ''xsd'') @ (indent g @ xs_types g) @ c @ d @
    [CHR 0x0A] @ ''</xsd:schema>'' @ [CHR 0x0A]"
  define g3 where "g3 = g1\<lparr>gn_indent := j, xs_php := php', xs_xsd := contents,
    gn_files := gn_files g @ [(get_out_dir p (gn_out_dir_base g) @ ty_name sv @ ''.xsd'', contents)]\<rparr>"
  have "generate_service_named (xsd_hooks n) sa g =
      bindA (xsd_functions n (sv_functions sv) []) (\<lambda>m.
        block [for_each m (\<lambda>(x, ty). xsd_generate_element n F_xsd x ty None False False False),
          xs_emit F_xsd ([CHR 0x0A] @ ''</xsd:schema>'' @ [CHR 0x0A]),
          modify (\<lambda>g. g\<lparr>gn_files := gn_files g @
            [(get_out_dir p (gn_out_dir_base g) @ ty_name sv @ ''.xsd'', xs_xsd g)]\<rparr>)]) g1"
    using p g(1) sv(1)
    by (simp add: generate_service_named_def xsd_hooks_def xsd_generate_service_def type_at_def this_program_def
        at_program_def g1_def get_name_def t_type.defs indent_def run_simps)
  also have "\<dots> = (Ok (), g3)"
    unfolding bindA_Ok [where m = "xsd_functions n (sv_functions sv) []", OF run1] g2_def [symmetric]
      block.simps(2) [of "for_each m f" for f]
      seqA_Ok [where m = "for_each m f" for f, OF run2]
    by (simp add: xs_emit_def run_simps g3_def g2_def g1_def contents_def)
  finally have run: "generate_service_named (xsd_hooks n) sa g = (Ok (), g3)" .
  moreover have "xml_document contents"
    unfolding contents_def using ok(1) g(2) m(1) d by (intro xsd_document) simp_all
  ultimately show ?thesis
    using sv(1) g(1) by (intro exI [of _ g3] exI [of _ sv] exI [of _ contents]) (simp add: g3_def g1_def at_program_def)
qed

lemma xsd_services_run:
  assumes p: "h_programs h pa = Some p" and ns: "xml_value (get_namespace p ''xsd'')"
  shows "list_all (xsd_service_ok n h) sas \<Longrightarrow> at_program h pa g \<Longrightarrow> xml_content (xs_types g) \<Longrightarrow>
    \<exists>g' files. for_each sas (generate_service_named (xsd_hooks n)) g = (Ok (), g') \<and>
      xs_php_file g' = xs_php_file g \<and> gn_files g' = gn_files g @ files \<and>
      list_all2 (\<lambda>sa (file, contents). xml_document contents \<and>
        (\<exists>sv. h_types h sa = Some (Service sv) \<and> file = get_out_dir p (gn_out_dir_base g) @ ty_name sv @ ''.xsd'')) sas files"
proof (induction sas arbitrary: g)
  case Nil
  then show ?case by (simp add: run_simps)
next
  case (Cons sa sas)
  from xsd_service_run [OF p Cons.prems(2,3) ns, of n sa] Cons.prems(1) obtain g1 sv contents where
    g1: "generate_service_named (xsd_hooks n) sa g = (Ok (), g1)" "at_program h pa g1" "xs_types g1 = xs_types g"
      "gn_out_dir_base g1 = gn_out_dir_base g" "xs_php_file g1 = xs_php_file g" "h_types h sa = Some (Service sv)" "xml_document contents"
      "gn_files g1 = gn_files g @ [(get_out_dir p (gn_out_dir_base g) @ ty_name sv @ ''.xsd'', contents)]" by auto
  from Cons.IH [of g1] Cons.prems(1,3) g1(2-4) obtain g' files where
    g': "for_each sas (generate_service_named (xsd_hooks n)) g1 = (Ok (), g')" "xs_php_file g' = xs_php_file g1"
      "gn_files g' = gn_files g1 @ files"
      "list_all2 (\<lambda>sa (file, contents). xml_document contents \<and>
        (\<exists>sv. h_types h sa = Some (Service sv) \<and> file = get_out_dir p (gn_out_dir_base g) @ ty_name sv @ ''.xsd'')) sas files"
    by auto
  from g1 g' show ?case
    by (intro exI [of _ g'] exI [of _ "(get_out_dir p (gn_out_dir_base g) @ ty_name sv @ ''.xsd'', contents) # files"]) simp
qed


text \<open>A service with a function that returns a list of strings and throws an exception.\<close>

definition xsd_demo_heap :: heap where
  "xsd_demo_heap =
     \<lparr>h_types = [1 \<mapsto> Base_type (new_base_type ''string'' TYPE_STRING), 2 \<mapsto> List_type (new_list 1),
        3 \<mapsto> Struct ((new_struct (Some 0) ''Failed'')\<lparr>st_is_xception := True, st_members := [10]\<rparr>),
        4 \<mapsto> Struct (new_struct (Some 0) ''''), 5 \<mapsto> Struct ((new_struct (Some 0) '''')\<lparr>st_members := [11]\<rparr>),
        6 \<mapsto> Service ((new_service 0)\<lparr>ty_name := ''S'', sv_functions :=
          [\<lparr>doc = '''', has_doc = False, fn_returntype = 2, fn_name = ''f'', fn_arglist = 4, fn_xceptions = 5, fn_oneway = False, fn_annotations = []\<rparr>]\<rparr>)],
      h_fields = [10 \<mapsto> new_field 1 ''why'' 1, 11 \<mapsto> new_field 3 ''e'' 1],
      h_programs = [0 \<mapsto> (new_program ''a.thrift'')\<lparr>pr_objects := [3], pr_services := [6]\<rparr>], h_next = 12\<rparr>"


end
