(* ===== verification/Html_Escape.thy ===== *)
theory Html_Escape
  imports Cpp_Library
begin

text \<open>
  The treatment of documentation text in the HTML generator (\<^verbatim>\<open>t_html_generator.cc\<close>): detection of the input
  encoding, character references, and the tags that are allowed in comments. A position in a string is represented by
  the rest of the string from there.
\<close>

unbundle bit_operations_syntax

section \<open>The code\<close>

datatype input_type = INPUT_UNKNOWN | INPUT_UTF8 | INPUT_PLAIN

definition byte :: "char \<Rightarrow> 8 word" where
  "byte c = of_char c"

text \<open>The number of bytes that follow a leading byte.\<close>

definition utf8_count :: "char \<Rightarrow> nat option" where
  "utf8_count c =
     (if byte c AND 0xE0 = 0xC0 then Some 1
      else if byte c AND 0xF0 = 0xE0 then Some 2
      else if byte c AND 0xF8 = 0xF0 then Some 3
      else if byte c AND 0xFC = 0xF8 then Some 4
      else if byte c AND 0xFE = 0xFC then Some 5
      else None)"

fun utf8_following :: "nat \<Rightarrow> string \<Rightarrow> bool" where
  "utf8_following 0 cs = True"
| "utf8_following (Suc n) [] = False"
| "utf8_following (Suc n) (c # cs) = (byte c AND 0xC0 = 0x80 \<and> utf8_following n cs)"

text \<open>\<^verbatim>\<open>str.at\<close> throws beyond the end.\<close>

definition is_utf8_sequence :: "string \<Rightarrow> bool outcome" where
  "is_utf8_sequence str =
     (case str of
        [] \<Rightarrow> Throw ''basic_string::at''
      | c # cs \<Rightarrow> (case utf8_count c of None \<Rightarrow> Ok False | Some n \<Rightarrow> Ok (utf8_following n cs)))"

definition detect_input_encoding :: "string \<Rightarrow> input_type outcome" where
  "detect_input_encoding str =
     bind_outcome (is_utf8_sequence str) (\<lambda>b. Ok (if b then INPUT_UTF8 else INPUT_PLAIN))"

text \<open>The names of tags are compared in lower case.\<close>

definition allowed_markup :: "string list" where
  "allowed_markup =
     [''br'', ''br/'', ''img'', ''b'', ''/b'', ''u'', ''/u'', ''i'', ''/i'', ''s'', ''/s'', ''big'', ''/big'', ''small'', ''/small'',
      ''sup'', ''/sup'', ''sub'', ''/sub'', ''pre'', ''/pre'', ''tt'', ''/tt'', ''ul'', ''/ul'', ''ol'', ''/ol'', ''li'', ''/li'',
      ''a'', ''/a'', ''p'', ''/p'', ''code'', ''/code'', ''dl'', ''/dl'', ''dt'', ''/dt'', ''dd'', ''/dd'', ''h1'', ''/h1'',
      ''h2'', ''/h2'', ''h3'', ''/h3'', ''h4'', ''/h4'', ''h5'', ''/h5'', ''h6'', ''/h6'']"

definition white_chars :: string where
  "white_chars = [CHR '' '', CHR 0x09, CHR 0x0C, CHR 0x0B, CHR 0x0A, CHR 0x0D]"

definition tag_key :: "string \<Rightarrow> string" where
  "tag_key tag_content = map to_lower (takeWhile (\<lambda>c. c \<notin> set white_chars) tag_content)"

text \<open>A tag up to the next \<open>>\<close> or the end, with the text behind it.\<close>

fun read_tag :: "string \<Rightarrow> string \<times> string" where
  "read_tag [] = ([], [])"
| "read_tag (c # cs) =
     (if c = CHR ''>'' then ([], cs)
      else let (tag, rest) = read_tag cs in ((if c = CHR ''<'' then ''&lt;'' else [c]) @ tag, rest))"

definition angle :: "char \<Rightarrow> bool" where
  "angle c \<longleftrightarrow> c = CHR ''<'' \<or> c = CHR ''>''"

text \<open>Text without angle brackets, such as the names of definitions.\<close>

definition plain :: "string \<Rightarrow> bool" where
  "plain s \<longleftrightarrow> (\<forall>c \<in> set s. \<not> angle c)"

definition escape_tag :: "string \<Rightarrow> string" where
  "escape_tag tag =
     (if tag_key tag \<in> set allowed_markup then ''<'' @ tag @ ''>'' else ''&lt;'' @ tag @ ''&gt;'')"

lemma read_tag_rest: "length (snd (read_tag s)) \<le> length s"
  by (induction s) (auto split: prod.splits)

lemma dropWhile_rest: "dropWhile P s = c # cs \<Longrightarrow> length cs < length s"
  by (metis length_Cons length_dropWhile_le less_eq_Suc_le)

function escape_html_tags :: "string \<Rightarrow> string" where
  "escape_html_tags str =
     takeWhile (\<lambda>c. \<not> angle c) str @
     (case dropWhile (\<lambda>c. \<not> angle c) str of
        [] \<Rightarrow> []
      | c # cs \<Rightarrow>
          if c = CHR ''>'' then ''&gt;'' @ escape_html_tags cs
          else escape_tag (fst (read_tag cs)) @ escape_html_tags (snd (read_tag cs)))"
  by pat_completeness auto
termination
proof (relation "measure length", goal_cases)
  case (3 str c cs)
  then show ?case using dropWhile_rest [of "\<lambda>c. \<not> angle c" str c cs] read_tag_rest [of cs] by simp
qed (auto dest: dropWhile_rest)

declare escape_html_tags.simps [simp del]

text \<open>Characters that are neither control characters nor beyond ASCII; 127 is let through.\<close>

definition plain_char :: "char \<Rightarrow> bool" where
  "plain_char c \<longleftrightarrow> 32 \<le> (of_char c :: nat) \<and> (of_char c :: nat) \<le> 127"

function escape_chars :: "input_type \<Rightarrow> string \<Rightarrow> (string \<times> input_type) outcome" where
  "escape_chars ity str =
     (case dropWhile plain_char str of
        [] \<Rightarrow> Ok (str, ity)
      | c # cs \<Rightarrow>
          if (of_char c :: nat) \<le> 31
          then bind_outcome (escape_chars ity cs) (\<lambda>(s, t).
                 Ok (takeWhile plain_char str @ (if c \<in> {CHR 0x0D, CHR 0x0A, CHR 0x09} then [c] else []) @ s, t))
          else
            bind_outcome (if ity = INPUT_UNKNOWN then detect_input_encoding (c # cs) else Ok ity) (\<lambda>t.
              if ity = INPUT_UNKNOWN \<and> t = INPUT_UTF8 then Ok (takeWhile plain_char str @ c # cs, t)
              else if t = INPUT_PLAIN
              then bind_outcome (escape_chars t cs) (\<lambda>(s, u).
                     Ok (takeWhile plain_char str @ ''&#'' @ show_nat (of_char c) @ '';'' @ s, u))
              else Throw ''Unexpected or unrecognized input encoding''))"
  by pat_completeness auto
termination
  by (relation "measure (\<lambda>(ity, str). length str)") (auto dest: dropWhile_rest)

declare escape_chars.simps [simp del]

definition escape_html :: "input_type \<Rightarrow> string \<Rightarrow> (string \<times> input_type) outcome" where
  "escape_html ity str =
     (if ity = INPUT_UTF8 then Ok (escape_html_tags str, ity)
      else bind_outcome (escape_chars ity str) (\<lambda>(s, t). Ok (escape_html_tags s, t)))"

section \<open>What may appear in a page\<close>

text \<open>Text in which every \<open><\<close> opens, and every \<open>>\<close> closes, one of the allowed tags.\<close>

inductive doc_markup :: "string \<Rightarrow> bool" where
  markup_empty: "doc_markup []"
| markup_char: "\<not> angle c \<Longrightarrow> doc_markup s \<Longrightarrow> doc_markup (c # s)"
| markup_tag: "tag_key tag \<in> set allowed_markup \<Longrightarrow> plain tag \<Longrightarrow> doc_markup s \<Longrightarrow>
    doc_markup (''<'' @ tag @ ''>'' @ s)"

lemma plain_simps [simp]:
  "plain []" "plain (c # s) \<longleftrightarrow> c \<noteq> CHR ''<'' \<and> c \<noteq> CHR ''>'' \<and> plain s" "plain (s @ t) \<longleftrightarrow> plain s \<and> plain t"
  by (auto simp: plain_def angle_def)

lemma plain_takeWhile: "plain (takeWhile (\<lambda>c. \<not> angle c) s)" "plain s \<Longrightarrow> plain (takeWhile P s)"
  by (auto simp: plain_def dest: set_takeWhileD)

lemma doc_markup_plain: "plain s \<Longrightarrow> doc_markup s"
  by (induction s) (auto intro: doc_markup.intros simp: angle_def)

lemma doc_markup_append: "doc_markup s \<Longrightarrow> doc_markup t \<Longrightarrow> doc_markup (s @ t)"
proof (induction rule: doc_markup.induct)
  case (markup_tag tag s)
  then have "doc_markup (''<'' @ tag @ ''>'' @ (s @ t))" by (intro doc_markup.markup_tag) auto
  then show ?case by simp
qed (auto intro: doc_markup.intros)

lemma angle_chars [simp]: "angle (CHR ''<'')" "angle (CHR ''>'')"
  by (simp_all add: angle_def)

lemma read_tag_plain: "plain (fst (read_tag s))"
proof (induction s)
  case (Cons c s)
  then show ?case by (auto split: prod.splits)
qed simp

lemma read_tag_exact: "plain tag \<Longrightarrow> read_tag (tag @ CHR ''>'' # s) = (tag, s)"
  by (induction tag) auto

lemma escape_tag_markup: "plain tag \<Longrightarrow> doc_markup (escape_tag tag)"
  using markup_tag [of tag "[]"] by (auto simp: escape_tag_def markup_empty intro!: doc_markup_plain)

lemma escape_html_tags_markup: "doc_markup (escape_html_tags str)"
proof (induction str rule: escape_html_tags.induct)
  case (1 str)
  have plain: "doc_markup (takeWhile (\<lambda>c. \<not> angle c) str)"
    by (rule doc_markup_plain) (rule plain_takeWhile)
  show ?case
  proof (cases "dropWhile (\<lambda>c. \<not> angle c) str")
    case Nil
    with plain show ?thesis by (simp add: escape_html_tags.simps [of str] del: dropWhile_eq_Nil_conv)
  next
    case (Cons c cs)
    have "doc_markup (if c = CHR ''>'' then ''&gt;'' @ escape_html_tags cs
        else escape_tag (fst (read_tag cs)) @ escape_html_tags (snd (read_tag cs)))"
    proof (cases "c = CHR ''>''")
      case True
      with 1(1) [OF Cons] doc_markup_append [OF doc_markup_plain, of "''&gt;''"] show ?thesis by simp
    next
      case False
      with 1(2) [OF Cons] doc_markup_append [OF escape_tag_markup [OF read_tag_plain]] show ?thesis by simp
    qed
    with plain Cons show ?thesis by (simp add: escape_html_tags.simps [of str] doc_markup_append)
  qed
qed

text \<open>Text of this form is left as it is.\<close>

lemma escape_html_tags_step:
  "\<not> angle c \<Longrightarrow> escape_html_tags (c # s) = c # escape_html_tags s"
  by (simp add: escape_html_tags.simps [of "c # s"] escape_html_tags.simps [of s])

lemma escape_html_tags_tag:
  assumes "plain tag"
  shows "escape_html_tags (''<'' @ tag @ ''>'' @ s) = escape_tag tag @ escape_html_tags s"
  using read_tag_exact [OF assms, of s] by (simp add: escape_html_tags.simps [of "CHR ''<'' # tag @ CHR ''>'' # s"])

lemma escape_html_tags_fixed: "doc_markup s \<Longrightarrow> escape_html_tags s = s"
proof (induction rule: doc_markup.induct)
  case markup_empty
  show ?case by (simp add: escape_html_tags.simps)
next
  case (markup_char c s)
  then show ?case by (simp add: escape_html_tags_step)
next
  case (markup_tag tag s)
  then show ?case by (simp add: escape_html_tags_tag escape_tag_def del: append_Cons)
qed

section \<open>What is left of the encoding\<close>

definition text_char :: "char \<Rightarrow> bool" where
  "text_char c \<longleftrightarrow> plain_char c \<or> c \<in> {CHR 0x0D, CHR 0x0A, CHR 0x09}"

lemma is_digit_plain: "is_digit c \<Longrightarrow> text_char c"
  by (auto simp: is_digit_def text_char_def plain_char_def)

lemma show_nat_text: "list_all text_char (show_nat n)"
  using show_nat_digits is_digit_plain by (auto simp: list_all_iff)

lemma literal_text [simp]: "text_char (CHR ''&'')" "text_char (CHR ''#'')" "text_char (CHR '';'')"
  by code_simp+

text \<open>The conversion always returns; unless it found UTF-8 the result is printable ASCII and blank space.\<close>

lemma detect_returns: "\<exists>t. detect_input_encoding (c # cs) = Ok t \<and> t \<noteq> INPUT_UNKNOWN"
  by (auto simp: detect_input_encoding_def is_utf8_sequence_def split: option.splits)

lemma escape_chars_returns:
  "ity \<noteq> INPUT_UTF8 \<Longrightarrow> \<exists>s t. escape_chars ity str = Ok (s, t) \<and> (t \<noteq> INPUT_UTF8 \<longrightarrow> list_all text_char s) \<and>
     (ity = INPUT_PLAIN \<longrightarrow> t = INPUT_PLAIN) \<and> (t = INPUT_UNKNOWN \<longrightarrow> ity = INPUT_UNKNOWN \<and> list_all text_char s)"
proof (induction ity str rule: escape_chars.induct)
  case (1 ity str)
  let ?plain = "takeWhile plain_char str"
  have plain: "list_all text_char ?plain"
    by (auto simp: list_all_iff text_char_def dest: set_takeWhileD)
  show ?case
  proof (cases "dropWhile plain_char str")
    case Nil
    then have "takeWhile plain_char str = str" using takeWhile_dropWhile_id [of plain_char str] by simp
    with plain have "list_all text_char str" by argo
    moreover have "escape_chars ity str = Ok (str, ity)" using Nil by (subst escape_chars.simps) (simp only: list.case)
    ultimately show ?thesis using "1.prems" by (cases ity) auto
  next
    case (Cons c cs)
    show ?thesis
    proof (cases "(of_char c :: nat) \<le> 31")
      case True
      from "1.IH"(1) [OF Cons True "1.prems"] obtain s t where s: "escape_chars ity cs = Ok (s, t)"
          "t \<noteq> INPUT_UTF8 \<longrightarrow> list_all text_char s" "ity = INPUT_PLAIN \<longrightarrow> t = INPUT_PLAIN"
          "t = INPUT_UNKNOWN \<longrightarrow> ity = INPUT_UNKNOWN \<and> list_all text_char s" by blast
      let ?c = "if c \<in> {CHR 0x0D, CHR 0x0A, CHR 0x09} then [c] else []"
      have "escape_chars ity str = Ok (?plain @ ?c @ s, t)"
        using Cons True s(1) by (subst escape_chars.simps) simp
      moreover have "list_all text_char ?c" by (simp add: text_char_def)
      ultimately show ?thesis using s(2-4) plain by (simp del: insert_iff)
    next
      case False
      obtain t where t: "(if ity = INPUT_UNKNOWN then detect_input_encoding (c # cs) else Ok ity) = Ok t" "t \<noteq> INPUT_UNKNOWN"
          "ity = INPUT_PLAIN \<Longrightarrow> t = INPUT_PLAIN"
        using detect_returns [of c cs] "1.prems" by (cases ity) auto
      show ?thesis
      proof (cases "t = INPUT_PLAIN")
        case True
        have "\<not> (ity = INPUT_UNKNOWN \<and> t = INPUT_UTF8)" using True by simp
        from "1.IH"(2) [OF Cons False t(1) this True] True obtain s where
          s: "escape_chars t cs = Ok (s, INPUT_PLAIN)" "list_all text_char s" by auto
        let ?s = "?plain @ ''&#'' @ show_nat (of_char c) @ '';'' @ s"
        have "escape_chars ity str = Ok (?s, INPUT_PLAIN)"
          using Cons False t(1) True s(1) by (subst escape_chars.simps) simp
        moreover have "list_all text_char ?s" using plain s(2) show_nat_text [of "of_char c"] by simp
        ultimately show ?thesis by simp
      next
        case False
        with t "1.prems" have "ity = INPUT_UNKNOWN" "t = INPUT_UTF8" by (cases ity; cases t; simp)+
        moreover from this have "escape_chars ity str = Ok (?plain @ c # cs, INPUT_UTF8)"
          using Cons \<open>\<not> of_char c \<le> 31\<close> t(1) by (subst escape_chars.simps) simp
        ultimately show ?thesis by simp
      qed
    qed
  qed
qed

lemma escape_chars_fixed: "list_all text_char str \<Longrightarrow> escape_chars ity str = Ok (str, ity)"
proof (induction "length str" arbitrary: str rule: less_induct)
  case less
  show ?case
  proof (cases "dropWhile plain_char str")
    case Nil
    then show ?thesis by (subst escape_chars.simps) (simp only: list.case)
  next
    case (Cons c cs)
    have str: "str = takeWhile plain_char str @ c # cs" using takeWhile_dropWhile_id [of plain_char str] Cons by simp
    have "\<not> plain_char c" using hd_dropWhile [of plain_char str] Cons by simp
    moreover have all: "list_all text_char (c # cs)" using less.prems by (subst (asm) str) simp
    ultimately have c: "c \<in> {CHR 0x0D, CHR 0x0A, CHR 0x09}" by (simp add: text_char_def)
    then have "(of_char c :: nat) \<le> 31" by auto
    moreover have "length cs < length str" using str by (metis Cons dropWhile_rest)
    with less.hyps all have "escape_chars ity cs = Ok (cs, ity)" by simp
    ultimately have "escape_chars ity str = Ok (takeWhile plain_char str @ [c] @ cs, ity)"
      using Cons c by (subst escape_chars.simps) simp
    with str show ?thesis by simp
  qed
qed

text \<open>Escaping tags writes no character but those of the text and of the two references.\<close>

lemma read_tag_text: "list_all text_char s \<Longrightarrow> list_all text_char (fst (read_tag s)) \<and> list_all text_char (snd (read_tag s))"
proof (induction s)
  case (Cons c s)
  moreover have "list_all text_char ''&lt;''" by code_simp
  ultimately show ?case by (auto split: prod.splits)
qed simp

lemma escape_tag_text: "list_all text_char tag \<Longrightarrow> list_all text_char (escape_tag tag)"
proof -
  have "list_all text_char ''&lt;''" "list_all text_char ''&gt;''" "list_all text_char ''<''" "list_all text_char ''>''"
    by code_simp+
  then show "list_all text_char tag \<Longrightarrow> list_all text_char (escape_tag tag)" by (auto simp: escape_tag_def)
qed

lemma escape_html_tags_text: "list_all text_char str \<Longrightarrow> list_all text_char (escape_html_tags str)"
proof (induction str rule: escape_html_tags.induct)
  case (1 str)
  let ?plain = "takeWhile (\<lambda>c. \<not> angle c) str"
  have str: "str = ?plain @ dropWhile (\<lambda>c. \<not> angle c) str" by simp
  then have parts: "list_all text_char ?plain" "list_all text_char (dropWhile (\<lambda>c. \<not> angle c) str)"
    using "1.prems" by (metis list_all_append)+
  have gt: "list_all text_char ''&gt;''" by code_simp
  show ?case
  proof (cases "dropWhile (\<lambda>c. \<not> angle c) str")
    case Nil
    with parts show ?thesis by (subst escape_html_tags.simps) (simp del: dropWhile_eq_Nil_conv)
  next
    case (Cons c cs)
    with parts have cs: "list_all text_char cs" by simp
    have "list_all text_char (escape_tag (fst (read_tag cs)))" using read_tag_text [OF cs] escape_tag_text by blast
    with 1(1) [OF Cons _ cs] 1(2) [OF Cons] read_tag_text [OF cs] parts(1) gt Cons show ?thesis
      by (subst escape_html_tags.simps) simp
  qed
qed

section \<open>Escaped text\<close>

lemma escape_html_result:
  "\<exists>out t. escape_html ity str = Ok (out, t) \<and> doc_markup out \<and> (ity \<noteq> INPUT_UNKNOWN \<longrightarrow> t = ity) \<and>
     (t \<noteq> INPUT_UTF8 \<longrightarrow> list_all text_char out)"
proof (cases "ity = INPUT_UTF8")
  case True
  then show ?thesis by (simp add: escape_html_def escape_html_tags_markup)
next
  case False
  from escape_chars_returns [OF this, of str] obtain s t where
    s: "escape_chars ity str = Ok (s, t)" "t \<noteq> INPUT_UTF8 \<longrightarrow> list_all text_char s" "ity = INPUT_PLAIN \<longrightarrow> t = INPUT_PLAIN" by blast
  with False escape_html_tags_text [of s] show ?thesis
    by (cases ity) (auto simp: escape_html_def escape_html_tags_markup)
qed

text \<open>
  C16: Whatever a documentation comment contains and whatever encoding was found before, escaping it returns, never with an
  exception; the only tags of the result are those of the list of allowed markup, every other \<open><\<close> and \<open>>\<close> has become
  a character reference; an encoding once found is never revised; and unless it is UTF-8 the
  result is printable ASCII and blank space.
\<close>

theorem html_escape_safe:
  "\<exists>out t. escape_html ity str = Ok (out, t) \<and> doc_markup out \<and> (ity \<noteq> INPUT_UNKNOWN \<longrightarrow> t = ity) \<and>
     (t \<noteq> INPUT_UTF8 \<longrightarrow> list_all text_char out)"
  by (rule escape_html_result)

text \<open>A script is disarmed, in a text whose umlaut is Latin-1.\<close>

theorem html_escape_safe_witness:
  "escape_html INPUT_UNKNOWN (CHR 0xFC # ''<B>x</B><script>'') = Ok (''&#252;<B>x</B>&lt;script&gt;'', INPUT_PLAIN) \<and>
   doc_markup ''&#252;<B>x</B>&lt;script&gt;''"
proof -
  have "escape_html INPUT_UNKNOWN (CHR 0xFC # ''<B>x</B><script>'') = Ok (''&#252;<B>x</B>&lt;script&gt;'', INPUT_PLAIN)"
    by code_simp
  then show ?thesis using html_escape_safe [of INPUT_UNKNOWN "CHR 0xFC # ''<B>x</B><script>''"] by auto
qed



end
