(* ===== verification/Html.thy ===== *)
theory Html
  imports Generator Html_Escape
begin

text \<open>
  The HTML generator (\<^verbatim>\<open>t_html_generator.cc\<close>): a page for the program with a table of contents and the
  definitions, an index of the program and everything it includes, and the style sheet. The text of the
  vendored style sheet \<^verbatim>\<open>BOOTSTRAP_CSS\<close> and the printed form of a \<^verbatim>\<open>double\<close> are arguments.
\<close>

section \<open>The generator\<close>

record html_gen = t_generator +
  ht_out :: string
  ht_current_file :: string
  ht_input_type :: input_type
  ht_standalone :: bool
  ht_unsafe :: bool

type_synonym html_action = "(html_gen, unit) action"

definition html_escapes :: "(char \<times> string) list" where
  "html_escapes =
     smap_set (CHR 0x27) ''&apos;''
      (smap_set (CHR 0x22) ''&quot;''
        (smap_set (CHR ''>'') ''&gt;''
          (smap_set (CHR ''<'') ''&lt;''
            (smap_set (CHR ''&'') ''&amp;'' []))))"

definition new_html_generator :: "heap \<Rightarrow> addr \<Rightarrow> (string \<times> string) list \<Rightarrow> html_gen outcome" where
  "new_html_generator h pa parsed_options =
     bind_outcome (new_generator h pa ''gen-html'') (\<lambda>g.
       Ok (t_generator.extend (g\<lparr>gn_escape := html_escapes\<rparr>)
             \<lparr>ht_out = '''', ht_current_file = '''', ht_input_type = INPUT_UNKNOWN,
              ht_standalone = (smap_find parsed_options ''standalone'' \<noteq> None),
              ht_unsafe = (smap_find parsed_options ''noescape'' \<noteq> None)\<rparr>))"

definition html_emit :: "string \<Rightarrow> html_action" where
  "html_emit s = modify (\<lambda>g. g\<lparr>ht_out := ht_out g @ s\<rparr>)"

definition html_line :: "string \<Rightarrow> html_action" where
  "html_line s = html_emit (s @ [CHR 0x0A])"

definition html_open :: "string \<Rightarrow> html_action" where
  "html_open name = modify (\<lambda>g. g\<lparr>ht_current_file := name, ht_out := ''''\<rparr>)"

definition html_close :: html_action where
  "html_close =
     bindA this_program (\<lambda>p.
       modify (\<lambda>g. g\<lparr>gn_files := gn_files g @ [(get_out_dir p (gn_out_dir_base g) @ ht_current_file g, ht_out g)]\<rparr>))"

definition html_escaped :: "string \<Rightarrow> (html_gen, string) action" where
  "html_escaped str =
     bindA (getsO (\<lambda>g. escape_html (ht_input_type g) str)) (\<lambda>(s, t).
       seqA (modify (\<lambda>g. g\<lparr>ht_input_type := t\<rparr>)) (returnA s))"

definition make_file_link :: "string \<Rightarrow> (html_gen, string) action" where
  "make_file_link filename = gets (\<lambda>g. if ht_current_file g \<noteq> filename then filename else '''')"

text \<open>A link to an anchor of a page, with its name.\<close>

definition html_link :: "string \<Rightarrow> string \<Rightarrow> string \<Rightarrow> string" where
  "html_link file anchor name = ''<a href='' @ in_quotes (file @ ''#'' @ anchor) @ ''>'' @ name @ ''</a>''"

definition table_class :: string where
  "table_class = ''<table class='' @ in_quotes ''table-bordered table-striped table-condensed'' @ ''>''"

definition type_here :: "addr \<Rightarrow> (html_gen, t_type_obj) action" where
  "type_here ty = type_at ty"

definition field_here :: "addr \<Rightarrow> (html_gen, t_field) action" where
  "field_here fa = getsO (\<lambda>g. deref (h_fields (gn_heap g) fa))"

definition program_here :: "addr \<Rightarrow> (html_gen, t_program) action" where
  "program_here pa = getsO (\<lambda>g. deref (h_programs (gn_heap g) pa))"

section \<open>Table of contents\<close>

text \<open>\<^verbatim>\<open>insert\<close> keeps the entry that is there.\<close>

definition smap_insert :: "'k::linorder \<Rightarrow> 'v \<Rightarrow> ('k \<times> 'v) list \<Rightarrow> ('k \<times> 'v) list" where
  "smap_insert k v m = (if smap_find m k = None then smap_set k v m else m)"

definition toc_service :: "string \<Rightarrow> addr \<Rightarrow> html_action" where
  "toc_service fname sa =
     bindA (type_here sa) (\<lambda>t.
     bindA (make_file_link fname) (\<lambda>link.
       (case t of
          Service sv \<Rightarrow>
            (let name = ty_name sv;
                 fn_html = foldl (\<lambda>m fn. smap_insert (fn_name fn)
                   (''<li>'' @ html_link link (''Fn_'' @ name @ ''_'' @ fn_name fn) (fn_name fn) @ ''</li>'') m) [] (sv_functions sv)
             in block
                 [html_line (html_link link (''Svc_'' @ name) name @ ''<br/>''),
                  html_line ''<ul>'',
                  for_each fn_html (\<lambda>(fn, html). html_line html),
                  html_line ''</ul>''])
        | _ \<Rightarrow> getsO (\<lambda>_. Undefined))))"

text \<open>The links to the definitions of one kind are added to the map.\<close>

fun toc_types :: "heap \<Rightarrow> string \<Rightarrow> string \<Rightarrow> (t_type_obj \<Rightarrow> string outcome) \<Rightarrow> addr list \<Rightarrow> (string \<times> string) list \<Rightarrow>
    (string \<times> string) list outcome" where
  "toc_types h link kind name_of [] m = Ok m"
| "toc_types h link kind name_of (ta # tas) m =
     bind_outcome (deref (h_types h ta)) (\<lambda>t.
     bind_outcome (name_of t) (\<lambda>name.
       toc_types h link kind name_of tas (smap_insert name (html_link link (kind @ name) name) m)))"

definition enum_name :: "t_type_obj \<Rightarrow> string outcome" where
  "enum_name t = (case t of Enum e \<Rightarrow> Ok (ty_name e) | _ \<Rightarrow> Undefined)"

definition symbolic_name :: "t_type_obj \<Rightarrow> string outcome" where
  "symbolic_name t = (case t of Typedef td \<Rightarrow> Ok (td_symbolic td) | _ \<Rightarrow> Undefined)"

definition struct_name :: "t_type_obj \<Rightarrow> string outcome" where
  "struct_name t = (case t of Struct st \<Rightarrow> Ok (ty_name st) | _ \<Rightarrow> Undefined)"

definition toc_data_types :: "string \<Rightarrow> t_program \<Rightarrow> (html_gen, (string \<times> string) list) action" where
  "toc_data_types link tprog =
     getsO (\<lambda>g.
       bind_outcome (toc_types (gn_heap g) link ''Enum_'' enum_name (pr_enums tprog) []) (\<lambda>m.
       bind_outcome (toc_types (gn_heap g) link ''Typedef_'' symbolic_name (pr_typedefs tprog) m) (\<lambda>m.
         toc_types (gn_heap g) link ''Struct_'' struct_name (pr_objects tprog) m)))"

definition toc_constants :: "string \<Rightarrow> t_const list \<Rightarrow> (string \<times> string) list" where
  "toc_constants link consts =
     foldl (\<lambda>m c. smap_insert (co_name c) (''<code>'' @ html_link link (''Const_'' @ co_name c) (co_name c) @ ''</code>'') m) [] consts"

definition generate_program_toc_row :: "addr \<Rightarrow> html_action" where
  "generate_program_toc_row pa =
     bindA (program_here pa) (\<lambda>tprog.
       let fname = pr_name tprog @ ''.html''
       in block
           [html_emit (''<tr>'' @ [CHR 0x0A] @ ''<td>'' @ pr_name tprog @ ''</td><td>''),
            for_each (pr_services tprog) (toc_service fname),
            html_emit (''</td>'' @ [CHR 0x0A] @ ''<td>''),
            bindA (make_file_link fname) (\<lambda>link.
            bindA (toc_data_types link tprog) (\<lambda>data_types.
              for_each data_types (\<lambda>(name, html). html_line (html @ ''<br/>'')))),
            html_emit (''</td>'' @ [CHR 0x0A] @ ''<td>''),
            bindA (make_file_link fname) (\<lambda>link.
              for_each (toc_constants link (pr_consts tprog)) (\<lambda>(name, html). html_line (html @ ''<br/>''))),
            html_emit (''</code></td>'' @ [CHR 0x0A] @ ''</tr>'')])"

definition toc_head :: string where
  "toc_head = table_class @ ''<thead><th>Module</th><th>Services</th><th>Data types</th><th>Constants</th></thead>''"

definition generate_program_toc :: html_action where
  "generate_program_toc =
     block
      [html_line toc_head,
       bindA (gets gn_program) generate_program_toc_row,
       html_line ''</table>'']"

text \<open>A loop that hands a value from one iteration to the next.\<close>

fun fold_each :: "'x list \<Rightarrow> ('x \<Rightarrow> 'a \<Rightarrow> ('s, 'a) action) \<Rightarrow> 'a \<Rightarrow> ('s, 'a) action" where
  "fold_each [] f a = returnA a"
| "fold_each (x # xs) f a = bindA (f x a) (fold_each xs f)"

fun same_path :: "heap \<Rightarrow> t_program \<Rightarrow> addr list \<Rightarrow> bool outcome" where
  "same_path h tprog [] = Ok False"
| "same_path h tprog (pa # pas) =
     bind_outcome (deref (h_programs h pa)) (\<lambda>p. if pr_path tprog = pr_path p then Ok True else same_path h tprog pas)"

primrec generate_program_toc_rows :: "nat \<Rightarrow> addr \<Rightarrow> addr list \<Rightarrow> (html_gen, addr list) action" where
  "generate_program_toc_rows 0 = (\<lambda>pa finished g. (Out_of_fuel, g))"
| "generate_program_toc_rows (Suc n) = (\<lambda>pa finished.
     bindA (program_here pa) (\<lambda>tprog.
     bindA (getsO (\<lambda>g. same_path (gn_heap g) tprog finished)) (\<lambda>b.
       if b then returnA finished
       else
         bindA (returnA (finished @ [pa])) (\<lambda>finished.
         seqA (generate_program_toc_row pa)
           (fold_each (pr_includes tprog) (generate_program_toc_rows n) finished)))))"

section \<open>Style\<close>

definition generate_css_content :: "string \<Rightarrow> html_action" where
  "generate_css_content css =
     block
      [html_line css,
       html_line ''/* Auto-generated CSS for generated Thrift docs */'',
       html_line ''h3, h4 { margin-bottom: 6px; }'',
       html_line ''div.definition { border: 1px solid #CCC; margin-bottom: 10px; padding: 10px; }'',
       html_line ''div.extends { margin: -0.5em 0 1em 5em }'',
       html_line ''td { vertical-align: top; }'',
       html_line ''table { empty-cells: show; }'',
       html_line ''code { line-height: 20px; }'',
       html_line ''.table-bordered th, .table-bordered td { border-bottom: 1px solid #DDDDDD; }'']"

definition generate_style_tag :: "string \<Rightarrow> html_action" where
  "generate_style_tag css =
     bindA (gets ht_standalone) (\<lambda>standalone.
       if \<not> standalone
       then html_line (''<link href='' @ in_quotes ''style.css'' @ '' rel='' @ in_quotes ''stylesheet'' @ '' type='' @ in_quotes ''text/css'' @ ''/>'')
       else
         block
          [html_line (''<style type='' @ in_quotes ''text/css'' @ ''/><!--''),
           generate_css_content css,
           html_line ''--></style>''])"

definition generate_css :: "string \<Rightarrow> html_action" where
  "generate_css css =
     bindA (gets ht_standalone) (\<lambda>standalone.
       whenA (\<not> standalone)
         (block [html_open ''style.css'', generate_css_content css, html_close]))"

section \<open>Documentation, types and constants\<close>

definition print_doc :: "bool \<Rightarrow> string \<Rightarrow> html_action" where
  "print_doc documented comment =
     whenA documented
       (bindA (gets ht_unsafe) (\<lambda>unsafe.
          if unsafe then html_emit (comment @ ''<br/>'')
          else bindA (html_escaped comment) (\<lambda>s. html_emit (s @ ''<br/>''))))"

definition anchor_kind :: "t_type_obj \<Rightarrow> string" where
  "anchor_kind t =
     (case t of
        Typedef td \<Rightarrow> ''Typedef_''
      | Struct st \<Rightarrow> ''Struct_''
      | Enum e \<Rightarrow> ''Enum_''
      | Service sv \<Rightarrow> ''Svc_''
      | _ \<Rightarrow> '''')"

text \<open>A type with a name is a link; the result is the width of what was printed.\<close>

definition print_named_type :: "t_type_obj \<Rightarrow> (html_gen, int) action" where
  "print_named_type t =
     bindA (getsO (\<lambda>_. deref (get_program t))) (\<lambda>pa.
     bindA (program_here pa) (\<lambda>p.
     bindA (make_file_link (pr_name p @ ''.html'')) (\<lambda>link.
     bindA (gets gn_program) (\<lambda>program.
       (let type_name = get_name t;
            shown = (if pa \<noteq> program then pr_name p @ ''.'' @ type_name else type_name)
        in seqA (html_emit (html_link link (anchor_kind t @ type_name) shown))
             (returnA (int (length shown))))))))"

definition print_type_body :: "(addr \<Rightarrow> (html_gen, int) action) \<Rightarrow> t_type_obj \<Rightarrow> (html_gen, int) action" where
  "print_type_body elem t =
     (case t of
        List_type l \<Rightarrow>
          seqA (html_emit ''list&lt;'') (bindA (elem (li_elem_type l)) (\<lambda>len.
            seqA (html_emit ''&gt;'') (returnA (6 + len))))
      | Set_type l \<Rightarrow>
          seqA (html_emit ''set&lt;'') (bindA (elem (se_elem_type l)) (\<lambda>len.
            seqA (html_emit ''&gt;'') (returnA (5 + len))))
      | Map_type m \<Rightarrow>
          seqA (html_emit ''map&lt;'') (bindA (elem (ma_key_type m)) (\<lambda>len.
          seqA (html_emit '', '') (bindA (elem (ma_val_type m)) (\<lambda>len'.
            seqA (html_emit ''&gt;'') (returnA (5 + len + len'))))))
      | Base_type b \<Rightarrow>
          seqA (html_emit (if is_binary b then ''binary'' else get_name t)) (returnA (int (length (get_name t))))
      | _ \<Rightarrow> print_named_type t)"

primrec print_type :: "nat \<Rightarrow> addr \<Rightarrow> (html_gen, int) action" where
  "print_type 0 = (\<lambda>ty g. (Out_of_fuel, g))"
| "print_type (Suc n) = (\<lambda>ty.
     bindA (type_here ty) (\<lambda>t.
     seqA (html_emit ''<code>'')
     (bindA (print_type_body (print_type n) t) (\<lambda>len.
       seqA (html_emit ''</code>'') (returnA len)))))"

text \<open>The elements of a constant, separated by commas.\<close>

fun html_separated :: "bool \<Rightarrow> html_action list \<Rightarrow> html_action" where
  "html_separated first [] = returnA ()"
| "html_separated first (m # ms) =
     seqA (whenA (\<not> first) (html_emit '', '')) (seqA m (html_separated False ms))"

text \<open>The type of the last member of the given name.\<close>

fun field_type_named :: "heap \<Rightarrow> addr list \<Rightarrow> string \<Rightarrow> addr option \<Rightarrow> addr option outcome" where
  "field_type_named h [] name found = Ok found"
| "field_type_named h (fa # fas) name found =
     bind_outcome (deref (h_fields h fa)) (\<lambda>f.
       field_type_named h fas name (if fl_name f = name then Some (fl_type f) else found))"

definition html_integer :: "t_const_value \<Rightarrow> html_action" where
  "html_integer tvalue = bindA (getsO (\<lambda>g. get_integer (gn_heap g) tvalue)) (\<lambda>i. html_emit (show_int i))"

definition print_base_value :: "(double \<Rightarrow> string) \<Rightarrow> t_base \<Rightarrow> t_const_value_type \<Rightarrow> t_const_value \<Rightarrow> html_action" where
  "print_base_value pd tbase vt tvalue =
     (case tbase of
        TYPE_STRING \<Rightarrow>
          bindA (gets (\<lambda>g. get_escaped_string (gn_escape g) tvalue)) (\<lambda>s.
          bindA (html_escaped s) (\<lambda>s. html_emit (in_quotes s)))
      | TYPE_BOOL \<Rightarrow>
          bindA (getsO (\<lambda>g. get_integer (gn_heap g) tvalue)) (\<lambda>i. html_emit (if i \<noteq> 0 then ''true'' else ''false''))
      | TYPE_BYTE \<Rightarrow> html_integer tvalue
      | TYPE_I16 \<Rightarrow> html_integer tvalue
      | TYPE_I32 \<Rightarrow> html_integer tvalue
      | TYPE_I64 \<Rightarrow> html_integer tvalue
      | TYPE_DOUBLE \<Rightarrow>
          if vt = CV_INTEGER then html_integer tvalue
          else bindA (getsO (\<lambda>_. deref (cv_doubleVal tvalue))) (\<lambda>d. html_emit (pd d))
      | TYPE_VOID \<Rightarrow> html_emit ''UNKNOWN BASE TYPE'')"

definition print_identifier_value :: "t_const_value \<Rightarrow> html_action" where
  "print_identifier_value tvalue =
     bindA this_program (\<lambda>p.
     bindA (html_escaped (cv_identifierVal tvalue)) (\<lambda>name.
     bindA (make_file_link (pr_name p @ ''.html'')) (\<lambda>link.
       html_emit (''<code>'' @ html_link link (''Const_'' @ name) name @ ''</code>''))))"

function print_const_value :: "(double \<Rightarrow> string) \<Rightarrow> nat \<Rightarrow> addr \<Rightarrow> t_const_value \<Rightarrow> html_action" where
  "print_const_value pd n ty tvalue =
     bindA (getsO (\<lambda>_. deref (cv_valType tvalue))) (\<lambda>vt.
       if vt = CV_IDENTIFIER then print_identifier_value tvalue
       else
         bindA (getsO (\<lambda>g. get_true_type n (gn_heap g) ty)) (\<lambda>tt.
         bindA (type_here tt) (\<lambda>t.
           (case t of
              Base_type b \<Rightarrow> print_base_value pd (bt_base b) vt tvalue
            | Enum e \<Rightarrow>
                bindA (html_escaped (ty_name e)) (\<lambda>tn.
                bindA (getsO (\<lambda>_. get_identifier_name tvalue)) (\<lambda>name.
                bindA (html_escaped name) (\<lambda>name. html_emit (tn @ ''.'' @ name))))
            | Struct st \<Rightarrow>
                block
                 [html_emit ''{ '',
                  html_separated True (map (\<lambda>(k, v).
                    bindA (getsO (\<lambda>g. field_type_named (gn_heap g) (st_members st) (cv_stringVal k) None)) (\<lambda>field_type.
                      (case field_type of
                         None \<Rightarrow> throwA (''type error: '' @ get_name t @ '' has no field '' @ cv_stringVal k)
                       | Some ft \<Rightarrow>
                           bindA (html_escaped (cv_stringVal k)) (\<lambda>s.
                             seqA (html_emit (s @ '' = '')) (print_const_value pd n ft v))))) (cv_mapVal tvalue)),
                  html_emit '' }'']
            | Map_type m \<Rightarrow>
                block
                 [html_emit ''{ '',
                  html_separated True (map (\<lambda>(k, v).
                    block [print_const_value pd n (ma_key_type m) k, html_emit '' = '',
                           print_const_value pd n (ma_val_type m) v]) (cv_mapVal tvalue)),
                  html_emit '' }'']
            | List_type l \<Rightarrow>
                block
                 [html_emit ''{ '',
                  html_separated True (map (print_const_value pd n (li_elem_type l)) (cv_listVal tvalue)),
                  html_emit '' }'']
            | Set_type l \<Rightarrow>
                block
                 [html_emit ''{ '',
                  html_separated True (map (print_const_value pd n (se_elem_type l)) (cv_listVal tvalue)),
                  html_emit '' }'']
            | _ \<Rightarrow> html_emit ''UNKNOWN TYPE''))))"
  by pat_completeness auto
termination
  by (relation "measure (\<lambda>(pd, n, ty, tvalue). size tvalue)") (auto dest: cv_children_smaller)

declare print_const_value.simps [simp del]

section \<open>Definitions\<close>

definition html_members :: "addr \<Rightarrow> (html_gen, addr list) action" where
  "html_members ty =
     bindA (type_here ty) (\<lambda>t. getsO (\<lambda>_. case t of Struct st \<Rightarrow> Ok (st_members st) | _ \<Rightarrow> Undefined))"

definition has_docs :: "heap \<Rightarrow> addr list \<Rightarrow> bool outcome" where
  "has_docs h fas = bind_outcome (read_fields h fas) (\<lambda>fs. Ok (\<exists>f \<in> set fs. has_doc f \<and> doc f \<noteq> []))"

text \<open>The table of one kind of arguments of a function, if any of them is documented.\<close>

definition args_doc :: "string \<Rightarrow> string \<Rightarrow> string \<Rightarrow> string \<Rightarrow> (t_field \<Rightarrow> (html_gen, string) action) \<Rightarrow> addr list \<Rightarrow> html_action" where
  "args_doc title anchor column function_name cell fas =
     bindA (getsO (\<lambda>g. has_docs (gn_heap g) fas)) (\<lambda>docs.
       whenA docs
         (bindA (gets gn_service_name) (\<lambda>service_name.
           block
            [html_line (''<br/><h4 id='' @ in_quotes (anchor @ ''_'' @ service_name @ ''_'' @ function_name) @ ''>'' @ title @ ''</h4>''),
             html_emit table_class,
             html_emit (''<thead><th>'' @ column @ ''</th><th>Description</th></thead>''),
             for_each fas (\<lambda>fa.
               bindA (field_here fa) (\<lambda>f.
               bindA (cell f) (\<lambda>c.
               seqA (html_emit (''<tr><td>'' @ c))
                (seqA (html_emit ''</td><td>'')
                  (bindA (html_escaped (doc f)) (\<lambda>s.
                   seqA (html_emit s) (html_line ''</td></tr>'')))))))
             , html_emit ''</table>''])))"

definition print_fn_args_doc :: "t_function \<Rightarrow> html_action" where
  "print_fn_args_doc fn =
     block
      [bindA (html_members (fn_arglist fn))
         (args_doc ''Parameters'' ''Parameters'' ''Name'' (fn_name fn) (\<lambda>f. returnA (fl_name f))),
       bindA (html_members (fn_xceptions fn))
         (args_doc ''Exceptions'' ''Exceptions'' ''Type'' (fn_name fn) (\<lambda>f. bindA (type_here (fl_type f)) (\<lambda>t. returnA (get_name t))))]"

definition definition_head :: "string \<Rightarrow> string \<Rightarrow> string \<Rightarrow> html_action" where
  "definition_head anchor title name =
     seqA (html_emit (''<div class='' @ in_quotes ''definition'' @ ''>''))
       (html_line (''<h3 id='' @ in_quotes (anchor @ name) @ ''>'' @ title @ '': '' @ name @ ''</h3>''))"

definition html_generate_typedef :: "nat \<Rightarrow> addr \<Rightarrow> html_action" where
  "html_generate_typedef n ta =
     bindA (type_here ta) (\<lambda>t.
       (case t of
          Typedef td \<Rightarrow>
            block
             [definition_head ''Typedef_'' ''Typedef'' (ty_name td),
              html_emit ''<p><strong>Base type:</strong>&nbsp;'',
              bindA (getsO (\<lambda>g. typedef_get_type (gn_heap g) td)) (\<lambda>ty. bindA (print_type n ty) (\<lambda>_. returnA ())),
              html_line ''</p>'',
              print_doc (has_doc td) (doc td),
              html_line ''</div>'']
        | _ \<Rightarrow> getsO (\<lambda>_. Undefined)))"

definition html_enum_value :: "t_enum_value \<Rightarrow> html_action" where
  "html_enum_value v =
     block
      [html_emit (''<tr><td><code>'' @ ev_name v @ ''</code></td><td><code>'' @ show_int (ev_value v)),
       html_line ''</code></td><td>'',
       print_doc (has_doc v) (doc v),
       html_line ''</td></tr>'']"

definition html_generate_enum :: "addr \<Rightarrow> html_action" where
  "html_generate_enum ea =
     bindA (type_here ea) (\<lambda>t.
       (case t of
          Enum e \<Rightarrow>
            block
             [definition_head ''Enum_'' ''Enumeration'' (ty_name e),
              print_doc (has_doc e) (doc e),
              html_line (''<br/>'' @ table_class),
              for_each (en_constants e) html_enum_value,
              html_line ''</table></div>'']
        | _ \<Rightarrow> getsO (\<lambda>_. Undefined)))"

definition html_generate_const :: "(double \<Rightarrow> string) \<Rightarrow> nat \<Rightarrow> t_const \<Rightarrow> html_action" where
  "html_generate_const pd n c =
     block
      [html_emit (''<tr id='' @ in_quotes (''Const_'' @ co_name c) @ ''><td><code>'' @ co_name c @ ''</code></td><td>''),
       bindA (print_type n (co_type c)) (\<lambda>_. returnA ()),
       html_emit ''</td><td><code>'',
       print_const_value pd n (co_type c) (co_value c),
       html_emit ''</code></td></tr>'',
       whenA (has_doc c)
         (block
           [html_emit (''<tr><td colspan='' @ in_quotes ''3'' @ ''><blockquote>''),
            print_doc (has_doc c) (doc c),
            html_emit ''</blockquote></td></tr>''])]"

definition requiredness :: "t_field \<Rightarrow> string outcome" where
  "requiredness f =
     bind_outcome (deref (fl_req f)) (\<lambda>r.
       Ok (if r = T_OPTIONAL then ''optional'' else if r = T_REQUIRED then ''required'' else ''default''))"

definition html_struct_member :: "(double \<Rightarrow> string) \<Rightarrow> nat \<Rightarrow> addr \<Rightarrow> html_action" where
  "html_struct_member pd n fa =
     bindA (field_here fa) (\<lambda>f.
       block
        [html_emit (''<tr><td>'' @ show_int (fl_key f) @ ''</td><td>'' @ fl_name f @ ''</td><td>''),
         bindA (print_type n (fl_type f)) (\<lambda>_. returnA ()),
         html_emit ''</td><td>'',
         bindA (html_escaped (doc f)) html_emit,
         html_emit ''</td><td>'',
         bindA (getsO (\<lambda>_. requiredness f)) html_emit,
         html_emit ''</td><td>'',
         (case fl_value f of
            None \<Rightarrow> returnA ()
          | Some v \<Rightarrow> block [html_emit ''<code>'', print_const_value pd n (fl_type f) v, html_emit ''</code>'']),
         html_line ''</td></tr>''])"

definition html_generate_struct :: "(double \<Rightarrow> string) \<Rightarrow> nat \<Rightarrow> addr \<Rightarrow> html_action" where
  "html_generate_struct pd n oa =
     bindA (type_here oa) (\<lambda>t.
       (case t of
          Struct st \<Rightarrow>
            block
             [definition_head ''Struct_'' (if st_is_xception st then ''Exception'' else if st_is_union st then ''Union'' else ''Struct'') (ty_name st),
              html_emit table_class,
              html_line ''<thead><th>Key</th><th>Field</th><th>Type</th><th>Description</th><th>Requiredness</th><th>Default value</th></thead>'',
              for_each (st_members st) (html_struct_member pd n),
              html_emit ''</table><br/>'',
              print_doc (has_doc st) (doc st),
              html_emit ''</div>'']
        | _ \<Rightarrow> getsO (\<lambda>_. Undefined)))"

definition html_generate_xception :: "(double \<Rightarrow> string) \<Rightarrow> nat \<Rightarrow> addr \<Rightarrow> html_action" where
  "html_generate_xception = html_generate_struct"

text \<open>An argument in the signature of a function, on a line of its own but for the first.\<close>

definition html_argument :: "(double \<Rightarrow> string) \<Rightarrow> nat \<Rightarrow> int \<Rightarrow> addr \<Rightarrow> bool \<Rightarrow> (html_gen, bool) action" where
  "html_argument pd n offset fa first =
     seqA (whenA (\<not> first) (seqA (html_line '','') (html_emit (replicate (nat offset) (CHR '' '')))))
       (bindA (field_here fa) (\<lambda>f.
        bindA (print_type n (fl_type f)) (\<lambda>_.
        seqA (html_emit ('' '' @ fl_name f))
         (seqA
           (case fl_value f of
              None \<Rightarrow> returnA ()
            | Some v \<Rightarrow> seqA (html_emit '' = '') (print_const_value pd n (fl_type f) v))
           (returnA False)))))"

definition html_thrown :: "nat \<Rightarrow> addr \<Rightarrow> bool \<Rightarrow> (html_gen, bool) action" where
  "html_thrown n fa first =
     seqA (whenA (\<not> first) (html_emit '', ''))
       (bindA (field_here fa) (\<lambda>f. bindA (print_type n (fl_type f)) (\<lambda>_. returnA False)))"

definition html_function :: "(double \<Rightarrow> string) \<Rightarrow> nat \<Rightarrow> t_function \<Rightarrow> html_action" where
  "html_function pd n fn =
     bindA (gets gn_service_name) (\<lambda>service_name.
       block
        [html_emit (''<div class='' @ in_quotes ''definition'' @ ''>''),
         html_line (''<h4 id='' @ in_quotes (''Fn_'' @ service_name @ ''_'' @ fn_name fn) @ ''>Function: '' @
           service_name @ ''.'' @ fn_name fn @ ''</h4>''),
         html_emit ''<pre>'',
         bindA (print_type n (fn_returntype fn)) (\<lambda>len.
           seqA (html_emit ('' '' @ fn_name fn @ ''(''))
             (bindA (html_members (fn_arglist fn)) (\<lambda>args.
               bindA (fold_each args (html_argument pd n (len + int (length (fn_name fn)) + 2)) True) (\<lambda>_. html_line '')'')))),
         bindA (html_members (fn_xceptions fn)) (\<lambda>excepts.
           whenA (excepts \<noteq> [])
             (seqA (html_emit ''    throws '')
               (bindA (fold_each excepts (html_thrown n) True) (\<lambda>_. html_line '''')))),
         html_emit ''</pre>'',
         print_doc (has_doc fn) (doc fn),
         print_fn_args_doc fn,
         html_emit ''</div>''])"

definition html_generate_service :: "(double \<Rightarrow> string) \<Rightarrow> nat \<Rightarrow> addr \<Rightarrow> html_action" where
  "html_generate_service pd n sa =
     bindA (type_here sa) (\<lambda>t.
       (case t of
          Service sv \<Rightarrow>
            block
             [bindA (gets gn_service_name) (\<lambda>service_name.
                html_line (''<h3 id='' @ in_quotes (''Svc_'' @ service_name) @ ''>Service: '' @ service_name @ ''</h3>'')),
              (case sv_extends sv of
                 None \<Rightarrow> returnA ()
               | Some ea \<Rightarrow>
                   block
                    [html_emit (''<div class='' @ in_quotes ''extends'' @ ''><em>extends</em> ''),
                     bindA (print_type n ea) (\<lambda>_. returnA ()),
                     html_line ''</div>'']),
              print_doc (has_doc sv) (doc sv),
              for_each (sv_functions sv) (html_function pd n)]
        | _ \<Rightarrow> getsO (\<lambda>_. Undefined)))"

section \<open>Pages\<close>

definition html_section :: "string \<Rightarrow> string \<Rightarrow> string" where
  "html_section anchor title = ''<hr/><h2 id='' @ in_quotes anchor @ ''>'' @ title @ ''</h2>''"

definition html_object :: "(double \<Rightarrow> string) \<Rightarrow> nat \<Rightarrow> addr \<Rightarrow> html_action" where
  "html_object pd n oa =
     bindA (type_here oa) (\<lambda>t. if is_xception t then html_generate_xception pd n oa else html_generate_struct pd n oa)"

definition html_service :: "(double \<Rightarrow> string) \<Rightarrow> nat \<Rightarrow> addr \<Rightarrow> html_action" where
  "html_service pd n sa =
     bindA (type_here sa) (\<lambda>t.
       seqA (modify (\<lambda>g. g\<lparr>gn_service_name := get_name t\<rparr>)) (html_generate_service pd n sa))"

definition html_page_head :: "string \<Rightarrow> t_program \<Rightarrow> html_action" where
  "html_page_head css p =
     block
      [html_line (''<!DOCTYPE html PUBLIC '' @ in_quotes ''-//W3C//DTD XHTML 1.0 Strict//EN''),
       html_line (''    '' @ in_quotes ''http://www.w3.org/TR/xhtml1/DTD/xhtml1-strict.dtd'' @ ''>''),
       html_line (''<html xmlns='' @ in_quotes ''http://www.w3.org/1999/xhtml'' @ ''>''),
       html_line ''<head>'',
       html_line (''<meta http-equiv='' @ in_quotes ''Content-Type'' @ '' content='' @ in_quotes ''text/html;charset=utf-8'' @ '' />''),
       generate_style_tag css,
       html_line (''<title>Thrift module: '' @ pr_name p @ ''</title></head><body>''),
       html_line (''<div class='' @ in_quotes ''container-fluid'' @ ''>''),
       html_line (''<h1>Thrift module: '' @ pr_name p @ ''</h1>'')]"

definition html_definitions :: "(double \<Rightarrow> string) \<Rightarrow> nat \<Rightarrow> t_program \<Rightarrow> html_action" where
  "html_definitions pd n p =
     block
      [whenA (pr_consts p \<noteq> [])
         (block
           [html_line (html_section ''Constants'' ''Constants''),
            html_emit table_class,
            html_line ''<thead><th>Constant</th><th>Type</th><th>Value</th></thead>'',
            generate_consts (html_generate_const pd n) (pr_consts p),
            html_emit ''</table>'']),
       whenA (pr_enums p \<noteq> [])
         (seqA (html_line (html_section ''Enumerations'' ''Enumerations'')) (for_each (pr_enums p) html_generate_enum)),
       whenA (pr_typedefs p \<noteq> [])
         (seqA (html_line (html_section ''Typedefs'' ''Type declarations'')) (for_each (pr_typedefs p) (html_generate_typedef n))),
       whenA (pr_objects p \<noteq> [])
         (seqA (html_line (html_section ''Structs'' ''Data structures'')) (for_each (pr_objects p) (html_object pd n))),
       whenA (pr_services p \<noteq> [])
         (seqA (html_line (html_section ''Services'' ''Services'')) (for_each (pr_services p) (html_service pd n)))]"

definition generate_index :: "string \<Rightarrow> nat \<Rightarrow> html_action" where
  "generate_index css n =
     block
      [html_open ''index.html'',
       html_line ''<html><head>'',
       generate_style_tag css,
       html_line ''<title>All Thrift declarations</title></head><body>'',
       html_line (''<div class='' @ in_quotes ''container-fluid'' @ ''>''),
       html_line ''<h1>All Thrift declarations</h1>'',
       html_line toc_head,
       bindA (gets gn_program) (\<lambda>pa. bindA (generate_program_toc_rows n pa []) (\<lambda>_. returnA ())),
       html_line ''</table>'',
       html_line ''</div></body></html>'',
       html_close]"

definition html_page :: "(double \<Rightarrow> string) \<Rightarrow> string \<Rightarrow> nat \<Rightarrow> html_action" where
  "html_page pd css n =
     bindA this_program (\<lambda>p.
       block
        [html_open (pr_name p @ ''.html''),
         html_page_head css p,
         print_doc (has_doc p) (doc p),
         generate_program_toc,
         html_definitions pd n p,
         html_line ''</div></body></html>'',
         html_close])"

definition html_generate_program :: "(double \<Rightarrow> string) \<Rightarrow> string \<Rightarrow> nat \<Rightarrow> html_action" where
  "html_generate_program pd css n =
     block [html_page pd css n, generate_index css n, generate_css css]"

end
