(* ===== verification/Html_Nesting.thy ===== *)
theory Html_Nesting
  imports Html
begin

text \<open>
  Tags of the generated pages: a reader of markup that keeps the stack of open elements, and the proof that every
  definition the HTML generator writes closes what it opens, and that its table of contents does not.
\<close>

section \<open>Reading markup\<close>

text \<open>The open elements, and the tag that is being read.\<close>

type_synonym html_state = "string list \<times> string option"

definition end_of_tag :: "string \<Rightarrow> string list \<Rightarrow> string list option" where
  "end_of_tag tag stk =
     (case tag of
        [] \<Rightarrow> None
      | c # cs \<Rightarrow>
          if c = CHR ''!'' then Some stk
          else if c = CHR ''/'' then (case stk of t # ts \<Rightarrow> if t = cs then Some ts else None | [] \<Rightarrow> None)
          else if last tag = CHR ''/'' then Some stk
          else Some (takeWhile (\<lambda>c. c \<noteq> CHR '' '') tag # stk))"

fun html_char :: "char \<Rightarrow> html_state \<Rightarrow> html_state option" where
  "html_char c (stk, None) = Some (stk, if c = CHR ''<'' then Some [] else None)"
| "html_char c (stk, Some tag) =
     (if c = CHR ''>'' then map_option (\<lambda>stk. (stk, None)) (end_of_tag tag stk)
      else if c = CHR ''<'' then None
      else Some (stk, Some (tag @ [c])))"

fun html_run :: "string \<Rightarrow> html_state \<Rightarrow> html_state option" where
  "html_run [] st = Some st"
| "html_run (c # cs) st = (case html_char c st of None \<Rightarrow> None | Some st \<Rightarrow> html_run cs st)"

lemma html_run_append [simp]:
  "html_run (a @ b) st = (case html_run a st of None \<Rightarrow> None | Some st \<Rightarrow> html_run b st)"
  by (induction a arbitrary: st) (auto split: option.splits)

abbreviation reads :: "string list \<Rightarrow> string \<Rightarrow> string list \<Rightarrow> bool" where
  "reads stk s stk' \<equiv> html_run s (stk, None) = Some (stk', None)"

text \<open>Text that leaves the open elements as they are, whatever they are.\<close>

definition balanced :: "string \<Rightarrow> bool" where
  "balanced s \<longleftrightarrow> (\<forall>stk. reads stk s stk)"

lemma balancedD: "balanced s \<Longrightarrow> reads stk s stk"
  by (simp add: balanced_def)

lemma balanced_append: "balanced a \<Longrightarrow> balanced b \<Longrightarrow> balanced (a @ b)"
  by (simp add: balanced_def)

lemma plain_reads [simp]: "plain s \<Longrightarrow> html_run s (stk, None) = Some (stk, None)"
  by (induction s) auto

lemma plain_in_tag [simp]: "plain s \<Longrightarrow> html_run s (stk, Some tag) = Some (stk, Some (tag @ s))"
  by (induction s arbitrary: tag) auto

lemma balanced_plain: "plain s \<Longrightarrow> balanced s"
  by (simp add: balanced_def)

lemma digits_plain: "(\<And>c. c \<in> set s \<Longrightarrow> is_digit c \<or> c = CHR ''-'') \<Longrightarrow> plain s"
proof -
  assume digits: "\<And>c. c \<in> set s \<Longrightarrow> is_digit c \<or> c = CHR ''-''"
  have "\<not> angle c" if "is_digit c \<or> c = CHR ''-''" for c using that by (auto simp: is_digit_def angle_def)
  with digits show "plain s" unfolding plain_def by blast
qed

lemma numbers_plain [simp]: "plain (show_nat k)" "plain (show_int i)"
  by (rule digits_plain, drule show_nat_digits, blast) (rule digits_plain, erule show_int_chars)

lemma takeWhile_tag [simp]:
  "takeWhile (\<lambda>c. c \<noteq> CHR '' '') (a @ CHR '' '' # b) = takeWhile (\<lambda>c. c \<noteq> CHR '' '') a"
  by (induction a) auto

section \<open>Escaped text\<close>

lemma escape_chars_plain: "plain str \<Longrightarrow> escape_chars ity str = Ok (s, t) \<Longrightarrow> plain s"
proof (induction ity str arbitrary: s t rule: escape_chars.induct)
  case (1 ity str)
  let ?plain = "takeWhile plain_char str"
  have str: "plain ?plain" using "1.prems"(1) by (rule plain_takeWhile)
  show ?case
  proof (cases "dropWhile plain_char str")
    case Nil
    with "1.prems" have "s = str" by (subst (asm) escape_chars.simps) simp
    with "1.prems" show ?thesis by simp
  next
    case (Cons c cs)
    have cs: "plain (c # cs)" using "1.prems"(1) takeWhile_dropWhile_id [of plain_char str] unfolding Cons by (metis plain_simps(3))
    show ?thesis
    proof (cases "(of_char c :: nat) \<le> 31")
      case True
      with "1.prems"(2) Cons obtain s' where s': "escape_chars ity cs = Ok (s', t)"
          "s = ?plain @ (if c \<in> {CHR 0x0D, CHR 0x0A, CHR 0x09} then [c] else []) @ s'"
        by (subst (asm) escape_chars.simps) auto
      with "1.IH"(1) [OF Cons True _ s'(1)] cs str show ?thesis by auto
    next
      case False
      from "1.prems"(2) Cons False obtain u where u: "(if ity = INPUT_UNKNOWN then detect_input_encoding (c # cs) else Ok ity) = Ok u"
          "(if ity = INPUT_UNKNOWN \<and> u = INPUT_UTF8 then Ok (?plain @ c # cs, u)
            else if u = INPUT_PLAIN
            then bind_outcome (escape_chars u cs) (\<lambda>(s, t). Ok (?plain @ ''&#'' @ show_nat (of_char c) @ '';'' @ s, t))
            else Throw ''Unexpected or unrecognized input encoding'') = Ok (s, t)"
        by (subst (asm) escape_chars.simps) (auto simp del: append_Cons)
      show ?thesis
      proof (cases "ity = INPUT_UNKNOWN \<and> u = INPUT_UTF8")
        case True
        with u(2) str cs show ?thesis by auto
      next
        case other: False
        with u(2) obtain s' where s': "u = INPUT_PLAIN" "escape_chars u cs = Ok (s', t)"
            "s = ?plain @ ''&#'' @ show_nat (of_char c) @ '';'' @ s'"
          by (auto simp del: append_Cons split: if_splits)
        with "1.IH"(2) [OF Cons False u(1) other s'(1) _ s'(2)] cs str show ?thesis by simp
      qed
    qed
  qed
qed

lemma escape_html_plain:
  assumes "plain str"
  shows "\<exists>s t. escape_html ity str = Ok (s, t) \<and> plain s"
proof -
  from escape_html_result [of ity str] obtain out t where out: "escape_html ity str = Ok (out, t)" by blast
  have fixed: "escape_html_tags s = s" if "plain s" for s using that by (simp add: escape_html_tags_fixed doc_markup_plain)
  have "plain out"
  proof (cases "ity = INPUT_UTF8")
    case True
    with out assms fixed show ?thesis by (auto simp: escape_html_def)
  next
    case False
    with out obtain s where "escape_chars ity str = Ok (s, t)" "out = escape_html_tags s" by (auto simp: escape_html_def)
    with escape_chars_plain [OF assms] fixed show ?thesis by auto
  qed
  with out show ?thesis by blast
qed

text \<open>The escapes of string constants leave no angle bracket.\<close>

lemma html_escapes_plain: "plain (escape_string html_escapes s)"
proof -
  have "plain (case smap_find html_escapes c of Some r \<Rightarrow> r | None \<Rightarrow> [c])" for c
    by (auto simp: html_escapes_def smap_find_def)
  then show ?thesis by (induction s) (simp_all add: escape_string_def)
qed

section \<open>What an action writes\<close>

text \<open>What the routines of the generator rely on and keep.\<close>

definition html_ok :: "bool \<Rightarrow> heap \<Rightarrow> addr \<Rightarrow> html_gen \<Rightarrow> bool" where
  "html_ok u h pa g \<longleftrightarrow> at_program h pa g \<and> gn_escape g = html_escapes \<and> plain (gn_service_name g) \<and> ht_unsafe g = u"

definition same_file :: "html_gen \<Rightarrow> html_gen \<Rightarrow> bool" where
  "same_file g g' \<longleftrightarrow> ht_current_file g' = ht_current_file g \<and> gn_files g' = gn_files g \<and> gn_out_dir_base g' = gn_out_dir_base g \<and>
     ht_standalone g' = ht_standalone g"

text \<open>
  The action returns, with a value of the given kind, keeps the file, and appends to it a text that leads the reader
  from one stack of open elements to another.
\<close>

definition goes :: "bool \<Rightarrow> heap \<Rightarrow> addr \<Rightarrow> ('a \<Rightarrow> bool) \<Rightarrow> string list \<Rightarrow> (html_gen, 'a) action \<Rightarrow> string list \<Rightarrow> bool" where
  "goes u h pa Q stk m stk' \<longleftrightarrow> (\<forall>g. html_ok u h pa g \<longrightarrow>
     (\<exists>v c g'. m g = (Ok v, g') \<and> Q v \<and> html_ok u h pa g' \<and> same_file g g' \<and> ht_out g' = ht_out g @ c \<and> reads stk c stk'))"

abbreviation anything :: "'a \<Rightarrow> bool" where
  "anything \<equiv> \<lambda>_. True"

lemma goesI:
  assumes "\<And>g. html_ok u h pa g \<Longrightarrow> \<exists>v c g'. m g = (Ok v, g') \<and> Q v \<and> html_ok u h pa g' \<and> same_file g g' \<and>
     ht_out g' = ht_out g @ c \<and> reads stk c stk'"
  shows "goes u h pa Q stk m stk'"
  using assms by (simp add: goes_def)

lemma goesE:
  assumes "goes u h pa Q stk m stk'" "html_ok u h pa g"
  obtains v c g' where "m g = (Ok v, g')" "Q v" "html_ok u h pa g'" "same_file g g'" "ht_out g' = ht_out g @ c" "reads stk c stk'"
  using assms unfolding goes_def by blast

lemma goes_bind:
  assumes m: "goes u h pa P stk m stk1" and f: "\<And>v. P v \<Longrightarrow> goes u h pa Q stk1 (f v) stk'"
  shows "goes u h pa Q stk (bindA m f) stk'"
proof (rule goesI)
  fix g assume "html_ok u h pa g"
  with m obtain v c g1 where 1: "m g = (Ok v, g1)" "P v" "html_ok u h pa g1" "same_file g g1" "ht_out g1 = ht_out g @ c"
    "reads stk c stk1" by (rule goesE)
  from f [OF 1(2)] 1(3) obtain w d g2 where 2: "f v g1 = (Ok w, g2)" "Q w" "html_ok u h pa g2" "same_file g1 g2"
    "ht_out g2 = ht_out g1 @ d" "reads stk1 d stk'" by (rule goesE)
  from 1 2 show "\<exists>v c g'. bindA m f g = (Ok v, g') \<and> Q v \<and> html_ok u h pa g' \<and> same_file g g' \<and>
     ht_out g' = ht_out g @ c \<and> reads stk c stk'"
    by (intro exI [of _ w] exI [of _ "c @ d"] exI [of _ g2]) (simp add: same_file_def)
qed

lemma goes_seq: "goes u h pa anything stk m stk1 \<Longrightarrow> goes u h pa Q stk1 n stk' \<Longrightarrow> goes u h pa Q stk (seqA m n) stk'"
  unfolding seqA_def by (rule goes_bind)

lemma goes_return: "Q v \<Longrightarrow> goes u h pa Q stk (returnA v) stk"
  by (auto simp: goes_def returnA_def same_file_def)

lemma goes_emit: "reads stk s stk' \<Longrightarrow> goes u h pa anything stk (html_emit s) stk'"
  by (auto simp: goes_def html_emit_def modify_def same_file_def html_ok_def at_program_def)

lemma goes_text: "plain s \<Longrightarrow> goes u h pa anything stk (html_emit s) stk" "plain s \<Longrightarrow> goes u h pa anything stk (html_line s) stk"
  by (auto simp: html_line_def intro!: goes_emit)

lemma goes_line: "reads stk s stk' \<Longrightarrow> goes u h pa anything stk (html_line s) stk'"
  unfolding html_line_def by (rule goes_emit) simp

lemma goes_weaken: "goes u h pa P stk m stk' \<Longrightarrow> (\<And>v. P v \<Longrightarrow> Q v) \<Longrightarrow> goes u h pa Q stk m stk'"
  unfolding goes_def by meson

lemma goes_getsO: "(\<And>g. html_ok u h pa g \<Longrightarrow> \<exists>v. f g = Ok v \<and> Q v) \<Longrightarrow> goes u h pa Q stk (getsO f) stk"
  unfolding goes_def getsO_def same_file_def by (metis append_Nil2 html_run.simps(1))

lemma goes_gets: "(\<And>g. html_ok u h pa g \<Longrightarrow> Q (f g)) \<Longrightarrow> goes u h pa Q stk (gets f) stk"
  unfolding goes_def gets_def same_file_def by (metis append_Nil2 html_run.simps(1))

lemma goes_for_each: "(\<And>x. x \<in> set xs \<Longrightarrow> goes u h pa anything stk (f x) stk) \<Longrightarrow> goes u h pa anything stk (for_each xs f) stk"
  by (induction xs) (auto intro: goes_return goes_seq)

lemma goes_fold_each: "(\<And>x a. x \<in> set xs \<Longrightarrow> goes u h pa anything stk (f x a) stk) \<Longrightarrow> goes u h pa anything stk (fold_each xs f a) stk"
  by (induction xs arbitrary: a) (auto intro!: goes_return goes_bind [where P = anything])

lemma goes_separated: "(\<And>m. m \<in> set ms \<Longrightarrow> goes u h pa anything stk m stk) \<Longrightarrow> goes u h pa anything stk (html_separated first ms) stk"
proof (induction ms arbitrary: first)
  case (Cons m ms)
  have "goes u h pa anything stk (whenA (\<not> first) (html_emit '', '')) stk"
    by (cases first) (auto simp: whenA_def intro!: goes_emit goes_return)
  with Cons show ?case by (auto intro!: goes_seq)
qed (simp add: goes_return)

lemma goes_when: "(b \<Longrightarrow> goes u h pa anything stk m stk) \<Longrightarrow> goes u h pa anything stk (whenA b m) stk"
  by (simp add: whenA_def goes_return)

lemma goes_read:
  "(\<And>g. html_ok u h pa g \<Longrightarrow> f g = Ok v) \<Longrightarrow> goes u h pa Q stk (k v) stk' \<Longrightarrow> goes u h pa Q stk (bindA (getsO f) k) stk'"
  by (rule goes_bind [where P = "\<lambda>y. y = v"]) (auto intro!: goes_getsO)

lemma html_heap [simp]: "html_ok u h pa g \<Longrightarrow> gn_heap g = h" "html_ok u h pa g \<Longrightarrow> gn_program g = pa"
  by (simp_all add: html_ok_def at_program_def)

lemma goes_type: "h_types h ty = Some t \<Longrightarrow> goes u h pa Q stk (f t) stk' \<Longrightarrow> goes u h pa Q stk (bindA (type_here ty) f) stk'"
  unfolding type_here_def type_at_def by (rule goes_read) simp_all

lemma goes_field: "h_fields h fa = Some x \<Longrightarrow> goes u h pa Q stk (f x) stk' \<Longrightarrow> goes u h pa Q stk (bindA (field_here fa) f) stk'"
  unfolding field_here_def by (rule goes_read) simp_all

lemma goes_program: "h_programs h qa = Some p \<Longrightarrow> goes u h pa Q stk (f p) stk' \<Longrightarrow> goes u h pa Q stk (bindA (program_here qa) f) stk'"
  unfolding program_here_def by (rule goes_read) simp_all

lemma goes_this_program: "h_programs h pa = Some p \<Longrightarrow> goes u h pa Q stk (f p) stk' \<Longrightarrow> goes u h pa Q stk (bindA this_program f) stk'"
  unfolding this_program_def by (rule goes_read) simp_all

lemma goes_link: "plain name \<Longrightarrow> goes u h pa plain stk (make_file_link name) stk"
  unfolding make_file_link_def by (rule goes_gets) simp

lemma goes_escape_result:
  assumes "\<And>ity. \<exists>out t. escape_html ity s = Ok (out, t) \<and> Q out"
  shows "goes u h pa Q stk (html_escaped s) stk"
proof (rule goesI)
  fix g assume g: "html_ok u h pa g"
  from assms [of "ht_input_type g"] obtain out t where "escape_html (ht_input_type g) s = Ok (out, t)" "Q out" by blast
  moreover define g' where "g' = g\<lparr>ht_input_type := t\<rparr>"
  ultimately have "html_escaped s g = (Ok out, g')" "Q out" by (simp_all add: html_escaped_def run_simps)
  moreover have "html_ok u h pa g'" "same_file g g'" "ht_out g' = ht_out g @ []"
    using g by (simp_all add: g'_def html_ok_def at_program_def same_file_def del: html_heap)
  ultimately show "\<exists>v c g'. html_escaped s g = (Ok v, g') \<and> Q v \<and> html_ok u h pa g' \<and> same_file g g' \<and> ht_out g' = ht_out g @ c \<and> reads stk c stk"
    by (intro exI [of _ out] exI [of _ "[]"] exI [of _ g']) simp
qed

lemma goes_escaped: "plain s \<Longrightarrow> goes u h pa plain stk (html_escaped s) stk"
  by (rule goes_escape_result) (rule escape_html_plain)

section \<open>Well-formed input\<close>

text \<open>
  Documentation that nests, as it is written to the page; types whose containers nest at most as deep as
  the fuel; values that have the kind their type asks for; and names without angle brackets, which identifiers never have.
\<close>

definition escaped_nested :: "string \<Rightarrow> bool" where
  "escaped_nested s \<longleftrightarrow> (\<forall>ity. \<exists>out t. escape_html ity s = Ok (out, t) \<and> balanced out)"

definition doc_nested :: "bool \<Rightarrow> 'a t_doc_scheme \<Rightarrow> bool" where
  "doc_nested u d \<longleftrightarrow> (has_doc d \<longrightarrow> (if u then balanced (doc d) else escaped_nested (doc d)))"

definition linkable :: "heap \<Rightarrow> t_type_obj \<Rightarrow> bool" where
  "linkable h t \<longleftrightarrow> (case get_program t of None \<Rightarrow> False
     | Some pa \<Rightarrow> (case h_programs h pa of None \<Rightarrow> False | Some p \<Rightarrow> plain (pr_name p)))"

primrec html_type_ok :: "nat \<Rightarrow> heap \<Rightarrow> addr \<Rightarrow> bool" where
  "html_type_ok 0 h ty = False"
| "html_type_ok (Suc n) h ty =
     (case h_types h ty of
        None \<Rightarrow> False
      | Some t \<Rightarrow> plain (get_name t) \<and>
          (case t of
             List_type l \<Rightarrow> html_type_ok n h (li_elem_type l)
           | Set_type l \<Rightarrow> html_type_ok n h (se_elem_type l)
           | Map_type m \<Rightarrow> html_type_ok n h (ma_key_type m) \<and> html_type_ok n h (ma_val_type m)
           | Base_type b \<Rightarrow> True
           | _ \<Rightarrow> linkable h t))"

inductive value_shown :: "nat \<Rightarrow> heap \<Rightarrow> addr \<Rightarrow> t_const_value \<Rightarrow> bool" for n h where
  shown_identifier: "cv_valType v = Some CV_IDENTIFIER \<Longrightarrow> plain (cv_identifierVal v) \<Longrightarrow> value_shown n h ty v"
| shown_integer: "get_true_type n h ty = Ok tt \<Longrightarrow> h_types h tt = Some (Base_type b) \<Longrightarrow> cv_valType v = Some CV_INTEGER \<Longrightarrow>
     base_admits (bt_base b) CV_INTEGER \<Longrightarrow> cv_intVal v = Some i \<Longrightarrow> value_shown n h ty v"
| shown_double: "get_true_type n h ty = Ok tt \<Longrightarrow> h_types h tt = Some (Base_type b) \<Longrightarrow> cv_valType v = Some CV_DOUBLE \<Longrightarrow>
     bt_base b = TYPE_DOUBLE \<Longrightarrow> cv_doubleVal v = Some d \<Longrightarrow> value_shown n h ty v"
| shown_string: "get_true_type n h ty = Ok tt \<Longrightarrow> h_types h tt = Some (Base_type b) \<Longrightarrow> cv_valType v = Some CV_STRING \<Longrightarrow>
     bt_base b = TYPE_STRING \<Longrightarrow> value_shown n h ty v"
| shown_struct: "get_true_type n h ty = Ok tt \<Longrightarrow> h_types h tt = Some (Struct st) \<Longrightarrow> cv_valType v = Some CV_MAP \<Longrightarrow>
     (\<And>k x. (k, x) \<in> set (cv_mapVal v) \<Longrightarrow> plain (cv_stringVal k) \<and>
       (\<exists>ft. field_type_named h (st_members st) (cv_stringVal k) None = Ok (Some ft) \<and> value_shown n h ft x)) \<Longrightarrow> value_shown n h ty v"
| shown_map: "get_true_type n h ty = Ok tt \<Longrightarrow> h_types h tt = Some (Map_type m) \<Longrightarrow> cv_valType v = Some CV_MAP \<Longrightarrow>
     (\<And>k x. (k, x) \<in> set (cv_mapVal v) \<Longrightarrow> value_shown n h (ma_key_type m) k \<and> value_shown n h (ma_val_type m) x) \<Longrightarrow> value_shown n h ty v"
| shown_list: "get_true_type n h ty = Ok tt \<Longrightarrow> h_types h tt = Some (List_type l) \<Longrightarrow> cv_valType v = Some CV_LIST \<Longrightarrow>
     (\<And>x. x \<in> set (cv_listVal v) \<Longrightarrow> value_shown n h (li_elem_type l) x) \<Longrightarrow> value_shown n h ty v"
| shown_set: "get_true_type n h ty = Ok tt \<Longrightarrow> h_types h tt = Some (Set_type l) \<Longrightarrow> cv_valType v = Some CV_LIST \<Longrightarrow>
     (\<And>x. x \<in> set (cv_listVal v) \<Longrightarrow> value_shown n h (se_elem_type l) x) \<Longrightarrow> value_shown n h ty v"

section \<open>Types and values\<close>

lemma html_link_reads:
  "plain file \<Longrightarrow> plain anchor \<Longrightarrow> plain name \<Longrightarrow> reads stk (html_link file anchor name) stk"
  by (simp add: html_link_def in_quotes_def end_of_tag_def)

lemma plain_kinds [simp]: "plain (anchor_kind t)"
  by (cases t) (simp_all add: anchor_kind_def)

lemma end_of_code [simp]: "end_of_tag ''code'' stk = Some (''code'' # stk)" "end_of_tag ''/code'' (''code'' # stk) = Some stk"
  by (simp_all add: end_of_tag_def)

lemma code_reads: "reads stk ''<code>'' (''code'' # stk)" "reads (''code'' # stk) ''</code>'' stk"
  by simp_all

lemma goes_print_named:
  assumes t: "linkable h t" "plain (get_name t)"
  shows "goes u h pa anything stk (print_named_type t) stk"
proof -
  from t(1) obtain qa p where p: "get_program t = Some qa" "h_programs h qa = Some p" "plain (pr_name p)"
    by (auto simp: linkable_def split: option.splits)
  show ?thesis
    unfolding print_named_type_def Let_def
    using p t(2)
    by (intro goes_read [where v = qa] goes_program [OF p(2)] goes_bind [OF goes_link] goes_bind [OF goes_gets [where Q = anything]])
      (auto intro!: goes_seq goes_emit goes_return html_link_reads)
qed

lemma goes_print_type: "html_type_ok n h ty \<Longrightarrow> goes u h pa anything stk (print_type n ty) stk"
proof (induction n arbitrary: ty stk)
  case 0
  then show ?case by simp
next
  case (Suc n)
  then obtain t where t: "h_types h ty = Some t" "plain (get_name t)" by (auto split: option.splits)
  have body: "goes u h pa anything (''code'' # stk) (print_type_body (print_type n) t) (''code'' # stk)"
    using Suc t unfolding print_type_body_def
    by (cases t) (auto simp del: html_run.simps intro!: goes_print_named goes_seq goes_text goes_return
        goes_bind [where P = anything])
  show ?case
    unfolding print_type.simps
    by (rule goes_type [OF t(1)], rule goes_seq, rule goes_emit, rule code_reads(1), rule goes_bind [where P = anything],
      rule body, rule goes_seq, rule goes_emit, rule code_reads(2), rule goes_return) simp
qed

lemma goes_identifier_value:
  assumes p: "h_programs h pa = Some p" "plain (pr_name p)" and v: "plain (cv_identifierVal v)"
  shows "goes u h pa anything stk (print_identifier_value v) stk"
proof -
  have "reads stk (''<code>'' @ html_link link (''Const_'' @ name) name @ ''</code>'') stk" if "plain link" "plain name" for link name
    using that html_link_reads [of link "''Const_'' @ name" name "''code'' # stk"] by simp
  then show ?thesis
    unfolding print_identifier_value_def using p(2) v
    by (intro goes_this_program [OF p(1)] goes_bind [OF goes_escaped] goes_bind [OF goes_link] goes_emit) simp_all
qed

lemma goes_base_value:
  assumes pd: "\<And>d. plain (pd d)"
  shows "vt = CV_INTEGER \<Longrightarrow> base_admits b vt \<Longrightarrow> cv_valType v = Some vt \<Longrightarrow> cv_intVal v = Some i \<Longrightarrow>
      goes u h pa anything stk (print_base_value pd b vt v) stk"
    and "vt = CV_DOUBLE \<Longrightarrow> b = TYPE_DOUBLE \<Longrightarrow> cv_doubleVal v = Some d \<Longrightarrow> goes u h pa anything stk (print_base_value pd b vt v) stk"
    and "b = TYPE_STRING \<Longrightarrow> goes u h pa anything stk (print_base_value pd b vt v) stk"
proof -
  show "goes u h pa anything stk (print_base_value pd b vt v) stk"
    if "vt = CV_INTEGER" "base_admits b vt" "cv_valType v = Some vt" "cv_intVal v = Some i"
    using that
    by (cases b) (auto simp: print_base_value_def html_integer_def get_integer_def intro!: goes_read [where v = i] goes_text)
  show "goes u h pa anything stk (print_base_value pd b vt v) stk" if "vt = CV_DOUBLE" "b = TYPE_DOUBLE" "cv_doubleVal v = Some d"
    using that pd by (auto simp: print_base_value_def intro!: goes_read [where v = d] goes_text)
  have "goes u h pa plain stk (gets (\<lambda>g. get_escaped_string (gn_escape g) v)) stk"
    by (rule goes_gets) (simp add: html_ok_def get_escaped_string_def html_escapes_plain)
  then show "goes u h pa anything stk (print_base_value pd b vt v) stk" if "b = TYPE_STRING"
    using that
    by (auto simp: print_base_value_def in_quotes_def intro!: goes_bind [where P = plain] goes_escaped goes_text)
qed

lemma goes_braces:
  "(\<And>m. m \<in> set ms \<Longrightarrow> goes u h pa anything stk m stk) \<Longrightarrow>
     goes u h pa anything stk (block [html_emit ''{ '', html_separated True ms, html_emit '' }'']) stk"
  by (auto intro!: goes_seq goes_text goes_separated goes_return)

lemma goes_entry:
  assumes "plain key \<and> (\<exists>ft. field_type_named h ms key None = Ok (Some ft) \<and> P ft \<and> (\<forall>stk. goes u h pa anything stk (m ft) stk))"
  shows "goes u h pa anything stk
    (bindA (getsO (\<lambda>g. field_type_named (gn_heap g) ms key None)) (\<lambda>field_type.
       (case field_type of
          None \<Rightarrow> throwA e
        | Some ft \<Rightarrow> bindA (html_escaped key) (\<lambda>s. seqA (html_emit (s @ '' = '')) (m ft))))) stk"
proof -
  from assms obtain ft where "plain key" "field_type_named h ms key None = Ok (Some ft)" "\<forall>stk. goes u h pa anything stk (m ft) stk"
    by blast
  then show ?thesis
    by (intro goes_read [where v = "Some ft"]) (auto intro!: goes_bind [OF goes_escaped] goes_seq goes_text)
qed

lemma goes_print_const:
  assumes p: "h_programs h pa = Some p" "plain (pr_name p)" and pd: "\<And>d. plain (pd d)"
  shows "value_shown n h ty v \<Longrightarrow> goes u h pa anything stk (print_const_value pd n ty v) stk"
proof (induction arbitrary: stk rule: value_shown.induct)
  case (shown_identifier v ty)
  then show ?case
    unfolding print_const_value.simps [of pd n ty v]
    by (intro goes_read [where v = CV_IDENTIFIER]) (simp_all add: goes_identifier_value [OF p])
next
  case (shown_integer ty tt b v i)
  then show ?case
    unfolding print_const_value.simps [of pd n ty v]
    by (intro goes_read [where v = CV_INTEGER]) (auto intro!: goes_read [where v = tt] goes_type goes_base_value(1) pd)
next
  case (shown_double ty tt b v d)
  then show ?case
    unfolding print_const_value.simps [of pd n ty v]
    by (intro goes_read [where v = CV_DOUBLE]) (auto intro!: goes_read [where v = tt] goes_type goes_base_value(2) pd)
next
  case (shown_string ty tt b v)
  then show ?case
    unfolding print_const_value.simps [of pd n ty v]
    by (intro goes_read [where v = CV_STRING]) (auto intro!: goes_read [where v = tt] goes_type goes_base_value(3) pd)
next
  case (shown_struct ty tt st v)
  have "goes u h pa anything stk m stk" if "m \<in> set (map (\<lambda>(k, v).
      bindA (getsO (\<lambda>g. field_type_named (gn_heap g) (st_members st) (cv_stringVal k) None)) (\<lambda>field_type.
        (case field_type of
           None \<Rightarrow> throwA (''type error: '' @ get_name (Struct st) @ '' has no field '' @ cv_stringVal k)
         | Some ft \<Rightarrow>
             bindA (html_escaped (cv_stringVal k)) (\<lambda>s.
               seqA (html_emit (s @ '' = '')) (print_const_value pd n ft v))))) (cv_mapVal v))" for m
    using that shown_struct.IH by (auto intro!: goes_entry [where P = "\<lambda>ft. True"]) metis+
  with shown_struct.hyps show ?case
    unfolding print_const_value.simps [of pd n ty v]
    by (intro goes_read [where v = CV_MAP]) (auto simp del: block.simps intro!: goes_read [where v = tt] goes_type goes_braces)
next
  case (shown_map ty tt m v)
  have "goes u h pa anything stk m' stk" if "m' \<in> set (map (\<lambda>(k, v). block [print_const_value pd n (ma_key_type m) k, html_emit '' = '',
      print_const_value pd n (ma_val_type m) v]) (cv_mapVal v))" for m'
    using that shown_map.IH by (auto intro!: goes_seq goes_text goes_return)
  with shown_map.hyps show ?case
    unfolding print_const_value.simps [of pd n ty v]
    by (intro goes_read [where v = CV_MAP]) (auto simp del: block.simps intro!: goes_read [where v = tt] goes_type goes_braces)
next
  case (shown_list ty tt l v)
  then show ?case
    unfolding print_const_value.simps [of pd n ty v]
    by (intro goes_read [where v = CV_LIST]) (auto simp del: block.simps intro!: goes_read [where v = tt] goes_type goes_braces)
next
  case (shown_set ty tt l v)
  then show ?case
    unfolding print_const_value.simps [of pd n ty v]
    by (intro goes_read [where v = CV_LIST]) (auto simp del: block.simps intro!: goes_read [where v = tt] goes_type goes_braces)
qed

end
