(* ===== verification/Html_Definitions.thy ===== *)
theory Html_Definitions
  imports Html_Nesting
begin

text \<open>
  What every definition of a page does to the open elements: typedefs, enumerations, constants, structs, exceptions,
  functions and services close what they open, so the definitions of a well-formed program nest.
\<close>

section \<open>Sequences of tags\<close>

lemmas tag_simps = end_of_tag_def in_quotes_def

lemma goes_ignore: "goes u h pa anything stk m stk \<Longrightarrow> goes u h pa anything stk (bindA m (\<lambda>_. returnA ())) stk"
  by (rule goes_bind [where P = anything]) (auto intro: goes_return)

lemma goes_print_doc:
  assumes "doc_nested u d"
  shows "goes u h pa anything stk (print_doc (has_doc d) (doc d)) stk"
proof (cases "has_doc d")
  case True
  have br: "reads stk ''<br/>'' stk" by (simp add: end_of_tag_def)
  have unsafe: "goes u h pa (\<lambda>b. b = u) stk (gets ht_unsafe) stk" by (rule goes_gets) (simp add: html_ok_def)
  have "goes u h pa balanced stk (html_escaped (doc d)) stk" if "\<not> u"
    using assms True that by (intro goes_escape_result) (auto simp: doc_nested_def escaped_nested_def)
  then show ?thesis
    unfolding print_doc_def whenA_def using assms True br
    by (auto intro!: goes_bind [OF unsafe] goes_bind [where P = balanced] goes_emit simp: doc_nested_def balancedD simp del: html_run.simps)
qed (simp add: print_doc_def goes_when)

lemma goes_definition_head:
  assumes "plain anchor" "plain title" "plain name"
  shows "goes u h pa anything stk (definition_head anchor title name) (''div'' # stk)"
  unfolding definition_head_def
  by (rule goes_seq, (rule goes_emit goes_line, simp add: tag_simps assms)+)

lemmas goes_steps = goes_seq goes_ignore goes_return TrueI

lemmas goes_known = goes_definition_head goes_print_type goes_print_doc

lemmas goes_tags = goes_emit goes_line

definition html_typedef_ok :: "nat \<Rightarrow> bool \<Rightarrow> heap \<Rightarrow> addr \<Rightarrow> bool" where
  "html_typedef_ok n u h ta \<longleftrightarrow>
     (case h_types h ta of
        Some (Typedef td) \<Rightarrow> plain (ty_name td) \<and> plain (td_symbolic td) \<and> doc_nested u td \<and>
          (case typedef_get_type h td of Ok ty \<Rightarrow> html_type_ok n h ty | _ \<Rightarrow> False)
      | _ \<Rightarrow> False)"

lemma goes_typedef:
  assumes "html_typedef_ok n u h ta"
  shows "goes u h pa anything stk (html_generate_typedef n ta) stk"
proof -
  from assms obtain td ty where td: "h_types h ta = Some (Typedef td)" "plain (ty_name td)" "doc_nested u td"
      "typedef_get_type h td = Ok ty" "html_type_ok n h ty"
    by (auto simp: html_typedef_ok_def split: option.splits t_type_obj.splits outcome.splits)
  show ?thesis
    unfolding html_generate_typedef_def block.simps
    by (rule goes_type [OF td(1)], unfold t_type_obj.case)
      (rule goes_steps | (rule goes_known goes_read [where v = ty], (simp add: td; fail)+) | (rule goes_tags, simp add: tag_simps td))+
qed

definition html_enum_ok :: "bool \<Rightarrow> heap \<Rightarrow> addr \<Rightarrow> bool" where
  "html_enum_ok u h ea \<longleftrightarrow>
     (case h_types h ea of
        Some (Enum e) \<Rightarrow> plain (ty_name e) \<and> doc_nested u e \<and> list_all (\<lambda>c. plain (ev_name c) \<and> doc_nested u c) (en_constants e)
      | _ \<Rightarrow> False)"

lemma goes_enum_value:
  assumes "plain (ev_name c)" "doc_nested u c"
  shows "goes u h pa anything stk (html_enum_value c) stk"
  unfolding html_enum_value_def block.simps
  by (rule goes_steps | (rule goes_known, (simp add: assms; fail)) | (rule goes_tags, simp add: tag_simps assms))+

lemma goes_enum:
  assumes "html_enum_ok u h ea"
  shows "goes u h pa anything stk (html_generate_enum ea) stk"
proof -
  from assms obtain e where e: "h_types h ea = Some (Enum e)" "plain (ty_name e)" "doc_nested u e"
      "\<forall>c \<in> set (en_constants e). plain (ev_name c) \<and> doc_nested u c"
    by (auto simp: html_enum_ok_def list_all_iff split: option.splits t_type_obj.splits)
  have rows: "goes u h pa anything stk (for_each (en_constants e) html_enum_value) stk" for stk
    using e(4) by (auto intro!: goes_for_each goes_enum_value)
  show ?thesis
    unfolding html_generate_enum_def block.simps table_class_def
    by (rule goes_type [OF e(1)], unfold t_type_obj.case)
      (rule goes_steps rows | (rule goes_known, (simp add: e; fail)+) | (rule goes_tags, simp add: tag_simps e))+
qed

definition html_const_ok :: "nat \<Rightarrow> bool \<Rightarrow> heap \<Rightarrow> t_const \<Rightarrow> bool" where
  "html_const_ok n u h c \<longleftrightarrow> plain (co_name c) \<and> doc_nested u c \<and> html_type_ok n h (co_type c) \<and> value_shown n h (co_type c) (co_value c)"

lemma goes_const:
  assumes p: "h_programs h pa = Some p" "plain (pr_name p)" "\<And>d. plain (pd d)" and c: "html_const_ok n u h c"
  shows "goes u h pa anything stk (html_generate_const pd n c) stk"
proof -
  have c: "plain (co_name c)" "doc_nested u c" "html_type_ok n h (co_type c)" "value_shown n h (co_type c) (co_value c)"
    using c by (simp_all add: html_const_ok_def)
  show ?thesis
    unfolding html_generate_const_def block.simps
    by (rule goes_steps goes_when goes_print_const [OF p c(4)] | (rule goes_known, (simp add: c; fail)+)
      | (rule goes_tags, simp add: tag_simps c))+
qed

text \<open>Fields: members of structs, arguments and thrown exceptions.\<close>

definition html_field_ok :: "nat \<Rightarrow> heap \<Rightarrow> addr \<Rightarrow> bool" where
  "html_field_ok n h fa \<longleftrightarrow>
     (case h_fields h fa of
        None \<Rightarrow> False
      | Some f \<Rightarrow> plain (fl_name f) \<and> html_type_ok n h (fl_type f) \<and> escaped_nested (doc f) \<and> fl_req f \<noteq> None \<and>
          (case fl_value f of None \<Rightarrow> True | Some v \<Rightarrow> value_shown n h (fl_type f) v))"

lemma html_fieldE:
  assumes "html_field_ok n h fa"
  obtains f where "h_fields h fa = Some f" "plain (fl_name f)" "html_type_ok n h (fl_type f)" "escaped_nested (doc f)" "fl_req f \<noteq> None"
    "\<And>v. fl_value f = Some v \<Longrightarrow> value_shown n h (fl_type f) v"
  using assms by (auto simp: html_field_ok_def split: option.splits)

lemma goes_escaped_doc: "escaped_nested s \<Longrightarrow> (\<And>t. balanced t \<Longrightarrow> goes u h pa Q stk (k t) stk') \<Longrightarrow> goes u h pa Q stk (bindA (html_escaped s) k) stk'"
  by (rule goes_bind [where P = balanced], rule goes_escape_result, unfold escaped_nested_def, blast)

lemma goes_option:
  "(\<And>v. x = Some v \<Longrightarrow> goes u h pa anything stk (m v) stk) \<Longrightarrow>
     goes u h pa anything stk (case x of None \<Rightarrow> returnA () | Some v \<Rightarrow> m v) stk"
  by (cases x) (simp_all add: goes_return)

lemma goes_struct_member:
  assumes p: "h_programs h pa = Some p" "plain (pr_name p)" "\<And>d. plain (pd d)" and f: "html_field_ok n h fa"
  shows "goes u h pa anything stk (html_struct_member pd n fa) stk"
  using f
proof (rule html_fieldE)
  fix f assume f: "h_fields h fa = Some f" "plain (fl_name f)" "html_type_ok n h (fl_type f)" "escaped_nested (doc f)" "fl_req f \<noteq> None"
    "\<And>v. fl_value f = Some v \<Longrightarrow> value_shown n h (fl_type f) v"
  have description: "goes u h pa anything stk (bindA (html_escaped (doc f)) html_emit) stk" for stk
    by (rule goes_escaped_doc [OF f(4)]) (rule goes_emit, erule balancedD)
  have requiredness: "goes u h pa anything stk (bindA (getsO (\<lambda>_. requiredness f)) html_emit) stk" for stk
  proof -
    from f(5) obtain r where "requiredness f = Ok r" "plain r" by (cases "fl_req f") (simp_all add: requiredness_def)
    then show ?thesis by (intro goes_read [where v = r] goes_emit) simp_all
  qed
  have default: "goes u h pa anything stk (case fl_value f of None \<Rightarrow> returnA ()
      | Some v \<Rightarrow> block [html_emit ''<code>'', print_const_value pd n (fl_type f) v, html_emit ''</code>'']) stk" for stk
    unfolding block.simps
    by (rule goes_option) (rule goes_steps goes_print_const [OF p f(6)] | assumption | (rule goes_tags, simp add: tag_simps))+
  show ?thesis
    unfolding html_struct_member_def
    by (rule goes_field [OF f(1)], unfold block.simps)
      (rule goes_steps description requiredness default [unfolded block.simps] | (rule goes_known, (simp add: f; fail)+)
        | (rule goes_tags, simp add: tag_simps f))+
qed

definition html_struct_ok :: "nat \<Rightarrow> bool \<Rightarrow> heap \<Rightarrow> addr \<Rightarrow> bool" where
  "html_struct_ok n u h oa \<longleftrightarrow>
     (case h_types h oa of
        Some (Struct st) \<Rightarrow> plain (ty_name st) \<and> doc_nested u st \<and> list_all (html_field_ok n h) (st_members st)
      | _ \<Rightarrow> False)"

lemma html_structE:
  assumes "html_struct_ok n u h oa"
  obtains st where "h_types h oa = Some (Struct st)" "plain (ty_name st)" "doc_nested u st" "\<forall>fa \<in> set (st_members st). html_field_ok n h fa"
  using assms by (auto simp: html_struct_ok_def list_all_iff split: option.splits t_type_obj.splits)

lemma goes_struct:
  assumes p: "h_programs h pa = Some p" "plain (pr_name p)" "\<And>d. plain (pd d)" and s: "html_struct_ok n u h oa"
  shows "goes u h pa anything stk (html_generate_struct pd n oa) stk"
  using s
proof (rule html_structE)
  fix st assume st: "h_types h oa = Some (Struct st)" "plain (ty_name st)" "doc_nested u st" "\<forall>fa \<in> set (st_members st). html_field_ok n h fa"
  have rows: "goes u h pa anything stk (for_each (st_members st) (html_struct_member pd n)) stk" for stk
    using st(4) by (intro goes_for_each goes_struct_member [OF p]) blast
  have title: "plain (if st_is_xception st then ''Exception'' else if st_is_union st then ''Union'' else ''Struct'')" by simp
  show ?thesis
    unfolding html_generate_struct_def block.simps table_class_def
    by (rule goes_type [OF st(1)], unfold t_type_obj.case)
      (rule goes_steps rows | (rule goes_known, (simp add: st title; fail)+) | (rule goes_tags, simp add: tag_simps st))+
qed

section \<open>Functions and services\<close>

lemma goes_read_members:
  "h_types h sa = Some (Struct st) \<Longrightarrow> goes u h pa Q stk (k (st_members st)) stk' \<Longrightarrow> goes u h pa Q stk (bindA (html_members sa) k) stk'"
  by (rule goes_bind [where P = "\<lambda>ms. ms = st_members st"])
    (auto simp: html_members_def intro!: goes_type goes_getsO)

lemma goes_argument:
  assumes p: "h_programs h pa = Some p" "plain (pr_name p)" "\<And>d. plain (pd d)" and f: "html_field_ok n h fa"
  shows "goes u h pa anything stk (html_argument pd n offset fa first) stk"
  using f
proof (rule html_fieldE)
  fix f assume f: "h_fields h fa = Some f" "plain (fl_name f)" "html_type_ok n h (fl_type f)"
    "\<And>v. fl_value f = Some v \<Longrightarrow> value_shown n h (fl_type f) v"
  have spaces: "plain (replicate k (CHR '' ''))" for k by (induction k) auto
  have default: "goes u h pa anything stk (case fl_value f of None \<Rightarrow> returnA ()
      | Some v \<Rightarrow> seqA (html_emit '' = '') (print_const_value pd n (fl_type f) v)) stk" for stk
    by (rule goes_option) (rule goes_steps goes_print_const [OF p f(4)] | assumption | (rule goes_tags, simp add: tag_simps))+
  show ?thesis
    unfolding html_argument_def
    by (rule goes_steps goes_when goes_field [OF f(1)] goes_bind [where P = anything, OF goes_print_type [OF f(3)]] default
      | (rule goes_tags, simp add: tag_simps f spaces))+
qed

lemma goes_thrown:
  assumes f: "html_field_ok n h fa"
  shows "goes u h pa anything stk (html_thrown n fa first) stk"
  using f
proof (rule html_fieldE)
  fix f assume f: "h_fields h fa = Some f" "html_type_ok n h (fl_type f)"
  show ?thesis
    unfolding html_thrown_def
    by (rule goes_steps goes_when goes_field [OF f(1)] goes_bind [where P = anything, OF goes_print_type [OF f(2)]]
      | (rule goes_tags, simp add: tag_simps))+
qed

lemma fields_read: "\<forall>fa \<in> set fas. html_field_ok n h fa \<Longrightarrow> \<exists>b. has_docs h fas = Ok b"
proof -
  assume "\<forall>fa \<in> set fas. html_field_ok n h fa"
  then have "\<exists>fs. read_fields h fas = Ok fs" by (induction fas) (auto elim: html_fieldE)
  then show ?thesis by (auto simp: has_docs_def)
qed

lemma goes_service_name:
  "(\<And>s. plain s \<Longrightarrow> goes u h pa Q stk (k s) stk') \<Longrightarrow> goes u h pa Q stk (bindA (gets gn_service_name) k) stk'"
  by (rule goes_bind [where P = plain], rule goes_gets) (simp_all add: html_ok_def)

lemma goes_args_doc:
  assumes texts: "plain title" "plain anchor" "plain column" "plain function_name" and fs: "\<forall>fa \<in> set fas. html_field_ok n h fa"
    and cell: "\<And>fa f stk. fa \<in> set fas \<Longrightarrow> h_fields h fa = Some f \<Longrightarrow> goes u h pa plain stk (cell f) stk"
  shows "goes u h pa anything stk (args_doc title anchor column function_name cell fas) stk"
proof -
  have row: "goes u h pa anything stk (bindA (field_here fa) (\<lambda>f. bindA (cell f) (\<lambda>c.
      seqA (html_emit (''<tr><td>'' @ c)) (seqA (html_emit ''</td><td>'')
        (bindA (html_escaped (doc f)) (\<lambda>s. seqA (html_emit s) (html_line ''</td></tr>''))))))) stk"
    if fa: "fa \<in> set fas" for fa stk
  proof -
    from fs fa obtain f where f: "h_fields h fa = Some f" "escaped_nested (doc f)" by (blast elim: html_fieldE)
    show ?thesis
      by (rule goes_steps goes_field [OF f(1)] goes_bind [OF cell [OF fa f(1)]] goes_escaped_doc [OF f(2)]
        | (rule goes_tags, simp add: tag_simps balancedD))+
  qed
  from fields_read [OF fs] obtain b where b: "has_docs h fas = Ok b" by blast
  show ?thesis
    unfolding args_doc_def table_class_def block.simps
    by (rule goes_read [where v = b], simp add: b)
      (rule goes_steps goes_when goes_service_name goes_for_each row | assumption | (rule goes_tags, simp add: tag_simps texts))+
qed

text \<open>
  A function: its arguments and its exceptions are the members of the two structs the function points to.
\<close>

definition html_members_ok :: "nat \<Rightarrow> heap \<Rightarrow> addr \<Rightarrow> bool" where
  "html_members_ok n h sa \<longleftrightarrow>
     (case h_types h sa of Some (Struct st) \<Rightarrow> list_all (html_field_ok n h) (st_members st) | _ \<Rightarrow> False)"

definition html_function_ok :: "nat \<Rightarrow> bool \<Rightarrow> heap \<Rightarrow> t_function \<Rightarrow> bool" where
  "html_function_ok n u h fn \<longleftrightarrow> plain (fn_name fn) \<and> doc_nested u fn \<and> html_type_ok n h (fn_returntype fn) \<and>
     html_members_ok n h (fn_arglist fn) \<and> html_members_ok n h (fn_xceptions fn)"

lemma html_membersE:
  assumes "html_members_ok n h sa"
  obtains st where "h_types h sa = Some (Struct st)" "\<forall>fa \<in> set (st_members st). html_field_ok n h fa"
  using assms by (auto simp: html_members_ok_def list_all_iff split: option.splits t_type_obj.splits)

lemma type_ok_name: "html_type_ok n h ty \<Longrightarrow> \<exists>t. h_types h ty = Some t \<and> plain (get_name t)"
  by (cases n) (auto split: option.splits)

lemma goes_fn_args_doc:
  assumes fn: "html_function_ok n u h fn"
  shows "goes u h pa anything stk (print_fn_args_doc fn) stk"
proof -
  from fn obtain args xs where a: "h_types h (fn_arglist fn) = Some (Struct args)" "\<forall>fa \<in> set (st_members args). html_field_ok n h fa"
    and x: "h_types h (fn_xceptions fn) = Some (Struct xs)" "\<forall>fa \<in> set (st_members xs). html_field_ok n h fa"
    and name: "plain (fn_name fn)"
    unfolding html_function_ok_def by (meson html_membersE)
  have cell: "goes u h pa plain stk (returnA (fl_name f)) stk"
    if "fa \<in> set (st_members args)" "h_fields h fa = Some f" for fa f stk
    using a(2) that by (intro goes_return) (auto elim!: html_fieldE)
  have xcell: "goes u h pa plain stk (bindA (type_here (fl_type f)) (\<lambda>t. returnA (get_name t))) stk"
    if "fa \<in> set (st_members xs)" "h_fields h fa = Some f" for fa f stk
  proof -
    from x(2) that have "html_type_ok n h (fl_type f)" by (auto elim!: html_fieldE)
    then obtain t where t: "h_types h (fl_type f) = Some t" "plain (get_name t)" using type_ok_name by blast
    show ?thesis by (intro goes_type [OF t(1)] goes_return t(2))
  qed
  show ?thesis
    unfolding print_fn_args_doc_def block.simps
    by (rule goes_steps goes_read_members [OF a(1)] goes_read_members [OF x(1)]
        goes_args_doc [OF _ _ _ name a(2) cell] goes_args_doc [OF _ _ _ name x(2) xcell] | assumption | simp; fail)+
qed

lemma goes_function:
  assumes p: "h_programs h pa = Some p" "plain (pr_name p)" "\<And>d. plain (pd d)" and fn: "html_function_ok n u h fn"
  shows "goes u h pa anything stk (html_function pd n fn) stk"
proof -
  from fn obtain args xs where a: "h_types h (fn_arglist fn) = Some (Struct args)" "\<forall>fa \<in> set (st_members args). html_field_ok n h fa"
    and x: "h_types h (fn_xceptions fn) = Some (Struct xs)" "\<forall>fa \<in> set (st_members xs). html_field_ok n h fa"
    and f: "plain (fn_name fn)" "doc_nested u fn" "html_type_ok n h (fn_returntype fn)"
    unfolding html_function_ok_def by (meson html_membersE)
  have args: "goes u h pa anything stk (fold_each (st_members args) (html_argument pd n offset) first) stk" for offset first stk
    using a(2) by (intro goes_fold_each goes_argument [OF p]) blast
  have throws: "goes u h pa anything stk (fold_each (st_members xs) (html_thrown n) first) stk" for first stk
    using x(2) by (intro goes_fold_each goes_thrown) blast
  show ?thesis
    unfolding html_function_def block.simps
    by (rule goes_service_name)
      (rule goes_steps goes_when goes_read_members [OF a(1)] goes_read_members [OF x(1)] goes_print_doc [OF f(2)] goes_fn_args_doc [OF fn]
         goes_bind [where P = anything, OF goes_print_type [OF f(3)]] goes_bind [where P = anything, OF args]
         goes_bind [where P = anything, OF throws]
       | (rule goes_tags, simp add: tag_simps f))+
qed

definition html_service_ok :: "nat \<Rightarrow> bool \<Rightarrow> heap \<Rightarrow> addr \<Rightarrow> bool" where
  "html_service_ok n u h sa \<longleftrightarrow>
     (case h_types h sa of
        Some (Service sv) \<Rightarrow> plain (ty_name sv) \<and> doc_nested u sv \<and> list_all (html_function_ok n u h) (sv_functions sv) \<and>
          (case sv_extends sv of None \<Rightarrow> True | Some ea \<Rightarrow> html_type_ok n h ea)
      | _ \<Rightarrow> False)"

lemma html_serviceE:
  assumes "html_service_ok n u h sa"
  obtains sv where "h_types h sa = Some (Service sv)" "plain (ty_name sv)" "doc_nested u sv"
    "\<forall>fn \<in> set (sv_functions sv). html_function_ok n u h fn" "\<And>ea. sv_extends sv = Some ea \<Longrightarrow> html_type_ok n h ea"
  using assms by (auto simp: html_service_ok_def list_all_iff split: option.splits t_type_obj.splits)

lemma goes_service:
  assumes p: "h_programs h pa = Some p" "plain (pr_name p)" "\<And>d. plain (pd d)" and s: "html_service_ok n u h sa"
  shows "goes u h pa anything stk (html_generate_service pd n sa) stk"
  using s
proof (rule html_serviceE)
  fix sv assume sv: "h_types h sa = Some (Service sv)" "plain (ty_name sv)" "doc_nested u sv"
    "\<forall>fn \<in> set (sv_functions sv). html_function_ok n u h fn" "\<And>ea. sv_extends sv = Some ea \<Longrightarrow> html_type_ok n h ea"
  have all_functions: "goes u h pa anything stk (for_each (sv_functions sv) (html_function pd n)) stk" for stk
    using sv(4) by (intro goes_for_each goes_function [OF p]) blast
  have extends: "goes u h pa anything stk (case sv_extends sv of None \<Rightarrow> returnA ()
      | Some ea \<Rightarrow> block [html_emit (''<div class='' @ in_quotes ''extends'' @ ''><em>extends</em> ''),
          bindA (print_type n ea) (\<lambda>_. returnA ()), html_line ''</div>'']) stk" for stk
    unfolding block.simps
    by (rule goes_option) (rule goes_steps goes_print_type [OF sv(5)] | assumption | (rule goes_tags, simp add: tag_simps))+
  show ?thesis
    unfolding html_generate_service_def block.simps
    by (rule goes_type [OF sv(1)], unfold t_type_obj.case)
      (rule goes_steps goes_service_name all_functions extends [unfolded block.simps] goes_print_doc [OF sv(3)]
        | (rule goes_tags, simp add: tag_simps))+
qed

section \<open>Definitions of a program\<close>

definition html_program_ok :: "nat \<Rightarrow> bool \<Rightarrow> heap \<Rightarrow> t_program \<Rightarrow> bool" where
  "html_program_ok n u h p \<longleftrightarrow> plain (pr_name p) \<and>
     list_all (html_const_ok n u h) (pr_consts p) \<and> list_all (html_enum_ok u h) (pr_enums p) \<and>
     list_all (html_typedef_ok n u h) (pr_typedefs p) \<and> list_all (html_struct_ok n u h) (pr_objects p) \<and>
     list_all (html_service_ok n u h) (pr_services p)"

lemma goes_object:
  assumes p: "h_programs h pa = Some p" "plain (pr_name p)" "\<And>d. plain (pd d)" and s: "html_struct_ok n u h oa"
  shows "goes u h pa anything stk (html_object pd n oa) stk"
  using s
  by (rule html_structE)
    (auto simp: html_object_def html_generate_xception_def intro!: goes_type goes_struct [OF p s])

lemma goes_named_service:
  assumes p: "h_programs h pa = Some p" "plain (pr_name p)" "\<And>d. plain (pd d)" and s: "html_service_ok n u h sa"
  shows "goes u h pa anything stk (html_service pd n sa) stk"
  using s
proof (rule html_serviceE)
  fix sv assume sv: "h_types h sa = Some (Service sv)" "plain (ty_name sv)"
  have "goes u h pa anything stk (modify (\<lambda>g. g\<lparr>gn_service_name := get_name (Service sv)\<rparr>)) stk"
    using sv(2) by (intro goesI exI [of _ "()"] exI [of _ "[]"])
      (auto simp: modify_def html_ok_def at_program_def same_file_def get_name_def t_type.defs simp del: html_heap)
  with goes_service [OF p s] show ?thesis
    unfolding html_service_def by (intro goes_type [OF sv(1)] goes_seq)
qed

lemma goes_definitions:
  assumes p: "h_programs h pa = Some p" "html_program_ok n u h p" and pd: "\<And>d. plain (pd d)"
  shows "goes u h pa anything stk (html_definitions pd n p) stk"
proof -
  have p': "h_programs h pa = Some p" "plain (pr_name p)" using p by (simp_all add: html_program_ok_def)
  have each: "goes u h pa anything stk (for_each (pr_consts p) (html_generate_const pd n)) stk"
    "goes u h pa anything stk (for_each (pr_enums p) html_generate_enum) stk"
    "goes u h pa anything stk (for_each (pr_typedefs p) (html_generate_typedef n)) stk"
    "goes u h pa anything stk (for_each (pr_objects p) (html_object pd n)) stk"
    "goes u h pa anything stk (for_each (pr_services p) (html_service pd n)) stk" for stk
    using p(2) unfolding html_program_ok_def list_all_iff
    by - (rule goes_for_each, simp add: goes_const [OF p' pd] goes_enum goes_typedef goes_object [OF p' pd] goes_named_service [OF p' pd])+
  show ?thesis
    unfolding html_definitions_def block.simps generate_consts_def table_class_def
    by (rule goes_steps goes_when each | (rule goes_tags, simp add: tag_simps html_section_def))+
qed

lemma goes_balanced:
  assumes m: "\<And>stk. goes u h pa Q stk m stk" and g: "html_ok u h pa g"
  shows "\<exists>v c g'. m g = (Ok v, g') \<and> Q v \<and> html_ok u h pa g' \<and> same_file g g' \<and> ht_out g' = ht_out g @ c \<and> balanced c"
proof -
  from goesE [OF m g] obtain v c g' where run: "m g = (Ok v, g')" "Q v" "html_ok u h pa g'" "same_file g g'" "ht_out g' = ht_out g @ c" .
  have "reads stk c stk" for stk
    by (rule goesE [OF m [of stk] g]) (simp add: run)
  with run show ?thesis unfolding balanced_def by blast
qed

lemma new_html_ok:
  assumes "new_html_generator h pa parsed_options = Ok g"
  shows "html_ok (ht_unsafe g) h pa g" "ht_out g = []" "gn_files g = []" "\<exists>p. h_programs h pa = Some p"
  using assms
  by (auto simp: new_html_generator_def new_generator_def bind_outcome_eq_Ok deref_eq_Ok t_generator.defs html_ok_def at_program_def
      simp del: html_heap)

text \<open>
  C15: Whatever the options of the generator, the definitions written for a program whose names have no angle
  brackets, whose types and constants are well-formed and whose documentation nests return, and what they append to
  the page closes every element it opens, in order, wherever on the page it stands.
\<close>

theorem html_definitions_nested:
  assumes "new_html_generator h pa parsed_options = Ok g" "h_programs h pa = Some p" "html_program_ok n (ht_unsafe g) h p"
    "\<And>d. plain (pd d)"
  shows "\<exists>c g'. html_definitions pd n p g = (Ok (), g') \<and> ht_out g' = ht_out g @ c \<and> balanced c"
proof -
  have ok: "html_ok (ht_unsafe g) h pa g" using assms(1) by (rule new_html_ok)
  have "goes (ht_unsafe g) h pa anything stk (html_definitions pd n p) stk" for stk
    using assms(2-4) by (rule goes_definitions)
  from goes_balanced [OF this ok] show ?thesis by auto
qed

text \<open>A program with a definition of each kind, and a program it includes that includes it back.\<close>

definition html_demo_service :: t_service where
  "html_demo_service = (new_service 0)\<lparr>ty_name := ''Sv'', sv_functions := [\<lparr>doc = ''does f'', has_doc = True, fn_returntype = 4,
     fn_name = ''f'', fn_arglist = 8, fn_xceptions = 9, fn_oneway = False, fn_annotations = []\<rparr>]\<rparr>"

definition html_demo_program :: t_program where
  "html_demo_program = (new_program_named ''a.thrift'' ''a'')\<lparr>pr_includes := [1], pr_enums := [2], pr_typedefs := [4], pr_objects := [5],
     pr_services := [6], pr_consts := [new_const 7 ''c'' (new_const_integer 20 3)]\<rparr>"

definition html_demo_heap :: heap where
  "html_demo_heap =
     \<lparr>h_types = [2 \<mapsto> Enum ((new_enum 0)\<lparr>ty_name := ''E'', en_constants := [new_enum_value ''A'' 1]\<rparr>),
        3 \<mapsto> List_type (new_list 2), 4 \<mapsto> Typedef (new_typedef 0 3 ''Es''),
        5 \<mapsto> Struct ((new_struct (Some 0) ''S'')\<lparr>st_members := [10]\<rparr>), 6 \<mapsto> Service html_demo_service,
        7 \<mapsto> Base_type (new_base_type ''i32'' TYPE_I32),
        8 \<mapsto> Struct ((new_struct (Some 0) ''f_args'')\<lparr>st_members := [10]\<rparr>), 9 \<mapsto> Struct (new_struct None '''')],
      h_fields = [10 \<mapsto> (new_field 3 ''es'' 1)\<lparr>doc := ''the list'', has_doc := True\<rparr>],
      h_programs = [0 \<mapsto> html_demo_program, 1 \<mapsto> (new_program_named ''b.thrift'' ''b'')\<lparr>pr_includes := [0]\<rparr>],
      h_next = 21\<rparr>"

lemmas html_demo_parts = html_demo_program_def html_demo_service_def new_enum_def new_enum_value_def new_list_def new_typedef_def
  new_struct_def new_service_def new_base_type_def new_field_def new_field_unkeyed_def new_program_named_def new_const_def

lemma html_demo_at:
  "h_types html_demo_heap 2 = Some (Enum ((new_enum 0)\<lparr>ty_name := ''E'', en_constants := [new_enum_value ''A'' 1]\<rparr>))"
  "h_types html_demo_heap 3 = Some (List_type (new_list 2))"
  "h_types html_demo_heap 4 = Some (Typedef (new_typedef 0 3 ''Es''))"
  "h_types html_demo_heap 5 = Some (Struct ((new_struct (Some 0) ''S'')\<lparr>st_members := [10]\<rparr>))"
  "h_types html_demo_heap 6 = Some (Service html_demo_service)"
  "h_types html_demo_heap 7 = Some (Base_type (new_base_type ''i32'' TYPE_I32))"
  "h_types html_demo_heap 8 = Some (Struct ((new_struct (Some 0) ''f_args'')\<lparr>st_members := [10]\<rparr>))"
  "h_types html_demo_heap 9 = Some (Struct (new_struct None ''''))"
  "h_fields html_demo_heap 10 = Some ((new_field 3 ''es'' 1)\<lparr>doc := ''the list'', has_doc := True\<rparr>)"
  "h_programs html_demo_heap 0 = Some html_demo_program"
  "h_programs html_demo_heap 1 = Some ((new_program_named ''b.thrift'' ''b'')\<lparr>pr_includes := [0]\<rparr>)"
  by (simp_all add: html_demo_heap_def)

lemma escaped_nested_plain: "plain s \<Longrightarrow> escaped_nested s"
  unfolding escaped_nested_def using escape_html_plain balanced_plain by blast

lemma html_demo_ok: "html_program_ok 3 False html_demo_heap html_demo_program"
proof -
  let ?h = html_demo_heap
  have three: "3 = Suc (Suc (Suc 0))" by simp
  have link: "linkable ?h t" if "get_program t = Some 0" for t
    using that by (simp add: linkable_def html_demo_at html_demo_parts)
  have types: "html_type_ok (Suc n) ?h 2" "html_type_ok (Suc (Suc n)) ?h 3" "html_type_ok (Suc n) ?h 4" "html_type_ok (Suc n) ?h 7" for n
    by (simp_all add: html_demo_at link get_program_def get_name_def html_demo_parts t_type.defs)
  have field: "html_field_ok (Suc (Suc n)) ?h 10" for n
    using types by (simp add: html_field_ok_def html_demo_at escaped_nested_plain html_demo_parts)
  have shown: "value_shown (Suc (Suc (Suc 0))) ?h 7 (new_const_integer 20 3)"
    by (rule shown_integer [where tt = 7 and b = "new_base_type ''i32'' TYPE_I32" and i = 3])
      (simp_all add: html_demo_at html_demo_parts new_const_integer_def new_const_value_def)
  show ?thesis
    unfolding three html_program_ok_def using shown types field
    by (simp add: html_const_ok_def html_enum_ok_def html_typedef_ok_def html_struct_ok_def html_service_ok_def
        html_function_ok_def html_members_ok_def doc_nested_def escaped_nested_plain html_demo_at html_demo_parts typedef_get_type_def
        del: html_type_ok.simps)
qed

theorem html_definitions_nested_witness:
  "\<exists>g c g'. new_html_generator html_demo_heap 0 [] = Ok g \<and>
     html_definitions (\<lambda>_. ''0'') 3 html_demo_program g = (Ok (), g') \<and> ht_out g' = ht_out g @ c \<and> balanced c"
proof -
  note p = html_demo_at(10)
  obtain g where g: "new_html_generator html_demo_heap 0 [] = Ok g" "\<not> ht_unsafe g"
    by (simp add: new_html_generator_def new_generator_def p smap_find_def t_generator.defs)
  show ?thesis
    using html_definitions_nested [OF g(1) p, of 3 "\<lambda>_. ''0''"] g html_demo_ok by auto
qed

end
