(* ===== verification/Html_Pages.thy ===== *)
theory Html_Pages
  imports Html_Definitions
begin

text \<open>
  The pages as a whole: the table of contents, whose rows close an element that nothing opens, and the index, which
  has a row for every program that can be reached through includes and returns even when the includes form a cycle.
\<close>

section \<open>Tags that do not nest\<close>

text \<open>The action returns, keeps the file, and appends a text that the reader rejects.\<close>

definition breaks :: "bool \<Rightarrow> heap \<Rightarrow> addr \<Rightarrow> string list \<Rightarrow> (html_gen, 'a) action \<Rightarrow> bool" where
  "breaks u h pa stk m \<longleftrightarrow> (\<forall>g. html_ok u h pa g \<longrightarrow>
     (\<exists>v c g'. m g = (Ok v, g') \<and> html_ok u h pa g' \<and> same_file g g' \<and> ht_out g' = ht_out g @ c \<and> html_run c (stk, None) = None))"

lemma breaksI:
  assumes "\<And>g. html_ok u h pa g \<Longrightarrow> \<exists>v c g'. m g = (Ok v, g') \<and> html_ok u h pa g' \<and> same_file g g' \<and>
     ht_out g' = ht_out g @ c \<and> html_run c (stk, None) = None"
  shows "breaks u h pa stk m"
  using assms by (simp add: breaks_def)

lemma breaksE:
  assumes "breaks u h pa stk m" "html_ok u h pa g"
  obtains v c g' where "m g = (Ok v, g')" "html_ok u h pa g'" "same_file g g'" "ht_out g' = ht_out g @ c" "html_run c (stk, None) = None"
  using assms unfolding breaks_def by blast

lemma breaks_emit: "html_run s (stk, None) = None \<Longrightarrow> breaks u h pa stk (html_emit s)"
  by (auto simp: breaks_def html_emit_def modify_def same_file_def html_ok_def at_program_def simp del: html_heap)

lemma breaks_later:
  assumes m: "goes u h pa P stk m stk1" and f: "\<And>v. P v \<Longrightarrow> breaks u h pa stk1 (f v)"
  shows "breaks u h pa stk (bindA m f)"
proof (rule breaksI)
  fix g assume "html_ok u h pa g"
  with m obtain v c g1 where 1: "m g = (Ok v, g1)" "P v" "html_ok u h pa g1" "same_file g g1" "ht_out g1 = ht_out g @ c"
    "reads stk c stk1" by (rule goesE)
  from f [OF 1(2)] 1(3) obtain w d g2 where 2: "f v g1 = (Ok w, g2)" "html_ok u h pa g2" "same_file g1 g2"
    "ht_out g2 = ht_out g1 @ d" "html_run d (stk1, None) = None" by (rule breaksE)
  from 1 2 show "\<exists>v c g'. bindA m f g = (Ok v, g') \<and> html_ok u h pa g' \<and> same_file g g' \<and>
     ht_out g' = ht_out g @ c \<and> html_run c (stk, None) = None"
    by (intro exI [of _ w] exI [of _ "c @ d"] exI [of _ g2]) (simp add: same_file_def)
qed

lemma breaks_then: "goes u h pa anything stk m stk1 \<Longrightarrow> breaks u h pa stk1 n \<Longrightarrow> breaks u h pa stk (seqA m n)"
  unfolding seqA_def by (rule breaks_later)

lemma breaks_stays:
  assumes m: "breaks u h pa stk m" and n: "goes u h pa Q stk1 n stk2 \<or> breaks u h pa stk1 n"
  shows "breaks u h pa stk (seqA m n)"
proof (rule breaksI)
  fix g assume "html_ok u h pa g"
  with m obtain v c g1 where 1: "m g = (Ok v, g1)" "html_ok u h pa g1" "same_file g g1" "ht_out g1 = ht_out g @ c"
    "html_run c (stk, None) = None" by (rule breaksE)
  from n 1(2) obtain w d g2 where 2: "n g1 = (Ok w, g2)" "html_ok u h pa g2" "same_file g1 g2" "ht_out g2 = ht_out g1 @ d"
    by (elim disjE goesE breaksE)
  from 1 2 show "\<exists>v c g'. seqA m n g = (Ok v, g') \<and> html_ok u h pa g' \<and> same_file g g' \<and>
     ht_out g' = ht_out g @ c \<and> html_run c (stk, None) = None"
    by (intro exI [of _ w] exI [of _ "c @ d"] exI [of _ g2]) (simp add: same_file_def)
qed

lemmas breaks_before = breaks_stays [OF _ disjI1] and breaks_twice = breaks_stays [OF _ disjI2]

lemma breaks_program: "h_programs h qa = Some p \<Longrightarrow> breaks u h pa stk (f p) \<Longrightarrow> breaks u h pa stk (bindA (program_here qa) f)"
  unfolding program_here_def
  by (rule breaks_later [where P = "\<lambda>x. x = p"]) (auto intro!: goes_getsO)

section \<open>The table of contents\<close>

text \<open>The entries of the table are text that nests.\<close>

definition entries_nest :: "('k \<times> string) list \<Rightarrow> bool" where
  "entries_nest m \<longleftrightarrow> list_all (\<lambda>(k, s). balanced s) m"

lemma entries_nest_insert: "balanced s \<Longrightarrow> entries_nest m \<Longrightarrow> entries_nest (smap_insert k s m)"
proof -
  assume "balanced s" "entries_nest m"
  then have "entries_nest (smap_set k s m)"
    unfolding entries_nest_def by (induction k s m rule: smap_set.induct) auto
  with \<open>entries_nest m\<close> show ?thesis by (simp add: smap_insert_def)
qed

lemma link_balanced: "plain link \<Longrightarrow> plain anchor \<Longrightarrow> plain name \<Longrightarrow> balanced (html_link link anchor name)"
  by (simp add: balanced_def html_link_reads)

lemma around_balanced:
  assumes "balanced s"
  shows "balanced (''<code>'' @ s @ ''</code>'')" "balanced (''<li>'' @ s @ ''</li>'')"
  using assms by (auto simp: balanced_def end_of_tag_def)

lemma toc_types_nest:
  assumes link: "plain link" "plain kind" "entries_nest m"
    and ts: "\<And>ta. ta \<in> set tas \<Longrightarrow> \<exists>t name. h_types h ta = Some t \<and> name_of t = Ok name \<and> plain name"
  shows "\<exists>m'. toc_types h link kind name_of tas m = Ok m' \<and> entries_nest m'"
  using ts link(3)
proof (induction tas arbitrary: m)
  case (Cons ta tas)
  then obtain t name where t: "h_types h ta = Some t" "name_of t = Ok name" "plain name" by (meson list.set_intros(1))
  have "entries_nest (smap_insert name (html_link link (kind @ name) name) m)"
    using Cons.prems(2) link t by (intro entries_nest_insert link_balanced) simp_all
  with Cons.IH [OF Cons.prems(1)] t show ?case by simp
qed simp

definition html_toc_ok :: "heap \<Rightarrow> t_program \<Rightarrow> bool" where
  "html_toc_ok h p \<longleftrightarrow> plain (pr_name p) \<and> list_all (\<lambda>c. plain (co_name c)) (pr_consts p) \<and>
     list_all (\<lambda>ta. case h_types h ta of Some (Enum e) \<Rightarrow> plain (ty_name e) | _ \<Rightarrow> False) (pr_enums p) \<and>
     list_all (\<lambda>ta. case h_types h ta of Some (Typedef td) \<Rightarrow> plain (td_symbolic td) | _ \<Rightarrow> False) (pr_typedefs p) \<and>
     list_all (\<lambda>ta. case h_types h ta of Some (Struct st) \<Rightarrow> plain (ty_name st) | _ \<Rightarrow> False) (pr_objects p) \<and>
     list_all (\<lambda>ta. case h_types h ta of Some (Service sv) \<Rightarrow> plain (ty_name sv) \<and> list_all (\<lambda>fn. plain (fn_name fn)) (sv_functions sv)
       | _ \<Rightarrow> False) (pr_services p)"

lemma html_tocD:
  assumes "html_toc_ok h p"
  shows "plain (pr_name p)" "c \<in> set (pr_consts p) \<Longrightarrow> plain (co_name c)"
    "ta \<in> set (pr_enums p) \<Longrightarrow> \<exists>e. h_types h ta = Some (Enum e) \<and> plain (ty_name e)"
    "ta \<in> set (pr_typedefs p) \<Longrightarrow> \<exists>td. h_types h ta = Some (Typedef td) \<and> plain (td_symbolic td)"
    "ta \<in> set (pr_objects p) \<Longrightarrow> \<exists>st. h_types h ta = Some (Struct st) \<and> plain (ty_name st)"
    "ta \<in> set (pr_services p) \<Longrightarrow> \<exists>sv. h_types h ta = Some (Service sv) \<and> plain (ty_name sv) \<and> (\<forall>fn \<in> set (sv_functions sv). plain (fn_name fn))"
  using assms unfolding html_toc_ok_def list_all_iff
  by - (simp, simp, (elim conjE, drule (1) bspec, simp split: option.splits t_type_obj.splits)+)

lemma html_toc_weaker:
  assumes p: "html_program_ok n u h p"
  shows "html_toc_ok h p"
proof -
  have each: "case h_types h ta of Some (Enum e) \<Rightarrow> plain (ty_name e) | _ \<Rightarrow> False" if "html_enum_ok u h ta" for ta
    using that by (simp add: html_enum_ok_def split: option.splits t_type_obj.splits)
  have typedefs: "case h_types h ta of Some (Typedef td) \<Rightarrow> plain (td_symbolic td) | _ \<Rightarrow> False" if "html_typedef_ok n u h ta" for ta
    using that by (simp add: html_typedef_ok_def split: option.splits t_type_obj.splits)
  have objects: "case h_types h ta of Some (Struct st) \<Rightarrow> plain (ty_name st) | _ \<Rightarrow> False" if "html_struct_ok n u h ta" for ta
    using that by (elim html_structE) simp
  have all_services: "case h_types h ta of Some (Service sv) \<Rightarrow> plain (ty_name sv) \<and> list_all (\<lambda>fn. plain (fn_name fn)) (sv_functions sv)
       | _ \<Rightarrow> False" if "html_service_ok n u h ta" for ta
    using that by (elim html_serviceE) (simp add: html_function_ok_def list_all_iff)
  show ?thesis
    using p unfolding html_program_ok_def html_toc_ok_def
    by - (elim conjE, intro conjI, assumption,
      (erule list.pred_mono_strong, simp only: html_const_ok_def each typedefs objects all_services)+)
qed

lemma goes_toc_data_types:
  assumes p: "html_toc_ok h p" and link: "plain link"
  shows "goes u h pa entries_nest stk (toc_data_types link p) stk"
  unfolding toc_data_types_def
proof (rule goes_getsO)
  fix g assume g: "html_ok u h pa g"
  have kinds: "plain ''Enum_''" "plain ''Typedef_''" "plain ''Struct_''" by simp_all
  have "\<exists>m. toc_types h link ''Enum_'' enum_name (pr_enums p) [] = Ok m \<and> entries_nest m"
    by (rule toc_types_nest [OF link kinds(1)])
      (use html_tocD [OF p] in \<open>fastforce simp: entries_nest_def enum_name_def\<close>)+
  then obtain m where m: "toc_types h link ''Enum_'' enum_name (pr_enums p) [] = Ok m" "entries_nest m" by blast
  have "\<exists>m'. toc_types h link ''Typedef_'' symbolic_name (pr_typedefs p) m = Ok m' \<and> entries_nest m'"
    by (rule toc_types_nest [OF link kinds(2) m(2)])
      (use html_tocD [OF p] in \<open>fastforce simp: entries_nest_def symbolic_name_def\<close>)+
  then obtain m' where m': "toc_types h link ''Typedef_'' symbolic_name (pr_typedefs p) m = Ok m'" "entries_nest m'" by blast
  have "\<exists>m''. toc_types h link ''Struct_'' struct_name (pr_objects p) m' = Ok m'' \<and> entries_nest m''"
    by (rule toc_types_nest [OF link kinds(3) m'(2)])
      (use html_tocD [OF p] in \<open>fastforce simp: entries_nest_def struct_name_def\<close>)+
  with m m' g show "\<exists>v. bind_outcome (toc_types (gn_heap g) link ''Enum_'' enum_name (pr_enums p) []) (\<lambda>m.
       bind_outcome (toc_types (gn_heap g) link ''Typedef_'' symbolic_name (pr_typedefs p) m) (\<lambda>m.
         toc_types (gn_heap g) link ''Struct_'' struct_name (pr_objects p) m)) = Ok v \<and> entries_nest v"
    by auto
qed

lemma foldl_entries:
  "entries_nest m \<Longrightarrow> (\<And>x. x \<in> set xs \<Longrightarrow> balanced (html x)) \<Longrightarrow> entries_nest (foldl (\<lambda>m x. smap_insert (key x) (html x) m) m xs)"
  by (induction xs arbitrary: m) (auto intro: entries_nest_insert)

lemma goes_entries:
  assumes "entries_nest m"
  shows "goes u h pa anything stk (for_each m (\<lambda>(k, s). html_line s)) stk"
    and "goes u h pa anything stk (for_each m (\<lambda>(k, s). html_line (s @ ''<br/>''))) stk"
proof -
  have "reads stk s stk" "reads stk (s @ ''<br/>'') stk" if "(k, s) \<in> set m" for k s
    using assms that by (auto simp: entries_nest_def list_all_iff balanced_def end_of_tag_def)
  then show "goes u h pa anything stk (for_each m (\<lambda>(k, s). html_line s)) stk"
    "goes u h pa anything stk (for_each m (\<lambda>(k, s). html_line (s @ ''<br/>''))) stk"
    by (auto intro!: goes_for_each goes_line simp del: html_run_append)
qed

lemma goes_toc_service:
  assumes sv: "h_types h sa = Some (Service sv)" "plain (ty_name sv)" "\<forall>fn \<in> set (sv_functions sv). plain (fn_name fn)" and "plain fname"
  shows "goes u h pa anything stk (toc_service fname sa) stk"
proof -
  have entries: "goes u h pa anything stk (for_each (foldl (\<lambda>m fn. smap_insert (fn_name fn)
      (''<li>'' @ html_link link (''Fn_'' @ ty_name sv @ ''_'' @ fn_name fn) (fn_name fn) @ ''</li>'') m) [] (sv_functions sv))
      (\<lambda>(fn, html). html_line html)) stk" if "plain link" for link stk
    using that sv(2,3)
    by (intro goes_entries foldl_entries around_balanced link_balanced) (simp_all add: entries_nest_def)
  have name: "goes u h pa anything stk (html_line (html_link link (''Svc_'' @ ty_name sv) (ty_name sv) @ ''<br/>'')) stk"
    if "plain link" for link stk
    using that sv(2) by (intro goes_line) (simp add: html_link_reads end_of_tag_def)
  show ?thesis
    unfolding toc_service_def Let_def block.simps
    by (rule goes_type [OF sv(1)], unfold t_type_obj.case)
      (rule goes_steps goes_bind [OF goes_link [OF assms(4)]] name entries | assumption | (rule goes_tags, simp add: tag_simps))+
qed

lemma breaks_toc_row:
  assumes q: "h_programs h qa = Some q" and ok: "html_toc_ok h q"
  shows "breaks u h pa stk (generate_program_toc_row qa)"
proof -
  have name: "plain (pr_name q)" "plain (pr_name q @ ''.html'')" using html_tocD(1) [OF ok] by simp_all
  have sv: "goes u h pa anything stk (for_each (pr_services q) (toc_service (pr_name q @ ''.html''))) stk" for stk
    by (rule goes_for_each) (use html_tocD(6) [OF ok] goes_toc_service [OF _ _ _ name(2)] in blast)
  have data_types: "goes u h pa anything stk (bindA (toc_data_types link q) (\<lambda>data_types.
      for_each data_types (\<lambda>(name, html). html_line (html @ ''<br/>'')))) stk" if "plain link" for link stk
    using that by (intro goes_bind [OF goes_toc_data_types [OF ok]] goes_entries)
  have constants: "goes u h pa anything stk (for_each (toc_constants link (pr_consts q))
      (\<lambda>(name, html). html_line (html @ ''<br/>''))) stk" if "plain link" for link stk
    unfolding toc_constants_def using that html_tocD(2) [OF ok]
    by (intro goes_entries foldl_entries around_balanced link_balanced) (simp_all add: entries_nest_def)
  have last: "html_run (''</code></td>'' @ [CHR 0x0A] @ ''</tr>'') (''td'' # stk, None) = None" for stk by (simp add: end_of_tag_def)
  show ?thesis
    unfolding generate_program_toc_row_def Let_def block.simps
    by (rule breaks_program [OF q], rule breaks_then, rule goes_emit, simp add: tag_simps name, rule breaks_then, rule sv,
        rule breaks_then, rule goes_emit, simp add: tag_simps, rule breaks_then, rule goes_bind [OF goes_link [OF name(2)]],
        rule data_types, assumption, rule breaks_then, rule goes_emit, simp add: tag_simps, rule breaks_then,
        rule goes_bind [OF goes_link [OF name(2)]], rule constants, assumption)
      (rule breaks_before [OF breaks_emit [OF last] goes_return], rule TrueI)
qed

section \<open>The page\<close>

text \<open>What a file is when its writer has closed it: the last of the files, with the text appended since it was opened.\<close>

lemma html_open_run: "html_open name g = (Ok (), g\<lparr>ht_current_file := name, ht_out := ''''\<rparr>)"
  by (simp add: html_open_def modify_def)

lemma html_close_run:
  "html_ok u h pa g \<Longrightarrow> h_programs h pa = Some p \<Longrightarrow>
     html_close g = (Ok (), g\<lparr>gn_files := gn_files g @ [(get_out_dir p (gn_out_dir_base g) @ ht_current_file g, ht_out g)]\<rparr>)"
  by (simp add: html_close_def this_program_def modify_def run_simps)

lemma breaks_page_body:
  assumes p: "h_programs h pa = Some p" "html_program_ok n u h p" "doc_nested u p" and pd: "\<And>d. plain (pd d)"
  shows "breaks u h pa [''div'', ''body'', ''html''] (block [print_doc (has_doc p) (doc p), generate_program_toc, html_definitions pd n p,
     html_line ''</div></body></html>''])"
proof -
  let ?stk = "[''div'', ''body'', ''html'']"
  have row: "breaks u h pa stk (bindA (gets gn_program) generate_program_toc_row)" for stk
    by (rule breaks_later [where P = "\<lambda>x. x = pa"], rule goes_gets) (auto intro: breaks_toc_row [OF p(1) html_toc_weaker [OF p(2)]])
  have toc: "breaks u h pa ?stk generate_program_toc"
    unfolding generate_program_toc_def block.simps toc_head_def table_class_def
    by (rule breaks_then, rule goes_line, simp add: tag_simps, rule breaks_before [OF row])
      (rule goes_seq, rule goes_line [where stk = "[''table'']"], simp add: tag_simps, rule goes_return, rule TrueI)
  have rest: "goes u h pa anything ?stk (seqA (html_definitions pd n p) (seqA (html_line ''</div></body></html>'') (returnA ()))) []"
    by (rule goes_seq [OF goes_definitions [OF p(1,2) pd]], rule goes_seq, rule goes_line, simp add: tag_simps, rule goes_return, rule TrueI)
  show ?thesis
    unfolding block.simps by (rule breaks_then [OF goes_print_doc [OF p(3)]], rule breaks_before [OF toc rest])
qed

lemma html_line_run: "html_line s g = (Ok (), g\<lparr>ht_out := ht_out g @ s @ [CHR 0x0A]\<rparr>)"
  by (simp add: html_line_def html_emit_def modify_def)

definition style_link :: string where
  "style_link = ''<link href='' @ in_quotes ''style.css'' @ '' rel='' @ in_quotes ''stylesheet'' @ '' type='' @ in_quotes ''text/css'' @ ''/>''"

abbreviation with_newlines :: "string list \<Rightarrow> string" where
  "with_newlines ls \<equiv> concat (map (\<lambda>s. s @ [CHR 0x0A]) ls)"

lemma style_run: "\<not> ht_standalone g \<Longrightarrow> generate_style_tag css g = (Ok (), g\<lparr>ht_out := ht_out g @ style_link @ [CHR 0x0A]\<rparr>)"
  by (simp add: generate_style_tag_def html_line_run style_link_def run_simps)

lemma page_head_run:
  "\<not> ht_standalone g \<Longrightarrow>
     block [html_line a, html_line b, html_line c, html_line d, html_line e, generate_style_tag css, html_line x, html_line y, html_line z] g =
       (Ok (), g\<lparr>ht_out := ht_out g @ with_newlines [a, b, c, d, e, style_link, x, y, z]\<rparr>)"
  by (simp add: html_line_run style_run run_simps)

lemma page_head_reads:
  assumes "plain name"
  shows "reads [] (with_newlines
      [''<!DOCTYPE html PUBLIC '' @ in_quotes ''-//W3C//DTD XHTML 1.0 Strict//EN'',
       ''    '' @ in_quotes ''http://www.w3.org/TR/xhtml1/DTD/xhtml1-strict.dtd'' @ ''>'',
       ''<html xmlns='' @ in_quotes ''http://www.w3.org/1999/xhtml'' @ ''>'',
       ''<head>'',
       ''<meta http-equiv='' @ in_quotes ''Content-Type'' @ '' content='' @ in_quotes ''text/html;charset=utf-8'' @ '' />'',
       style_link,
       ''<title>Thrift module: '' @ name @ ''</title></head><body>'',
       ''<div class='' @ in_quotes ''container-fluid'' @ ''>'',
       ''<h1>Thrift module: '' @ name @ ''</h1>'']) [''div'', ''body'', ''html'']"
  using assms by (simp add: in_quotes_def end_of_tag_def style_link_def)

lemma page_head:
  assumes p: "plain (pr_name p)" and g: "\<not> ht_standalone g"
  shows "\<exists>c. html_page_head css p g = (Ok (), g\<lparr>ht_out := ht_out g @ c\<rparr>) \<and> reads [] c [''div'', ''body'', ''html'']"
  unfolding html_page_head_def page_head_run [OF g] using page_head_reads [OF p] by blast



end
