(* ===== verification/Html_Index.thy ===== *)
theory Html_Index
  imports Html_Pages
begin

text \<open>
  The index of the HTML generator: its rows are those of the programs that can be reached through includes, each path
  once, and the walk returns although the includes may form cycles.
\<close>

section \<open>The walk over the includes\<close>

definition path_at :: "heap \<Rightarrow> addr \<Rightarrow> string option" where
  "path_at h qa = map_option pr_path (h_programs h qa)"

definition includes_at :: "heap \<Rightarrow> addr \<Rightarrow> addr list" where
  "includes_at h qa = (case h_programs h qa of None \<Rightarrow> [] | Some q \<Rightarrow> pr_includes q)"

text \<open>A set of programs closed under includes, whose rows can be written.\<close>

definition indexable :: "heap \<Rightarrow> addr set \<Rightarrow> bool" where
  "indexable h R \<longleftrightarrow> finite R \<and>
     (\<forall>qa \<in> R. (case h_programs h qa of None \<Rightarrow> False | Some q \<Rightarrow> html_toc_ok h q) \<and> set (includes_at h qa) \<subseteq> R)"

lemma indexableD:
  "indexable h R \<Longrightarrow> qa \<in> R \<Longrightarrow> \<exists>q. h_programs h qa = Some q \<and> html_toc_ok h q \<and> set (pr_includes q) \<subseteq> R"
  by (auto simp: indexable_def includes_at_def split: option.splits)

text \<open>The paths of the set that have no row yet.\<close>

definition paths_left :: "heap \<Rightarrow> addr set \<Rightarrow> addr list \<Rightarrow> nat" where
  "paths_left h R finished = card (path_at h ` R - path_at h ` set finished)"

lemma paths_left_mono: "finite R \<Longrightarrow> paths_left h R (finished @ new) \<le> paths_left h R finished"
  unfolding paths_left_def by (intro card_mono) auto

lemma paths_left_less:
  "finite R \<Longrightarrow> qa \<in> R \<Longrightarrow> path_at h qa \<notin> path_at h ` set finished \<Longrightarrow> paths_left h R (finished @ [qa]) < paths_left h R finished"
  unfolding paths_left_def by (intro psubset_card_mono) auto

lemma same_path_found:
  assumes q: "h_programs h qa = Some q" and R: "indexable h R" "set finished \<subseteq> R"
  shows "same_path h q finished = Ok (path_at h qa \<in> path_at h ` set finished)"
  using R(2)
proof (induction finished)
  case (Cons x xs)
  then obtain p where "h_programs h x = Some p" using indexableD [OF R(1), of x] by auto
  with Cons q show ?case by (auto simp: path_at_def)
qed simp

text \<open>The programs added to the list: paths that are new, closed under includes, among them the given ones.\<close>

definition covers :: "heap \<Rightarrow> addr list \<Rightarrow> addr list \<Rightarrow> addr set \<Rightarrow> bool" where
  "covers h finished new qs \<longleftrightarrow> distinct (map (path_at h) (finished @ new)) \<and>
     path_at h ` (qs \<union> (\<Union>x \<in> set new. set (includes_at h x))) \<subseteq> path_at h ` set (finished @ new)"

lemma coversD:
  assumes "covers h finished new qs"
  shows "distinct (map (path_at h) (finished @ new))"
    and "x \<in> set new \<Longrightarrow> path_at h ` set (includes_at h x) \<subseteq> path_at h ` set (finished @ new)"
  using assms unfolding covers_def by (simp, blast)

lemma covers_append:
  assumes "covers h finished new1 qs" "covers h (finished @ new1) new2 qs'"
  shows "covers h finished (new1 @ new2) (qs \<union> qs')"
proof -
  let ?inc = "\<lambda>new. \<Union>x \<in> set new. set (includes_at h x)"
  have "path_at h ` (qs \<union> ?inc new1) \<subseteq> path_at h ` set (finished @ new1)" using assms(1) by (simp only: covers_def)
  also have "\<dots> \<subseteq> path_at h ` set (finished @ new1 @ new2)" by (intro image_mono) auto
  finally have "path_at h ` (qs \<union> ?inc new1) \<union> path_at h ` (qs' \<union> ?inc new2) \<subseteq> path_at h ` set (finished @ new1 @ new2)"
    using assms(2) by (simp only: covers_def append_assoc Un_subset_iff)
  moreover have "path_at h ` ((qs \<union> qs') \<union> ?inc (new1 @ new2)) = path_at h ` (qs \<union> ?inc new1) \<union> path_at h ` (qs' \<union> ?inc new2)"
    by (simp add: image_Un ac_simps)
  ultimately show ?thesis using assms(2) by (simp only: covers_def append_assoc)
qed

definition walks :: "bool \<Rightarrow> heap \<Rightarrow> addr \<Rightarrow> addr set \<Rightarrow> addr list \<Rightarrow> addr set \<Rightarrow> (html_gen, addr list) action \<Rightarrow> bool" where
  "walks u h pa R finished qs m \<longleftrightarrow> (\<forall>g. html_ok u h pa g \<longrightarrow>
     (\<exists>new g'. m g = (Ok (finished @ new), g') \<and> for_each new generate_program_toc_row g = (Ok (), g') \<and> html_ok u h pa g' \<and>
        set new \<subseteq> R \<and> covers h finished new qs))"

lemma walksE:
  assumes "walks u h pa R finished qs m" "html_ok u h pa g"
  obtains new g' where "m g = (Ok (finished @ new), g')" "for_each new generate_program_toc_row g = (Ok (), g')" "html_ok u h pa g'"
    "set new \<subseteq> R" "covers h finished new qs"
  using assms unfolding walks_def by blast

lemma for_each_append: "for_each (xs @ ys) f = seqA (for_each xs f) (for_each ys f)"
  by (induction xs) (auto simp: seqA_def bindA_def returnA_def fun_eq_iff split: prod.splits outcome.splits)

lemma walks_fold:
  assumes R: "indexable h R" and qs: "set qs \<subseteq> R" "set finished \<subseteq> R" "distinct (map (path_at h) finished)" "paths_left h R finished < n"
    and rows: "\<And>qa finished. qa \<in> R \<Longrightarrow> set finished \<subseteq> R \<Longrightarrow> distinct (map (path_at h) finished) \<Longrightarrow> paths_left h R finished < n \<Longrightarrow>
      walks u h pa R finished {qa} (f qa finished)"
  shows "walks u h pa R finished (set qs) (fold_each qs f finished)"
  using qs
proof (induction qs arbitrary: finished)
  case Nil
  then show ?case by (simp add: walks_def covers_def returnA_def)
next
  case (Cons q qs)
  show ?case
    unfolding walks_def
  proof (intro allI impI)
    fix g assume g: "html_ok u h pa g"
    have "walks u h pa R finished {q} (f q finished)" using Cons.prems by (intro rows) simp_all
    then obtain new1 g1 where 1: "f q finished g = (Ok (finished @ new1), g1)" "for_each new1 generate_program_toc_row g = (Ok (), g1)"
        "html_ok u h pa g1" "set new1 \<subseteq> R" "covers h finished new1 {q}" using g by (rule walksE)
    have "finite R" using R by (simp add: indexable_def)
    then have less: "paths_left h R (finished @ new1) < n" using paths_left_mono Cons.prems(4) le_less_trans by blast
    have "walks u h pa R (finished @ new1) (set qs) (fold_each qs f (finished @ new1))"
      using Cons.prems 1(4,5) less by (intro Cons.IH) (simp_all add: covers_def)
    then obtain new2 g2 where 2: "fold_each qs f (finished @ new1) g1 = (Ok ((finished @ new1) @ new2), g2)"
        "for_each new2 generate_program_toc_row g1 = (Ok (), g2)" "html_ok u h pa g2" "set new2 \<subseteq> R" "covers h (finished @ new1) new2 (set qs)"
      using 1(3) by (rule walksE)
    have "covers h finished (new1 @ new2) (set (q # qs))" using covers_append [OF 1(5) 2(5)] by simp
    with 1 2 show "\<exists>new g'. fold_each (q # qs) f finished g = (Ok (finished @ new), g') \<and> for_each new generate_program_toc_row g = (Ok (), g') \<and>
        html_ok u h pa g' \<and> set new \<subseteq> R \<and> covers h finished new (set (q # qs))"
      by (intro exI [of _ "new1 @ new2"] exI [of _ g2]) (simp add: for_each_append seqA_def bindA_def)
  qed
qed

text \<open>One call: a program whose path is not in the list is added with what its includes add, another one is skipped.\<close>

lemma rows_step:
  assumes "html_ok u h pa g" "h_programs h qa = Some q" "indexable h R" "set finished \<subseteq> R"
  shows "generate_program_toc_rows (Suc n) qa finished g =
     (if path_at h qa \<in> path_at h ` set finished then (Ok finished, g)
      else seqA (generate_program_toc_row qa) (fold_each (pr_includes q) (generate_program_toc_rows n) (finished @ [qa])) g)"
  using assms(1,2) same_path_found [OF assms(2-4)] by (simp add: program_here_def getsO_def bindA_def returnA_def)

lemma rows_added:
  assumes g: "html_ok u h pa g" and R: "indexable h R" "qa \<in> R" "set finished \<subseteq> R" "distinct (map (path_at h) finished)"
    and new: "path_at h qa \<notin> path_at h ` set finished" and fuel: "paths_left h R finished < Suc n"
    and rows: "\<And>qa finished. qa \<in> R \<Longrightarrow> set finished \<subseteq> R \<Longrightarrow> distinct (map (path_at h) finished) \<Longrightarrow> paths_left h R finished < n \<Longrightarrow>
      walks u h pa R finished {qa} (generate_program_toc_rows n qa finished)"
  shows "\<exists>new g'. generate_program_toc_rows (Suc n) qa finished g = (Ok (finished @ qa # new), g') \<and>
     for_each (qa # new) generate_program_toc_row g = (Ok (), g') \<and> html_ok u h pa g' \<and> set new \<subseteq> R \<and> covers h finished (qa # new) {qa}"
proof -
  from indexableD [OF R(1,2)] obtain q where q: "h_programs h qa = Some q" "html_toc_ok h q" "set (pr_includes q) \<subseteq> R" by blast
  obtain v g1 where "generate_program_toc_row qa g = (Ok v, g1)" "html_ok u h pa g1"
    by (rule breaksE [OF breaks_toc_row [OF q(1,2), where stk = "[]"] g])
  then have row: "generate_program_toc_row qa g = (Ok (), g1)" "html_ok u h pa g1" by simp_all
  have "finite R" using R by (simp add: indexable_def)
  from paths_left_less [OF this R(2) new] fuel have less: "paths_left h R (finished @ [qa]) < n" by simp
  have "walks u h pa R (finished @ [qa]) (set (pr_includes q)) (fold_each (pr_includes q) (generate_program_toc_rows n) (finished @ [qa]))"
    by (rule walks_fold [OF R(1) q(3) _ _ less rows]) (use R new in auto)
  then obtain new g2 where rest: "fold_each (pr_includes q) (generate_program_toc_rows n) (finished @ [qa]) g1 = (Ok ((finished @ [qa]) @ new), g2)"
      "for_each new generate_program_toc_row g1 = (Ok (), g2)" "html_ok u h pa g2" "set new \<subseteq> R" "covers h (finished @ [qa]) new (set (pr_includes q))"
    using row(2) by (rule walksE)
  have "covers h finished (qa # new) {qa}" using rest(5) q(1) by (auto simp: covers_def includes_at_def)
  with new row rest show ?thesis
    unfolding rows_step [OF g q(1) R(1,3)] by (intro exI [of _ new] exI [of _ g2]) (simp add: seqA_def bindA_def)
qed

lemma walks_rows:
  assumes R: "indexable h R"
  shows "qa \<in> R \<Longrightarrow> set finished \<subseteq> R \<Longrightarrow> distinct (map (path_at h) finished) \<Longrightarrow> paths_left h R finished < n \<Longrightarrow>
    walks u h pa R finished {qa} (generate_program_toc_rows n qa finished)"
proof (induction n arbitrary: qa finished)
  case (Suc n)
  show ?case
    unfolding walks_def
  proof (intro allI impI)
    fix g assume g: "html_ok u h pa g"
    from indexableD [OF R Suc.prems(1)] obtain q where q: "h_programs h qa = Some q" by blast
    show "\<exists>new g'. generate_program_toc_rows (Suc n) qa finished g = (Ok (finished @ new), g') \<and>
        for_each new generate_program_toc_row g = (Ok (), g') \<and> html_ok u h pa g' \<and> set new \<subseteq> R \<and> covers h finished new {qa}"
    proof (cases "path_at h qa \<in> path_at h ` set finished")
      case True
      with Suc.prems(3) g show ?thesis
        unfolding rows_step [OF g q R Suc.prems(2)] by (intro exI [of _ "[]"] exI [of _ g]) (simp add: returnA_def covers_def)
    next
      case False
      have "\<exists>new g'. generate_program_toc_rows (Suc n) qa finished g = (Ok (finished @ qa # new), g') \<and>
          for_each (qa # new) generate_program_toc_row g = (Ok (), g') \<and> html_ok u h pa g' \<and> set new \<subseteq> R \<and> covers h finished (qa # new) {qa}"
        by (rule rows_added [OF g R Suc.prems(1-3) False Suc.prems(4)]) (rule Suc.IH)
      then show ?thesis
      proof (elim exE conjE)
        fix new g' assume "generate_program_toc_rows (Suc n) qa finished g = (Ok (finished @ qa # new), g')"
          "for_each (qa # new) generate_program_toc_row g = (Ok (), g')" "html_ok u h pa g'" "set new \<subseteq> R" "covers h finished (qa # new) {qa}"
        then show ?thesis using Suc.prems(1) by (intro exI [of _ "qa # new"] exI [of _ g'] conjI) simp_all
      qed
    qed
  qed
qed simp

text \<open>
  C17: For a program in a finite set of programs closed under includes, and with more fuel than the set has paths, the
  walk over the includes returns, however the includes are connected: it writes exactly the rows of the programs it
  lists, one row for each path, the program itself first, and every include of a listed program is listed, by its path.
\<close>

theorem html_index_rows:
  assumes new: "new_html_generator h pa parsed_options = Ok g" and R: "indexable h R" "pa \<in> R"
    and fuel: "card (path_at h ` R) < n"
  shows "\<exists>listing g'. generate_program_toc_rows n pa [] g = (Ok (pa # listing), g') \<and>
     for_each (pa # listing) generate_program_toc_row g = (Ok (), g') \<and> distinct (map (path_at h) (pa # listing)) \<and>
     (\<forall>x \<in> set (pa # listing). path_at h ` set (includes_at h x) \<subseteq> path_at h ` set (pa # listing))"
proof -
  have ok: "html_ok (ht_unsafe g) h pa g" using new by (rule new_html_ok)
  obtain m where m: "n = Suc m" using fuel by (cases n) auto
  have "\<exists>new g'. generate_program_toc_rows (Suc m) pa [] g = (Ok ([] @ pa # new), g') \<and>
     for_each (pa # new) generate_program_toc_row g = (Ok (), g') \<and> html_ok (ht_unsafe g) h pa g' \<and> set new \<subseteq> R \<and> covers h [] (pa # new) {pa}"
    by (rule rows_added [OF ok R(1,2) _ _ _ _ walks_rows [OF R(1)]]) (use fuel m in \<open>simp_all add: paths_left_def\<close>)
  then obtain listing g' where w: "generate_program_toc_rows n pa [] g = (Ok (pa # listing), g')"
      "for_each (pa # listing) generate_program_toc_row g = (Ok (), g')" "covers h [] (pa # listing) {pa}"
    unfolding m append_Nil by blast
  from coversD [OF w(3)] w(1,2) show ?thesis unfolding append_Nil by blast
qed

text \<open>The two programs that include each other: each has a row.\<close>

theorem html_index_rows_witness:
  "\<exists>g g' listing. new_html_generator html_demo_heap 0 [] = Ok g \<and> generate_program_toc_rows 3 0 [] g = (Ok (0 # listing), g') \<and>
     1 \<in> set listing \<and> distinct (map (path_at html_demo_heap) (0 # listing))"
proof -
  let ?h = html_demo_heap
  have paths: "path_at ?h 0 = Some ''a.thrift''" "path_at ?h 1 = Some ''b.thrift''" "includes_at ?h 0 = [1]" "includes_at ?h 1 = [0]"
    by (simp_all add: path_at_def includes_at_def html_demo_at del: One_nat_def) (simp_all add: html_demo_parts)
  have R: "indexable ?h {0, 1}"
    using html_toc_weaker [OF html_demo_ok] paths
    by (simp add: indexable_def html_demo_at del: One_nat_def) (simp add: html_toc_ok_def html_demo_parts)
  obtain g where g: "new_html_generator ?h 0 [] = Ok g"
    by (simp add: new_html_generator_def new_generator_def html_demo_at smap_find_def t_generator.defs)
  have "card (path_at ?h ` {0, 1}) < 3" by (simp add: paths del: One_nat_def)
  from html_index_rows [OF g R _ this] obtain listing g' where w: "generate_program_toc_rows 3 0 [] g = (Ok (0 # listing), g')"
      "distinct (map (path_at ?h) (0 # listing))" "path_at ?h ` set (includes_at ?h 0) \<subseteq> path_at ?h ` set (0 # listing)"
    by auto
  from w(3) obtain x where "x \<in> set listing" "path_at ?h x = Some ''b.thrift''" by (auto simp: paths simp del: One_nat_def)
  moreover from this have "x = 1"
    by (auto simp: path_at_def html_demo_heap_def html_demo_program_def new_program_named_def split: if_splits)
  ultimately show ?thesis using g w(1,2) by blast
qed

end
