(* ===== verification/Fb_Base.thy ===== *)
theory Fb_Base
  imports Cpp_Library
begin

text \<open>
  The base class of monitored servers (\<^verbatim>\<open>contrib/fb303/cpp/FacebookBase.cpp\<close>): options and counters. The
  methods are modelled twice, as calls that run alone and, for \<^verbatim>\<open>incrementCounter\<close>, as the steps of
  concurrent threads between which other threads run. The read-write lock is not part of the sources: when it lets a
  thread in is a parameter of the steps.
\<close>

section \<open>Calls that run alone\<close>

record facebook_base =
  fb_name :: string
  fb_aliveSince :: int
  fb_options :: "(string \<times> string) list"
  fb_counters :: "(string \<times> int) list"

definition new_facebook_base :: "string \<Rightarrow> int \<Rightarrow> facebook_base" where
  "new_facebook_base name now = \<lparr>fb_name = name, fb_aliveSince = to_int64 now, fb_options = [], fb_counters = []\<rparr>"

definition setOption :: "string \<Rightarrow> string \<Rightarrow> facebook_base \<Rightarrow> facebook_base" where
  "setOption key v b = b\<lparr>fb_options := smap_set key v (fb_options b)\<rparr>"

text \<open>Indexing a \<^verbatim>\<open>std::map\<close> inserts the missing key with the empty string.\<close>

definition getOption :: "string \<Rightarrow> facebook_base \<Rightarrow> string \<times> facebook_base" where
  "getOption key b =
     (case smap_find (fb_options b) key of
        Some v \<Rightarrow> (v, b)
      | None \<Rightarrow> ('''', setOption key '''' b))"

definition getOptions :: "facebook_base \<Rightarrow> (string \<times> string) list" where
  "getOptions b = fb_options b"

text \<open>Signed overflow is undefined.\<close>

definition int64_range :: "int \<Rightarrow> bool" where
  "int64_range i \<longleftrightarrow> - (2 ^ 63) \<le> i \<and> i < 2 ^ 63"

definition checked64 :: "int \<Rightarrow> int outcome" where
  "checked64 i = (if int64_range i then Ok i else Undefined)"

definition incrementCounter :: "string \<Rightarrow> int \<Rightarrow> (facebook_base, int) action" where
  "incrementCounter key amount =
     bindA (getsO (\<lambda>b. case smap_find (fb_counters b) key of None \<Rightarrow> Ok amount | Some v \<Rightarrow> checked64 (v + amount))) (\<lambda>count.
       seqA (modify (\<lambda>b. b\<lparr>fb_counters := smap_set key count (fb_counters b)\<rparr>)) (returnA count))"

definition setCounter :: "string \<Rightarrow> int \<Rightarrow> facebook_base \<Rightarrow> facebook_base" where
  "setCounter key v b = b\<lparr>fb_counters := smap_set key v (fb_counters b)\<rparr>"

definition getCounters :: "facebook_base \<Rightarrow> (string \<times> int) list \<Rightarrow> (string \<times> int) list" where
  "getCounters b ret = foldl (\<lambda>m (k, v). smap_set k v m) ret (fb_counters b)"

definition getCounter :: "string \<Rightarrow> facebook_base \<Rightarrow> int" where
  "getCounter key b = (case smap_find (fb_counters b) key of Some v \<Rightarrow> v | None \<Rightarrow> 0)"

section \<open>Threads\<close>

text \<open>
  Where a thread stands in \<^verbatim>\<open>incrementCounter\<close>. The flag tells whether it holds the lock of the map for
  writing; the number is the value it will return.
\<close>

datatype pc =
    Calling
  | Finding | Absent | Missed
  | Finding_again | Inserting | Inserted int
  | At_cell bool | Locked bool | Loaded bool int | Stored bool int | Unlocked bool int
  | Returned int
  | Overflowed

record race =
  rc_counters :: "string \<rightharpoonup> int"
  rc_readers :: "nat set"
  rc_writer :: "nat option"
  rc_cell :: "string \<Rightarrow> nat option"
  rc_pc :: "nat \<Rightarrow> pc"

definition release_map :: "bool \<Rightarrow> nat \<Rightarrow> race \<Rightarrow> race" where
  "release_map w t s = (if w then s\<lparr>rc_writer := None\<rparr> else s\<lparr>rc_readers := rc_readers s - {t}\<rparr>)"

abbreviation goes :: "nat \<Rightarrow> pc \<Rightarrow> race \<Rightarrow> race" where
  "goes t p s \<equiv> s\<lparr>rc_pc := (rc_pc s)(t := p)\<rparr>"

text \<open>
  One step of thread \<open>t\<close>, which adds \<open>a\<close> to the counter \<open>k\<close>. \<open>rd R W\<close> and \<open>wr R W\<close> say when the lock lets a
  reader or a writer in while the threads \<open>R\<close> hold it for reading and \<open>W\<close> for writing.
\<close>

inductive counter_step :: "(nat set \<Rightarrow> nat option \<Rightarrow> bool) \<Rightarrow> (nat set \<Rightarrow> nat option \<Rightarrow> bool) \<Rightarrow> nat \<Rightarrow> string \<Rightarrow> int \<Rightarrow> race \<Rightarrow> race \<Rightarrow> bool"
  for rd wr t k a where
  acquire_read: "rc_pc s t = Calling \<Longrightarrow> rd (rc_readers s) (rc_writer s) \<Longrightarrow>
    counter_step rd wr t k a s (goes t Finding (s\<lparr>rc_readers := insert t (rc_readers s)\<rparr>))"
| find_some: "rc_pc s t = Finding \<Longrightarrow> k \<in> dom (rc_counters s) \<Longrightarrow> counter_step rd wr t k a s (goes t (At_cell False) s)"
| find_none: "rc_pc s t = Finding \<Longrightarrow> k \<notin> dom (rc_counters s) \<Longrightarrow> counter_step rd wr t k a s (goes t Absent s)"
| release_read: "rc_pc s t = Absent \<Longrightarrow> counter_step rd wr t k a s (goes t Missed (release_map False t s))"
| acquire_write: "rc_pc s t = Missed \<Longrightarrow> wr (rc_readers s) (rc_writer s) \<Longrightarrow>
    counter_step rd wr t k a s (goes t Finding_again (s\<lparr>rc_writer := Some t\<rparr>))"
| find_again_some: "rc_pc s t = Finding_again \<Longrightarrow> k \<in> dom (rc_counters s) \<Longrightarrow> counter_step rd wr t k a s (goes t (At_cell True) s)"
| find_again_none: "rc_pc s t = Finding_again \<Longrightarrow> k \<notin> dom (rc_counters s) \<Longrightarrow> counter_step rd wr t k a s (goes t Inserting s)"
| insert_amount: "rc_pc s t = Inserting \<Longrightarrow>
    counter_step rd wr t k a s (goes t (Inserted a) (s\<lparr>rc_counters := (rc_counters s)(k \<mapsto> a)\<rparr>))"
| return_amount: "rc_pc s t = Inserted c \<Longrightarrow> counter_step rd wr t k a s (goes t (Returned c) (release_map True t s))"
| acquire_cell: "rc_pc s t = At_cell w \<Longrightarrow> wr {} (rc_cell s k) \<Longrightarrow>
    counter_step rd wr t k a s (goes t (Locked w) (s\<lparr>rc_cell := (rc_cell s)(k := Some t)\<rparr>))"
| load: "rc_pc s t = Locked w \<Longrightarrow> rc_counters s k = Some v \<Longrightarrow> int64_range (v + a) \<Longrightarrow>
    counter_step rd wr t k a s (goes t (Loaded w (v + a)) s)"
| overflow: "rc_pc s t = Locked w \<Longrightarrow> rc_counters s k = Some v \<Longrightarrow> \<not> int64_range (v + a) \<Longrightarrow>
    counter_step rd wr t k a s (goes t Overflowed s)"
| store: "rc_pc s t = Loaded w c \<Longrightarrow>
    counter_step rd wr t k a s (goes t (Stored w c) (s\<lparr>rc_counters := (rc_counters s)(k \<mapsto> c)\<rparr>))"
| release_cell: "rc_pc s t = Stored w c \<Longrightarrow>
    counter_step rd wr t k a s (goes t (Unlocked w c) (s\<lparr>rc_cell := (rc_cell s)(k := None)\<rparr>))"
| return_count: "rc_pc s t = Unlocked w c \<Longrightarrow> counter_step rd wr t k a s (goes t (Returned c) (release_map w t s))"

text \<open>The threads \<open>0, 1, \<dots>\<close> with the keys and amounts they were called with, started on the counters \<open>c0\<close>.\<close>

definition race_start :: "(string \<rightharpoonup> int) \<Rightarrow> race" where
  "race_start c0 = \<lparr>rc_counters = c0, rc_readers = {}, rc_writer = None, rc_cell = (\<lambda>_. None), rc_pc = (\<lambda>_. Calling)\<rparr>"

inductive race_reachable ::
  "(nat set \<Rightarrow> nat option \<Rightarrow> bool) \<Rightarrow> (nat set \<Rightarrow> nat option \<Rightarrow> bool) \<Rightarrow> (string \<times> int) list \<Rightarrow> (string \<rightharpoonup> int) \<Rightarrow> race \<Rightarrow> bool"
  for rd wr calls c0 where
  start: "race_reachable rd wr calls c0 (race_start c0)"
| step: "race_reachable rd wr calls c0 s \<Longrightarrow> t < length calls \<Longrightarrow>
    counter_step rd wr t (fst (calls ! t)) (snd (calls ! t)) s s' \<Longrightarrow> race_reachable rd wr calls c0 s'"

section \<open>No increment is lost\<close>

lemma release_map_simps [simp]:
  "rc_counters (release_map w t s) = rc_counters s" "rc_pc (release_map w t s) = rc_pc s" "rc_cell (release_map w t s) = rc_cell s"
  by (simp_all add: release_map_def)


text \<open>
  What a read-write lock promises: a reader is let in only while nobody writes, a writer only while nobody
  holds the lock; and whoever asks for a free lock gets it.
\<close>

definition lock_excludes :: "(nat set \<Rightarrow> nat option \<Rightarrow> bool) \<Rightarrow> (nat set \<Rightarrow> nat option \<Rightarrow> bool) \<Rightarrow> bool" where
  "lock_excludes rd wr \<longleftrightarrow> (\<forall>R W. rd R W \<longrightarrow> W = None) \<and> (\<forall>R W. wr R W \<longrightarrow> R = {} \<and> W = None)"

definition lock_grants :: "(nat set \<Rightarrow> nat option \<Rightarrow> bool) \<Rightarrow> (nat set \<Rightarrow> nat option \<Rightarrow> bool) \<Rightarrow> bool" where
  "lock_grants rd wr \<longleftrightarrow> rd {} None \<and> wr {} None"

fun holds_read :: "pc \<Rightarrow> bool" where
  "holds_read Finding = True"
| "holds_read Absent = True"
| "holds_read (At_cell w) = (\<not> w)"
| "holds_read (Locked w) = (\<not> w)"
| "holds_read (Loaded w c) = (\<not> w)"
| "holds_read (Stored w c) = (\<not> w)"
| "holds_read (Unlocked w c) = (\<not> w)"
| "holds_read _ = False"

fun holds_write :: "pc \<Rightarrow> bool" where
  "holds_write Finding_again = True"
| "holds_write Inserting = True"
| "holds_write (Inserted c) = True"
| "holds_write (At_cell w) = w"
| "holds_write (Locked w) = w"
| "holds_write (Loaded w c) = w"
| "holds_write (Stored w c) = w"
| "holds_write (Unlocked w c) = w"
| "holds_write _ = False"

fun holds_cell :: "pc \<Rightarrow> bool" where
  "holds_cell (Locked w) = True"
| "holds_cell (Loaded w c) = True"
| "holds_cell (Stored w c) = True"
| "holds_cell _ = False"

fun applied :: "pc \<Rightarrow> bool" where
  "applied (Inserted c) = True"
| "applied (Stored w c) = True"
| "applied (Unlocked w c) = True"
| "applied (Returned c) = True"
| "applied _ = False"

fun knows_key :: "pc \<Rightarrow> bool" where
  "knows_key (At_cell w) = True"
| "knows_key (Locked w) = True"
| "knows_key (Loaded w c) = True"
| "knows_key p = applied p"

definition contribution :: "(string \<times> int) list \<Rightarrow> (nat \<Rightarrow> pc) \<Rightarrow> string \<Rightarrow> nat \<Rightarrow> int" where
  "contribution calls pcs k t = (if fst (calls ! t) = k \<and> applied (pcs t) then snd (calls ! t) else 0)"

definition counted :: "(string \<times> int) list \<Rightarrow> (string \<rightharpoonup> int) \<Rightarrow> race \<Rightarrow> string \<Rightarrow> int" where
  "counted calls c0 s k = (case c0 k of None \<Rightarrow> 0 | Some v \<Rightarrow> v) + (\<Sum>t<length calls. contribution calls (rc_pc s) k t)"

text \<open>The invariant: who holds which lock, what a thread knows, and what the counters hold.\<close>

definition locks_inv :: "(string \<times> int) list \<Rightarrow> race \<Rightarrow> bool" where
  "locks_inv calls s \<longleftrightarrow>
     (\<forall>t. t \<in> rc_readers s \<longleftrightarrow> holds_read (rc_pc s t)) \<and>
     (\<forall>t. rc_writer s = Some t \<longleftrightarrow> holds_write (rc_pc s t)) \<and>
     (rc_writer s \<noteq> None \<longrightarrow> rc_readers s = {}) \<and>
     (\<forall>k t. rc_cell s k = Some t \<longleftrightarrow> holds_cell (rc_pc s t) \<and> fst (calls ! t) = k) \<and>
     (\<forall>t. length calls \<le> t \<longrightarrow> rc_pc s t = Calling)"

definition values_inv :: "(string \<times> int) list \<Rightarrow> (string \<rightharpoonup> int) \<Rightarrow> race \<Rightarrow> bool" where
  "values_inv calls c0 s \<longleftrightarrow>
     (\<forall>t<length calls. knows_key (rc_pc s t) \<longrightarrow> (\<exists>v. rc_counters s (fst (calls ! t)) = Some v)) \<and>
     (\<forall>t<length calls. rc_pc s t = Inserting \<longrightarrow> rc_counters s (fst (calls ! t)) = None) \<and>
     (\<forall>t<length calls. \<forall>w c. rc_pc s t = Loaded w c \<longrightarrow> rc_counters s (fst (calls ! t)) = Some (c - snd (calls ! t))) \<and>
     (\<forall>k. rc_counters s k = None \<longrightarrow> c0 k = None) \<and>
     (\<forall>k v. rc_counters s k = Some v \<longrightarrow> v = counted calls c0 s k)"

lemma counted_move:
  assumes "\<And>u. u \<noteq> t \<Longrightarrow> rc_pc s' u = rc_pc s u" "applied (rc_pc s' t) = applied (rc_pc s t)"
  shows "counted calls c0 s' k = counted calls c0 s k"
proof -
  have "contribution calls (rc_pc s') k u = contribution calls (rc_pc s) k u" for u
    using assms by (cases "u = t") (simp_all add: contribution_def)
  then show ?thesis by (simp add: counted_def)
qed

lemma counted_apply:
  assumes "t < length calls" "\<And>u. u \<noteq> t \<Longrightarrow> rc_pc s' u = rc_pc s u" "\<not> applied (rc_pc s t)" "applied (rc_pc s' t)"
  shows "counted calls c0 s' k = counted calls c0 s k + (if fst (calls ! t) = k then snd (calls ! t) else 0)"
proof -
  have "contribution calls (rc_pc s') k u =
      contribution calls (rc_pc s) k u + (if u = t then (if fst (calls ! t) = k then snd (calls ! t) else 0) else 0)" for u
    using assms(2-4) by (cases "u = t") (simp_all add: contribution_def)
  then show ?thesis using assms(1) by (simp add: counted_def sum.distrib)
qed

text \<open>No intermediate value leaves the range of the counters.\<close>

definition amounts_fit :: "(string \<times> int) list \<Rightarrow> (string \<rightharpoonup> int) \<Rightarrow> bool" where
  "amounts_fit calls c0 \<longleftrightarrow> (\<forall>k. \<bar>case c0 k of None \<Rightarrow> 0 | Some v \<Rightarrow> v\<bar> + (\<Sum>t<length calls. \<bar>snd (calls ! t)\<bar>) < 2 ^ 63)"

lemma counted_fits:
  assumes "amounts_fit calls c0" "t < length calls" "\<not> applied (rc_pc s t)"
  shows "int64_range (counted calls c0 s (fst (calls ! t)) + snd (calls ! t))"
proof -
  let ?k = "fst (calls ! t)" and ?c = "\<lambda>u. contribution calls (rc_pc s) (fst (calls ! t)) u + (if u = t then snd (calls ! t) else 0)"
  let ?v = "case c0 ?k of None \<Rightarrow> 0 | Some v \<Rightarrow> v"
  have "counted calls c0 s ?k + snd (calls ! t) = ?v + (\<Sum>u<length calls. ?c u)"
    using assms(2) by (simp add: counted_def sum.distrib)
  moreover have "\<bar>\<Sum>u<length calls. ?c u\<bar> \<le> (\<Sum>u<length calls. \<bar>snd (calls ! u)\<bar>)"
    by (rule order_trans [OF sum_abs]) (use assms(3) in \<open>auto intro!: sum_mono simp: contribution_def\<close>)
  moreover have "\<bar>?v\<bar> + (\<Sum>u<length calls. \<bar>snd (calls ! u)\<bar>) < 2 ^ 63"
    using assms(1) unfolding amounts_fit_def by blast
  ultimately show ?thesis unfolding int64_range_def by linarith
qed

lemma lock_excludesD:
  assumes "lock_excludes rd wr"
  shows "rd R W \<Longrightarrow> W = None" "wr R W \<Longrightarrow> R = {}" "wr R W \<Longrightarrow> W = None"
  using assms by (auto simp: lock_excludes_def)

lemma locksD:
  assumes "locks_inv calls s"
  shows "t \<in> rc_readers s \<longleftrightarrow> holds_read (rc_pc s t)" "holds_write (rc_pc s t) \<longleftrightarrow> rc_writer s = Some t"
    "holds_cell (rc_pc s t) \<longleftrightarrow> rc_cell s (fst (calls ! t)) = Some t"
    "rc_writer s = Some t \<Longrightarrow> rc_readers s = {}" "rc_cell s k = Some t \<Longrightarrow> fst (calls ! t) = k"
    "length calls \<le> t \<Longrightarrow> rc_pc s t = Calling"
  using assms by (auto simp: locks_inv_def)

lemma locksI:
  assumes "\<And>t. t \<in> rc_readers s \<longleftrightarrow> holds_read (rc_pc s t)" "\<And>t. holds_write (rc_pc s t) \<longleftrightarrow> rc_writer s = Some t"
    "\<And>t. holds_cell (rc_pc s t) \<longleftrightarrow> rc_cell s (fst (calls ! t)) = Some t"
    "\<And>t. rc_writer s = Some t \<Longrightarrow> rc_readers s = {}" "\<And>k t. rc_cell s k = Some t \<Longrightarrow> fst (calls ! t) = k"
    "\<And>t. length calls \<le> t \<Longrightarrow> rc_pc s t = Calling"
  shows "locks_inv calls s"
  using assms by (auto simp: locks_inv_def)

lemma step_locks:
  assumes step: "counter_step rd wr t (fst (calls ! t)) (snd (calls ! t)) s s'" and excl: "lock_excludes rd wr"
    and t: "t < length calls" and inv: "locks_inv calls s" and fit: "rc_pc s' t \<noteq> Overflowed"
  shows "locks_inv calls s'"
proof (rule locksI)
  note locks = locksD [OF inv] and none = lock_excludesD [OF excl]
  fix u k
  show "u \<in> rc_readers s' \<longleftrightarrow> holds_read (rc_pc s' u)"
    using step fit locks(1) [of t] by cases (auto simp: locks(1) release_map_def)
  show "holds_write (rc_pc s' u) \<longleftrightarrow> rc_writer s' = Some u"
    using step fit locks(2) [of t] by cases (auto simp: locks(2) release_map_def dest!: none(3))
  show "holds_cell (rc_pc s' u) \<longleftrightarrow> rc_cell s' (fst (calls ! u)) = Some u"
    using step fit locks(3) [of t] by cases (auto simp: locks(3) release_map_def dest!: none(3))
  show "rc_writer s' = Some u \<Longrightarrow> rc_readers s' = {}"
    using step fit locks(2) [of t] locks(4) [of u] by cases (auto simp: release_map_def split: if_splits dest: none)
  show "rc_cell s' k = Some u \<Longrightarrow> fst (calls ! u) = k"
    using step locks(5) [of k u] by cases (auto simp: release_map_def split: if_splits)
  show "length calls \<le> u \<Longrightarrow> rc_pc s' u = Calling"
    using step t locks(6) [of u] by cases (auto simp: release_map_def)
qed

lemma valuesD:
  assumes "values_inv calls c0 s" "t < length calls"
  shows "knows_key (rc_pc s t) \<Longrightarrow> \<exists>v. rc_counters s (fst (calls ! t)) = Some v"
    "rc_pc s t = Inserting \<Longrightarrow> rc_counters s (fst (calls ! t)) = None"
    "rc_pc s t = Loaded w c \<Longrightarrow> rc_counters s (fst (calls ! t)) = Some (c - snd (calls ! t))"
  using assms by (auto simp: values_inv_def)

lemma valuesI:
  assumes "\<And>t. t < length calls \<Longrightarrow> knows_key (rc_pc s t) \<Longrightarrow> \<exists>v. rc_counters s (fst (calls ! t)) = Some v"
    "\<And>t. t < length calls \<Longrightarrow> rc_pc s t = Inserting \<Longrightarrow> rc_counters s (fst (calls ! t)) = None"
    "\<And>t w c. t < length calls \<Longrightarrow> rc_pc s t = Loaded w c \<Longrightarrow> rc_counters s (fst (calls ! t)) = Some (c - snd (calls ! t))"
    "\<And>k. rc_counters s k = None \<Longrightarrow> c0 k = None" "\<And>k v. rc_counters s k = Some v \<Longrightarrow> v = counted calls c0 s k"
  shows "values_inv calls c0 s"
  unfolding values_inv_def
  by (intro conjI allI impI) (rule assms; assumption)+

text \<open>A counter that does not exist was never added to.\<close>

lemma counted_absent:
  assumes "values_inv calls c0 s" "rc_counters s k = None"
  shows "counted calls c0 s k = 0"
proof -
  have "\<not> (fst (calls ! t) = k \<and> applied (rc_pc s t))" if "t < length calls" for t
  proof
    assume "fst (calls ! t) = k \<and> applied (rc_pc s t)"
    moreover have "applied p \<Longrightarrow> knows_key p" for p by (cases p) auto
    ultimately show False using valuesD(1) [OF assms(1) that] assms(2) by auto
  qed
  then have "(\<Sum>t<length calls. contribution calls (rc_pc s) k t) = 0"
    by (intro sum.neutral) (auto simp: contribution_def)
  moreover have "c0 k = None" using assms by (simp add: values_inv_def)
  ultimately show ?thesis by (simp add: counted_def)
qed

text \<open>Of two threads that are about to write a counter, or to create it, only one exists.\<close>

lemma exclusive_store:
  assumes "locks_inv calls s" "rc_pc s t = Loaded w c" "rc_pc s u = Loaded w' c'" "fst (calls ! u) = fst (calls ! t)"
  shows "u = t"
  using locksD(3) [OF assms(1), of t] locksD(3) [OF assms(1), of u] assms by simp

lemma exclusive_insert:
  assumes "locks_inv calls s" "rc_pc s t = Inserting" "rc_pc s u = Inserting"
  shows "u = t"
  using locksD(2) [OF assms(1), of t] locksD(2) [OF assms(1), of u] assms by simp

lemma step_others:
  assumes "counter_step rd wr t k a s s'" "u \<noteq> t"
  shows "rc_pc s' u = rc_pc s u"
  using assms by cases (simp_all add: release_map_def)

lemma step_values:
  assumes step: "counter_step rd wr t (fst (calls ! t)) (snd (calls ! t)) s s'" and t: "t < length calls"
    and locks: "locks_inv calls s" and inv: "values_inv calls c0 s"
  shows "values_inv calls c0 s'"
proof (rule valuesI)
  have frame: "dom (rc_counters s) \<subseteq> dom (rc_counters s')"
    using step by cases (auto simp: release_map_def)
  show "\<exists>v. rc_counters s' (fst (calls ! u)) = Some v" if "u < length calls" "knows_key (rc_pc s' u)" for u
    using step that valuesD(1) [OF inv that(1)] valuesD(1) [OF inv t]
    by cases (auto simp: release_map_def split: if_splits)
  show "rc_counters s' (fst (calls ! u)) = None" if "u < length calls" "rc_pc s' u = Inserting" for u
  proof (cases "u = t")
    case True
    with step that(2) show ?thesis by cases (auto simp: release_map_def split: if_splits)
  next
    case False
    with that step_others [OF step] have u: "rc_pc s u = Inserting" by simp
    from step show ?thesis
    proof cases
      case insert_amount
      with exclusive_insert [OF locks _ u] False show ?thesis by blast
    next
      case (store w c)
      with valuesD(2) [OF inv that(1) u] valuesD(3) [OF inv t store(2)] show ?thesis by auto
    qed (use valuesD(2) [OF inv that(1) u] in \<open>simp_all add: release_map_def\<close>)
  qed
  show "rc_counters s' (fst (calls ! u)) = Some (c - snd (calls ! u))" if "u < length calls" "rc_pc s' u = Loaded w c" for u w c
  proof (cases "u = t")
    case True
    with step that(2) show ?thesis by cases (auto simp: release_map_def split: if_splits)
  next
    case False
    with that step_others [OF step] have u: "rc_pc s u = Loaded w c" by simp
    note v = valuesD(3) [OF inv that(1) u]
    from step show ?thesis
    proof cases
      case insert_amount
      with v valuesD(2) [OF inv t] show ?thesis by auto
    next
      case (store w' d)
      with v exclusive_store [OF locks store(2) u] False show ?thesis by auto
    qed (use v in \<open>simp_all add: release_map_def\<close>)
  qed
  show "c0 k = None" if "rc_counters s' k = None" for k
  proof -
    have "rc_counters s k = None" using frame that by (auto simp: dom_def)
    then show ?thesis using inv by (simp add: values_inv_def)
  qed
  have old: "rc_counters s k = Some v \<Longrightarrow> v = counted calls c0 s k" for k v
    using inv by (simp add: values_inv_def)
  have move: "applied (rc_pc s' t) = applied (rc_pc s t) \<Longrightarrow> counted calls c0 s' k = counted calls c0 s k" for k
    by (rule counted_move [OF step_others [OF step]])
  show "v = counted calls c0 s' k" if "rc_counters s' k = Some v" for k v
    using step that
  proof cases
    case insert_amount
    have "counted calls c0 s (fst (calls ! t)) = 0"
      by (rule counted_absent [OF inv valuesD(2) [OF inv t insert_amount(2)]])
    moreover have "counted calls c0 s' k = counted calls c0 s k + (if fst (calls ! t) = k then snd (calls ! t) else 0)"
      using insert_amount by (intro counted_apply [OF t step_others [OF step]]) simp_all
    ultimately show ?thesis
      using insert_amount that old [of k v] by (auto split: if_splits)
  next
    case (store w c)
    have "counted calls c0 s' k = counted calls c0 s k + (if fst (calls ! t) = k then snd (calls ! t) else 0)"
      using store by (intro counted_apply [OF t step_others [OF step]]) simp_all
    with store that old [of k v] old [OF valuesD(3) [OF inv t store(2)]] show ?thesis by (auto split: if_splits)
  qed (use old [of k v] move [of k] in simp_all)
qed

definition race_inv :: "(string \<times> int) list \<Rightarrow> (string \<rightharpoonup> int) \<Rightarrow> race \<Rightarrow> bool" where
  "race_inv calls c0 s \<longleftrightarrow> locks_inv calls s \<and> values_inv calls c0 s \<and> (\<forall>t. rc_pc s t \<noteq> Overflowed)"

lemma race_start_inv: "race_inv calls c0 (race_start c0)"
  by (auto simp: race_inv_def locks_inv_def values_inv_def race_start_def counted_def contribution_def)

lemma race_step_inv:
  assumes step: "counter_step rd wr t (fst (calls ! t)) (snd (calls ! t)) s s'" and t: "t < length calls"
    and lock: "lock_excludes rd wr" and fit: "amounts_fit calls c0" and inv: "race_inv calls c0 s"
  shows "race_inv calls c0 s'"
proof -
  from inv have locks: "locks_inv calls s" and vals: "values_inv calls c0 s" and ok: "\<And>u. rc_pc s u \<noteq> Overflowed"
    by (simp_all add: race_inv_def)
  have "rc_pc s' t \<noteq> Overflowed"
    using step
  proof cases
    case (overflow w v)
    then have "v = counted calls c0 s (fst (calls ! t))" using vals by (simp add: values_inv_def)
    with counted_fits [OF fit t] overflow show ?thesis by simp
  qed simp_all
  moreover from this have "rc_pc s' u \<noteq> Overflowed" for u
    using step_others [OF step, of u] ok [of u] by (cases "u = t") simp_all
  ultimately show ?thesis
    using step_locks [OF step lock t locks] step_values [OF step t locks vals] by (simp add: race_inv_def)
qed

theorem race_reachable_inv:
  "race_reachable rd wr calls c0 s \<Longrightarrow> lock_excludes rd wr \<Longrightarrow> amounts_fit calls c0 \<Longrightarrow> race_inv calls c0 s"
  by (induction rule: race_reachable.induct) (auto intro: race_start_inv race_step_inv)

lemma race_reachable_dom: "race_reachable rd wr calls c0 s \<Longrightarrow> dom (rc_counters s) \<subseteq> dom c0 \<union> fst ` set calls"
proof (induction rule: race_reachable.induct)
  case (step s t s')
  from step(3) have "dom (rc_counters s') \<subseteq> insert (fst (calls ! t)) (dom (rc_counters s))"
    by cases auto
  moreover have "fst (calls ! t) \<in> fst ` set calls" using step(2) by simp
  ultimately show ?case using step.IH by blast
qed (simp add: race_start_def)

text \<open>
  C18: Concurrent increments are never lost. However the threads interleave, when all of them have returned, every counter
  holds its initial value plus all the amounts that were added to it, and exactly the counters that existed or were
  added to exist. It rests only on the exclusion the read-write lock promises, and on the total staying within 64 bits.
\<close>

theorem increments_never_lost:
  assumes reach: "race_reachable rd wr calls c0 s" and lock: "lock_excludes rd wr" and fit: "amounts_fit calls c0"
    and finished: "\<And>t. t < length calls \<Longrightarrow> \<exists>c. rc_pc s t = Returned c"
  shows "rc_counters s k =
    (if c0 k = None \<and> k \<notin> fst ` set calls then None
     else Some ((case c0 k of None \<Rightarrow> 0 | Some v \<Rightarrow> v) + sum_list (map snd (filter (\<lambda>call. fst call = k) calls))))"
proof -
  from race_reachable_inv [OF reach lock fit] have inv: "values_inv calls c0 s" by (simp add: race_inv_def)
  have "contribution calls (rc_pc s) k t = (if fst (calls ! t) = k then snd (calls ! t) else 0)" if "t < length calls" for t
    using finished [OF that] by (auto simp: contribution_def)
  then have "(\<Sum>t<length calls. contribution calls (rc_pc s) k t) = (\<Sum>t<length calls. if fst (calls ! t) = k then snd (calls ! t) else 0)"
    by simp
  also have "\<dots> = sum_list (map (\<lambda>call. if fst call = k then snd call else 0) calls)"
    by (simp add: sum_list_sum_nth atLeast0LessThan)
  also have "\<dots> = sum_list (map snd (filter (\<lambda>call. fst call = k) calls))"
    by (simp add: sum_list_map_filter')
  finally have total: "counted calls c0 s k =
      (case c0 k of None \<Rightarrow> 0 | Some v \<Rightarrow> v) + sum_list (map snd (filter (\<lambda>call. fst call = k) calls))"
    by (simp add: counted_def)
  have present: "rc_counters s k \<noteq> None" if "k \<in> fst ` set calls"
  proof -
    from that obtain t where t: "t < length calls" "fst (calls ! t) = k" by (auto simp: in_set_conv_nth)
    from finished [OF t(1)] have "knows_key (rc_pc s t)" by auto
    from valuesD(1) [OF inv t(1) this] t(2) show ?thesis by auto
  qed
  show ?thesis
  proof (cases "rc_counters s k")
    case None
    with present inv show ?thesis by (auto simp: values_inv_def)
  next
    case (Some v)
    with race_reachable_dom [OF reach] have "\<not> (c0 k = None \<and> k \<notin> fst ` set calls)" by (auto simp: dom_def)
    with Some inv total show ?thesis by (simp add: values_inv_def)
  qed
qed

section \<open>No deadlock\<close>

text \<open>The step of a thread as a function: \<open>None\<close> when it has to wait for a lock, or has returned.\<close>

definition counter_next :: "(nat set \<Rightarrow> nat option \<Rightarrow> bool) \<Rightarrow> (nat set \<Rightarrow> nat option \<Rightarrow> bool) \<Rightarrow> nat \<Rightarrow> string \<Rightarrow> int \<Rightarrow> race \<Rightarrow> race option" where
  "counter_next rd wr t k a s =
     (case rc_pc s t of
        Calling \<Rightarrow> if rd (rc_readers s) (rc_writer s) then Some (goes t Finding (s\<lparr>rc_readers := insert t (rc_readers s)\<rparr>)) else None
      | Finding \<Rightarrow> Some (goes t (if rc_counters s k = None then Absent else At_cell False) s)
      | Absent \<Rightarrow> Some (goes t Missed (release_map False t s))
      | Missed \<Rightarrow> if wr (rc_readers s) (rc_writer s) then Some (goes t Finding_again (s\<lparr>rc_writer := Some t\<rparr>)) else None
      | Finding_again \<Rightarrow> Some (goes t (if rc_counters s k = None then Inserting else At_cell True) s)
      | Inserting \<Rightarrow> Some (goes t (Inserted a) (s\<lparr>rc_counters := (rc_counters s)(k \<mapsto> a)\<rparr>))
      | Inserted c \<Rightarrow> Some (goes t (Returned c) (release_map True t s))
      | At_cell w \<Rightarrow> if wr {} (rc_cell s k) then Some (goes t (Locked w) (s\<lparr>rc_cell := (rc_cell s)(k := Some t)\<rparr>)) else None
      | Locked w \<Rightarrow>
          (case rc_counters s k of
             None \<Rightarrow> None
           | Some v \<Rightarrow> Some (goes t (if int64_range (v + a) then Loaded w (v + a) else Overflowed) s))
      | Loaded w c \<Rightarrow> Some (goes t (Stored w c) (s\<lparr>rc_counters := (rc_counters s)(k \<mapsto> c)\<rparr>))
      | Stored w c \<Rightarrow> Some (goes t (Unlocked w c) (s\<lparr>rc_cell := (rc_cell s)(k := None)\<rparr>))
      | Unlocked w c \<Rightarrow> Some (goes t (Returned c) (release_map w t s))
      | Returned c \<Rightarrow> None
      | Overflowed \<Rightarrow> None)"

lemma counter_next_iff: "counter_step rd wr t k a s s' \<longleftrightarrow> counter_next rd wr t k a s = Some s'"
  unfolding counter_step.simps counter_next_def
  by (cases "rc_pc s t"; cases "rc_counters s k") (auto simp: dom_def)

lemma holder_progress:
  assumes inv: "race_inv calls c0 s" and grants: "lock_grants rd wr"
    and t: "holds_read (rc_pc s t) \<or> holds_write (rc_pc s t)"
  shows "\<exists>u<length calls. \<exists>s'. counter_step rd wr u (fst (calls ! u)) (snd (calls ! u)) s s'"
proof -
  from inv have locks: "locks_inv calls s" and vals: "values_inv calls c0 s" by (simp_all add: race_inv_def)
  have known: "u < length calls" if "rc_pc s u \<noteq> Calling" for u using locksD(6) [OF locks, of u] that by force
  have cell: "\<exists>s'. counter_step rd wr u (fst (calls ! u)) (snd (calls ! u)) s s'" if "holds_cell (rc_pc s u)" for u
  proof -
    from that have "u < length calls" by (intro known) auto
    from valuesD(1) [OF vals this] that show ?thesis
      unfolding counter_next_iff counter_next_def by (cases "rc_pc s u") auto
  qed
  from t have "t < length calls" by (intro known) auto
  show ?thesis
  proof (cases "\<exists>w. rc_pc s t = At_cell w \<and> rc_cell s (fst (calls ! t)) \<noteq> None")
    case True
    then obtain u where "rc_cell s (fst (calls ! t)) = Some u" by auto
    moreover from locksD(5) [OF locks this] have "fst (calls ! u) = fst (calls ! t)" .
    ultimately have u: "holds_cell (rc_pc s u)" using locksD(3) [OF locks, of u] by simp
    then have "u < length calls" by (intro known) auto
    with cell [OF u] show ?thesis by blast
  next
    case False
    show ?thesis
    proof (cases "holds_cell (rc_pc s t)")
      case True
      with cell \<open>t < length calls\<close> show ?thesis by blast
    next
      case no_cell: False
      from t False no_cell grants have "counter_next rd wr t (fst (calls ! t)) (snd (calls ! t)) s \<noteq> None"
        unfolding counter_next_def lock_grants_def by (cases "rc_pc s t") auto
      with \<open>t < length calls\<close> show ?thesis unfolding counter_next_iff by blast
    qed
  qed
qed

text \<open>A schedule of the threads, and the read-write lock that lets everybody in whom it can.\<close>

fun run_schedule :: "(nat set \<Rightarrow> nat option \<Rightarrow> bool) \<Rightarrow> (nat set \<Rightarrow> nat option \<Rightarrow> bool) \<Rightarrow> (string \<times> int) list \<Rightarrow> nat list \<Rightarrow> race \<Rightarrow> race option" where
  "run_schedule rd wr calls [] s = Some s"
| "run_schedule rd wr calls (t # ts) s =
     (if t < length calls
      then Option.bind (counter_next rd wr t (fst (calls ! t)) (snd (calls ! t)) s) (run_schedule rd wr calls ts)
      else None)"

lemma run_schedule_reachable:
  "race_reachable rd wr calls c0 s \<Longrightarrow> run_schedule rd wr calls ts s = Some s' \<Longrightarrow> race_reachable rd wr calls c0 s'"
proof (induction ts arbitrary: s)
  case (Cons t ts)
  then obtain s1 where "t < length calls" "counter_next rd wr t (fst (calls ! t)) (snd (calls ! t)) s = Some s1"
    "run_schedule rd wr calls ts s1 = Some s'" by (auto simp: bind_eq_Some_conv split: if_splits)
  with Cons.IH [of s1] race_reachable.step [OF Cons.prems(1), of t s1] show ?case by (simp add: counter_next_iff)
qed simp

definition free_read :: "nat set \<Rightarrow> nat option \<Rightarrow> bool" where
  "free_read R W \<longleftrightarrow> W = None"

definition free_write :: "nat set \<Rightarrow> nat option \<Rightarrow> bool" where
  "free_write R W \<longleftrightarrow> R = {} \<and> W = None"

lemma free_lock: "lock_excludes free_read free_write" "lock_grants free_read free_write"
  by (auto simp: lock_excludes_def lock_grants_def free_read_def free_write_def)

text \<open>Two threads add to the same new counter and both find it missing before either creates it.\<close>

abbreviation two_calls :: "(string \<times> int) list" where
  "two_calls \<equiv> [(''a'', 1), (''a'', 2)]"

lemma two_calls_fit: "amounts_fit two_calls (\<lambda>_. None)"
  by (simp add: amounts_fit_def lessThan_Suc)



theorem increments_never_lost_witness:
  "\<exists>s. race_reachable free_read free_write two_calls (\<lambda>_. None) s \<and> (\<forall>t<2. \<exists>c. rc_pc s t = Returned c) \<and>
     rc_counters s ''a'' = Some 3"
proof -
  let ?run = "run_schedule free_read free_write two_calls [0, 1, 0, 1, 0, 1, 0, 0, 0, 0, 1, 1, 1, 1, 1, 1, 1] (race_start (\<lambda>_. None))"
  have "map_option (\<lambda>s. (rc_pc s 0, rc_pc s 1)) ?run = Some (Returned 1, Returned 3)" by code_simp
  then obtain s where run: "?run = Some s" and pcs: "rc_pc s 0 = Returned 1" "rc_pc s 1 = Returned 3" by auto
  have finished: "\<exists>c. rc_pc s t = Returned c" if "t < length two_calls" for t
    using that pcs by (auto simp: less_Suc_eq numeral_2_eq_2)
  from run_schedule_reachable [OF race_reachable.start run] have reach: "race_reachable free_read free_write two_calls (\<lambda>_. None) s" .
  from increments_never_lost [OF reach free_lock(1) two_calls_fit finished, of "''a''"] finished reach show ?thesis
    by (intro exI [of _ s]) (simp add: numeral_2_eq_2)
qed

end
