(* ===== verification/Service_Tracker.thy ===== *)
theory Service_Tracker
  imports Fb_Base "HOL-Library.Signed_Division"
begin

text \<open>
  Timing and counting of service calls (\<^verbatim>\<open>contrib/fb303/cpp/ServiceTracker.cpp\<close>). The times the methods read from the
  clocks, the status of the handler and the numbers of threads of the server are arguments; log messages
  are kept in order.
\<close>

section \<open>Stopwatch\<close>

datatype unit_of_time = UNIT_SECONDS | UNIT_MILLISECONDS | UNIT_MICROSECONDS

text \<open>A \<^verbatim>\<open>timeval\<close>: seconds and microseconds.\<close>

type_synonym timeval = "int \<times> int"

text \<open>Division truncates towards zero.\<close>

definition elapsedUnits :: "unit_of_time \<Rightarrow> timeval \<Rightarrow> timeval \<Rightarrow> int \<times> string" where
  "elapsedUnits u start_time now_time =
     (let duration_secs = fst now_time - fst start_time
      in case u of
           UNIT_SECONDS \<Rightarrow>
             (let n = to_uint64 (duration_secs + (snd now_time - snd start_time + 500000) sdiv 1000000)
              in (n, show_int n @ '' secs''))
         | UNIT_MICROSECONDS \<Rightarrow>
             (let n = to_uint64 (duration_secs * 1000000 + snd now_time - snd start_time)
              in (n, show_int n @ '' us''))
         | UNIT_MILLISECONDS \<Rightarrow>
             (let n = to_uint64 (duration_secs * 1000 + (snd now_time - snd start_time + 500) sdiv 1000)
              in (n, show_int n @ '' ms'')))"

section \<open>The tracker\<close>

datatype fb_status = DEAD | STARTING | ALIVE | STOPPING | STOPPED | WARNING

record tracker =
  tk_handler :: facebook_base
  tk_threads :: "(int \<times> int) option"
  tk_featureCheckpoint :: bool
  tk_featureStatusCheck :: bool
  tk_featureThreadCheck :: bool
  tk_stopwatchUnit :: unit_of_time
  tk_statisticsMutex :: bool
  tk_checkpointTime :: int
  tk_checkpointServices :: int
  tk_checkpointDuration :: int
  tk_checkpointServiceDuration :: "(string \<times> int \<times> int) list"
  tk_log :: "(int \<times> string) list"

type_synonym 'a tracker_action = "(tracker, 'a) action"

text \<open>
  The constructor leaves \<^verbatim>\<open>checkpointDuration_\<close> uninitialised: \<open>garbage\<close> is what its memory happened to hold.
\<close>

definition new_tracker :: "int \<Rightarrow> facebook_base \<Rightarrow> bool \<Rightarrow> bool \<Rightarrow> bool \<Rightarrow> unit_of_time \<Rightarrow> int \<Rightarrow> tracker" where
  "new_tracker garbage handler featureCheckpoint featureStatusCheck featureThreadCheck u now =
     \<lparr>tk_handler = handler, tk_threads = None, tk_featureCheckpoint = featureCheckpoint,
      tk_featureStatusCheck = featureStatusCheck, tk_featureThreadCheck = featureThreadCheck,
      tk_stopwatchUnit = u, tk_statisticsMutex = False,
      tk_checkpointTime = (if featureCheckpoint then now else 0), tk_checkpointServices = 0,
      tk_checkpointDuration = garbage, tk_checkpointServiceDuration = [], tk_log = []\<rparr>"

definition setThreadManager :: "int \<times> int \<Rightarrow> tracker \<Rightarrow> tracker" where
  "setThreadManager threads tk = tk\<lparr>tk_threads := Some threads\<rparr>"

definition log_message :: "int \<Rightarrow> string \<Rightarrow> unit tracker_action" where
  "log_message level m = modify (\<lambda>tk. tk\<lparr>tk_log := tk_log tk @ [(level, m)]\<rparr>)"

text \<open>A method of the handler, run by the tracker.\<close>

definition on_handler :: "(facebook_base, 'a) action \<Rightarrow> 'a tracker_action" where
  "on_handler m tk = (let (r, b) = m (tk_handler tk) in (r, tk\<lparr>tk_handler := b\<rparr>))"

record service_method =
  sm_name :: string
  sm_signature :: string
  sm_featureLogOnly :: bool
  sm_timer :: timeval

definition method_signature :: "string \<Rightarrow> int \<Rightarrow> string" where
  "method_signature name call_id = name @ '' ('' @ show_int call_id @ '')''"

definition startService :: "fb_status \<Rightarrow> service_method \<Rightarrow> unit tracker_action" where
  "startService status sm =
     block
      [log_message 5 (sm_signature sm),
       bindA (gets tk_featureStatusCheck) (\<lambda>check.
         if check \<and> \<not> sm_featureLogOnly sm \<and> status \<noteq> ALIVE \<and> status \<noteq> STOPPING
         then (if status = STARTING then throwA ''Server starting up; please try again later''
               else throwA ''Server not alive; please try again later'')
         else returnA ()),
       bindA (gets tk_featureThreadCheck) (\<lambda>check.
       bindA (gets tk_threads) (\<lambda>threads.
         (case threads of
            Some (worker_count, idle_count) \<Rightarrow>
              whenA (check \<and> \<not> sm_featureLogOnly sm \<and> idle_count = 0)
                (log_message 3 (''service '' @ sm_signature sm @ '': all threads ('' @ show_int worker_count @ '') in use''))
          | None \<Rightarrow> returnA ())))]"

definition stepService :: "service_method \<Rightarrow> string \<Rightarrow> timeval \<Rightarrow> int tracker_action" where
  "stepService sm stepName now_time =
     bindA (gets tk_stopwatchUnit) (\<lambda>u.
       (let (elapsed, elapsed_label) = elapsedUnits u (sm_timer sm) now_time
        in seqA (log_message 5 (sm_signature sm @ '' '' @ stepName @ '' ['' @ elapsed_label @ '']''))
             (returnA (to_int64 elapsed))))"

definition report_service :: "string \<times> int \<times> int \<Rightarrow> facebook_base \<Rightarrow> facebook_base" where
  "report_service entry b =
     (case entry of
        (name, n, duration) \<Rightarrow>
          setCounter (''checkpoint_speed_'' @ name) (if n = 0 then 0 else to_int64 (duration div n))
            (setCounter (''checkpoint_count_'' @ name) (to_int64 n) b))"

text \<open>The logged message, with the counters already exported to the handler.\<close>

definition checkpoint_message :: "int \<Rightarrow> facebook_base \<Rightarrow> tracker \<Rightarrow> string" where
  "checkpoint_message now handler tk =
     ''checkpoint_time:'' @ show_int (to_uint64 (now - tk_checkpointTime tk)) @
     '' checkpoint_services:'' @ show_int (tk_checkpointServices tk) @
     '' checkpoint_speed_sum:'' @ show_int (tk_checkpointDuration tk) @
     '' lifetime_time:'' @ show_int (to_uint64 (now - fb_aliveSince handler)) @
     '' lifetime_services:'' @ show_int (to_uint64 (getCounter ''lifetime_services'' handler)) @
     (case tk_threads tk of
        Some (worker_count, idle_count) \<Rightarrow>
          if tk_featureThreadCheck tk
          then '' total_workers:'' @ show_int worker_count @
               '' active_workers:'' @ show_int (to_uint64 (worker_count - idle_count))
          else []
      | None \<Rightarrow> [])"

definition reportCheckpoint :: "int \<Rightarrow> unit tracker_action" where
  "reportCheckpoint now =
     bindA (gets (\<lambda>tk. tk)) (\<lambda>tk.
       (let check_interval = to_uint64 (now - tk_checkpointTime tk);
            handler = fold report_service (tk_checkpointServiceDuration tk)
                        (setCounter ''checkpoint_time'' (to_int64 check_interval) (tk_handler tk))
        in seqA
             (modify (\<lambda>tk. tk\<lparr>tk_handler := handler, tk_checkpointServiceDuration := [], tk_checkpointTime := now,
                tk_checkpointServices := 0, tk_checkpointDuration := 0\<rparr>))
             (log_message 4 (checkpoint_message now handler tk))))"

text \<open>The entry of one service: the number of its calls and their total duration.\<close>

definition count_service :: "string \<Rightarrow> int \<Rightarrow> (string \<times> int \<times> int) list \<Rightarrow> (string \<times> int \<times> int) list" where
  "count_service name duration m =
     (case smap_find m name of
        Some (n, d) \<Rightarrow> smap_set name (to_uint64 (n + 1), to_uint64 (d + duration)) m
      | None \<Rightarrow> smap_set name (1, to_uint64 duration) m)"

definition finishService :: "service_method \<Rightarrow> timeval \<Rightarrow> int \<Rightarrow> int \<Rightarrow> unit tracker_action" where
  "finishService sm now_time now now' =
     bindA (gets tk_stopwatchUnit) (\<lambda>u.
       (let (elapsed, duration_label) = elapsedUnits u (sm_timer sm) now_time;
            duration = to_int64 elapsed
        in seqA (log_message 5 (sm_signature sm @ '' finish ['' @ duration_label @ '']''))
             (whenA (\<not> sm_featureLogOnly sm)
               (bindA (gets tk_featureCheckpoint) (\<lambda>checkpoint.
                  if \<not> checkpoint
                  then bindA (on_handler (incrementCounter ''lifetime_services'' 1)) (\<lambda>_. returnA ())
                  else
                    block
                     [modify (\<lambda>tk. tk\<lparr>tk_statisticsMutex := True\<rparr>),
                      bindA (on_handler (incrementCounter ''lifetime_services'' 1)) (\<lambda>_. returnA ()),
                      modify (\<lambda>tk. tk\<lparr>tk_checkpointServices := to_uint64 (tk_checkpointServices tk + 1),
                        tk_checkpointDuration := to_uint64 (tk_checkpointDuration tk + duration),
                        tk_checkpointServiceDuration := count_service (sm_name sm) duration (tk_checkpointServiceDuration tk)\<rparr>),
                      bindA (gets tk_checkpointTime) (\<lambda>checkpointTime.
                        whenA (60 \<le> to_uint64 (now - checkpointTime)) (reportCheckpoint now')),
                      modify (\<lambda>tk. tk\<lparr>tk_statisticsMutex := False\<rparr>)])))))"

text \<open>
  The constructor and the destructor of \<^verbatim>\<open>ServiceMethod\<close>: an object whose constructor throws is never destroyed, and
  the destructor does not throw.
\<close>

definition new_service_method :: "fb_status \<Rightarrow> string \<Rightarrow> string \<Rightarrow> bool \<Rightarrow> timeval \<Rightarrow> service_method tracker_action" where
  "new_service_method status name signature featureLogOnly now_time =
     (let sm = \<lparr>sm_name = name, sm_signature = signature, sm_featureLogOnly = featureLogOnly, sm_timer = now_time\<rparr>
      in seqA (startService status sm) (returnA sm))"

definition new_service_method_id :: "fb_status \<Rightarrow> string \<Rightarrow> int \<Rightarrow> bool \<Rightarrow> timeval \<Rightarrow> service_method tracker_action" where
  "new_service_method_id status name call_id featureLogOnly now_time =
     new_service_method status name (method_signature name call_id) featureLogOnly now_time"

definition delete_service_method :: "service_method \<Rightarrow> timeval \<Rightarrow> int \<Rightarrow> int \<Rightarrow> unit tracker_action" where
  "delete_service_method sm now_time now now' tk =
     (case finishService sm now_time now now' tk of
        (Throw e, tk') \<Rightarrow> (Ok (), tk')
      | r \<Rightarrow> r)"

definition service_method_step :: "service_method \<Rightarrow> string \<Rightarrow> timeval \<Rightarrow> int tracker_action" where
  "service_method_step sm stepName now_time =
     bindA (stepService sm stepName now_time) (\<lambda>n. returnA (to_uint64 n))"

definition level_name :: "int \<Rightarrow> string" where
  "level_name level =
     (if level = 1 then ''CRITICAL'' else if level = 2 then ''ERROR'' else if level = 3 then ''WARNING''
      else if level = 5 then ''DEBUG'' else ''INFO'')"

text \<open>The default log method, with the printed form of the time and the level of the log.\<close>

definition defaultLogMethod :: "int \<Rightarrow> string \<Rightarrow> int \<Rightarrow> string \<Rightarrow> string" where
  "defaultLogMethod log_level now_pretty level message =
     (if level \<le> log_level then ''['' @ level_name level @ ''] ['' @ take 24 now_pretty @ ''] '' @ message @ [CHR 0x0A]
      else [])"

section \<open>Stopwatch\<close>

lemma sdiv_bounds:
  fixes x U :: int
  assumes "0 < U"
  shows "0 \<le> x \<Longrightarrow> U * (x sdiv U) \<le> x \<and> x < U * (x sdiv U) + U"
    and "x < 0 \<Longrightarrow> x \<le> U * (x sdiv U) \<and> U * (x sdiv U) < x + U"
proof -
  have mod: "U * (\<bar>x\<bar> div U) \<le> \<bar>x\<bar> \<and> \<bar>x\<bar> < U * (\<bar>x\<bar> div U) + U"
    using assms pos_mod_bound [of U "\<bar>x\<bar>"] pos_mod_sign [of U "\<bar>x\<bar>"] mult_div_mod_eq [of U "\<bar>x\<bar>"] by linarith
  show "0 \<le> x \<Longrightarrow> U * (x sdiv U) \<le> x \<and> x < U * (x sdiv U) + U"
    using mod assms by (cases "x = 0") (simp_all add: signed_divide_int_def)
  assume "x < 0"
  then have "U * (x sdiv U) = - (U * (\<bar>x\<bar> div U))" using assms by (simp add: signed_divide_int_def)
  then show "x \<le> U * (x sdiv U) \<and> U * (x sdiv U) < x + U" using mod \<open>x < 0\<close> by linarith
qed

lemma to_uint64_id: "0 \<le> i \<Longrightarrow> i < 18446744073709551616 \<Longrightarrow> to_uint64 i = i"
  by (simp add: to_uint64_def)

text \<open>
  C35: A stopwatch read after \<open>e\<close> microseconds shows exactly \<open>e\<close> microseconds. In seconds and
  milliseconds it is less than half a unit short, and rounds to the nearest unit as long as the microsecond field of the
  clock has not wrapped; when it has, the division truncates the wrong way and the result can be more than half a unit too
  high. Nothing overflows for 292,000 years.
\<close>

theorem stopwatch_rounding:
  assumes usec: "0 \<le> snd s" "snd s < 1000000" "0 \<le> snd t" "snd t < 1000000"
    and e: "e = 1000000 * (fst t - fst s) + (snd t - snd s)" "0 \<le> e" "e < 9223372036854775808"
  shows "fst (elapsedUnits UNIT_MICROSECONDS s t) = e \<and>
     e - 500 < 1000 * fst (elapsedUnits UNIT_MILLISECONDS s t) \<and> 1000 * fst (elapsedUnits UNIT_MILLISECONDS s t) < e + 1500 \<and>
     e - 500000 < 1000000 * fst (elapsedUnits UNIT_SECONDS s t) \<and> 1000000 * fst (elapsedUnits UNIT_SECONDS s t) < e + 1000000 \<and>
     (snd s \<le> snd t \<longrightarrow> 1000 * fst (elapsedUnits UNIT_MILLISECONDS s t) \<le> e + 500 \<and>
       1000000 * fst (elapsedUnits UNIT_SECONDS s t) \<le> e + 500000)"
proof -
  let ?d = "snd t - snd s"
  let ?ms = "(fst t - fst s) * 1000 + (?d + 500) sdiv 1000" and ?s = "fst t - fst s + (?d + 500000) sdiv 1000000"
  have ms: "e - 500 < 1000 * ?ms" "1000 * ?ms < e + 1500" "snd s \<le> snd t \<Longrightarrow> 1000 * ?ms \<le> e + 500"
    using sdiv_bounds [of 1000 "?d + 500"] e(1) by (cases "0 \<le> ?d + 500"; simp add: algebra_simps)+
  have "0 \<le> ?d + 500000 \<or> ?d + 500000 < 0 \<and> (?d + 500000) sdiv 1000000 = 0"
    using usec by (auto simp: signed_divide_int_def)
  then have secs: "e - 500000 < 1000000 * ?s" "1000000 * ?s < e + 1000000" "snd s \<le> snd t \<Longrightarrow> 1000000 * ?s \<le> e + 500000"
    using sdiv_bounds [of 1000000 "?d + 500000"] e(1) usec by (auto simp: algebra_simps)
  have "0 \<le> n \<and> n < 18446744073709551616" if "e - 500 < 1000 * n" "1000 * n < e + 1500" for n
    using that e(2,3) by linarith
  from this [OF ms(1,2)] have "to_uint64 ?ms = ?ms" by (intro to_uint64_id) blast+
  moreover have "0 \<le> n \<and> n < 18446744073709551616" if "e - 500000 < 1000000 * n" "1000000 * n < e + 1000000" for n
    using that e(2,3) by linarith
  from this [OF secs(1,2)] have "to_uint64 ?s = ?s" by (intro to_uint64_id) blast+
  ultimately have "fst (elapsedUnits UNIT_MILLISECONDS s t) = ?ms" "fst (elapsedUnits UNIT_SECONDS s t) = ?s"
    by (simp_all add: elapsedUnits_def Let_def)
  moreover have "fst (elapsedUnits UNIT_MICROSECONDS s t) = e"
    using e by (simp add: elapsedUnits_def Let_def to_uint64_id algebra_simps)
  ultimately show ?thesis using ms secs by simp
qed

text \<open>One microsecond across the turn of a second is reported as a whole second.\<close>

theorem stopwatch_rounding_witness:
  "fst (elapsedUnits UNIT_MICROSECONDS (0, 999999) (1, 0)) = 1 \<and> fst (elapsedUnits UNIT_SECONDS (0, 999999) (1, 0)) = 1"
proof
  show "fst (elapsedUnits UNIT_MICROSECONDS (0, 999999) (1, 0)) = 1"
    by (rule stopwatch_rounding [THEN conjunct1]) simp_all
  show "fst (elapsedUnits UNIT_SECONDS (0, 999999) (1, 0)) = 1"
    by code_simp
qed

section \<open>What the statistics mean\<close>

text \<open>
  An abstract account of the calls a server has finished: how many in all, the names and durations since the last checkpoint
  and its time, and what the sum of durations started from.
\<close>

record usage =
  us_total :: nat
  us_recent :: "(string \<times> int) list"
  us_since :: int
  us_carry :: int

definition durations :: "string \<Rightarrow> (string \<times> int) list \<Rightarrow> int list" where
  "durations name recent = map snd (filter (\<lambda>c. fst c = name) recent)"

definition spec_finish :: "string \<Rightarrow> int \<Rightarrow> int \<Rightarrow> int \<Rightarrow> usage \<Rightarrow> usage" where
  "spec_finish name duration now now' us =
     (let us' = us\<lparr>us_total := us_total us + 1, us_recent := us_recent us @ [(name, duration)]\<rparr>
      in if 60 \<le> to_uint64 (now - us_since us) then us'\<lparr>us_recent := [], us_since := now', us_carry := 0\<rparr> else us')"

definition service_entry :: "string \<Rightarrow> (string \<times> int) list \<Rightarrow> (int \<times> int) option" where
  "service_entry name recent =
     (case durations name recent of
        [] \<Rightarrow> None
      | ds \<Rightarrow> Some (int (length ds), to_uint64 (sum_list ds)))"

definition tracks :: "tracker \<Rightarrow> usage \<Rightarrow> bool" where
  "tracks tk us \<longleftrightarrow>
     tk_featureCheckpoint tk \<and> \<not> tk_statisticsMutex tk \<and>
     getCounter ''lifetime_services'' (tk_handler tk) = int (us_total us) \<and>
     length (us_recent us) \<le> us_total us \<and>
     tk_checkpointTime tk = us_since us \<and>
     tk_checkpointServices tk = int (length (us_recent us)) \<and>
     to_uint64 (tk_checkpointDuration tk) = to_uint64 (us_carry us + sum_list (map snd (us_recent us))) \<and>
     smap_inv (tk_checkpointServiceDuration tk) \<and>
     (\<forall>name. smap_find (tk_checkpointServiceDuration tk) name = service_entry name (us_recent us))"

lemma durations_simps [simp]:
  "durations name [] = []"
  "durations name (recent @ [(x, d)]) = durations name recent @ (if x = name then [d] else [])"
  by (simp_all add: durations_def)

lemma length_durations: "length (durations name recent) \<le> length recent"
  by (simp add: durations_def)

lemma uint64_add [simp]: "to_uint64 (to_uint64 a + b) = to_uint64 (a + b)" "to_uint64 (to_uint64 a) = to_uint64 a"
  by (simp_all add: to_uint64_def mod_simps)

lemma uint64_cong: "to_uint64 a = to_uint64 b \<Longrightarrow> to_uint64 (a + d) = to_uint64 (b + d)"
  by (metis uint64_add(1))

lemma count_service_inv: "smap_inv m \<Longrightarrow> smap_inv (count_service name d m)"
  by (simp add: count_service_def split: option.splits prod.splits)

lemma count_service_entry:
  assumes m: "\<And>x. smap_find m x = service_entry x recent" and small: "int (length recent) < 9223372036854775807"
  shows "smap_find (count_service name d m) x = service_entry x (recent @ [(name, d)])"
proof -
  have len: "int (length (durations name recent)) < 9223372036854775807"
    using small length_durations [of name recent] by linarith
  show ?thesis
  proof (cases "durations name recent")
    case Nil
    then have "smap_find m name = None" using m by (simp add: service_entry_def)
    with Nil m [of x] show ?thesis by (auto simp: count_service_def smap_find_def service_entry_def)
  next
    case (Cons d' ds)
    then have "smap_find m name = Some (int (length (durations name recent)), to_uint64 (sum_list (durations name recent)))"
      using m by (simp add: service_entry_def)
    moreover have "service_entry name (recent @ [(name, d)]) =
        Some (int (length (durations name recent)) + 1, to_uint64 (sum_list (durations name recent) + d))"
      using Cons by (simp add: service_entry_def add.commute add.left_commute)
    ultimately show ?thesis
      using m [of x] len by (auto simp: count_service_def smap_find_def service_entry_def to_uint64_id)
  qed
qed

text \<open>The counters a checkpoint exports.\<close>

lemma getCounter_set [simp]: "getCounter k (setCounter k' v b) = (if k = k' then v else getCounter k b)"
  by (simp add: getCounter_def setCounter_def smap_find_def)

lemma setCounter_alive [simp]: "fb_aliveSince (setCounter k v b) = fb_aliveSince b"
  by (simp add: setCounter_def)

lemma counter_names [simp]:
  "''checkpoint_count_'' @ a \<noteq> ''checkpoint_speed_'' @ b" "''checkpoint_speed_'' @ b \<noteq> ''checkpoint_count_'' @ a"
  "''lifetime_services'' \<noteq> ''checkpoint_count_'' @ a" "''lifetime_services'' \<noteq> ''checkpoint_speed_'' @ a"
  "''checkpoint_time'' \<noteq> ''checkpoint_count_'' @ a" "''checkpoint_time'' \<noteq> ''checkpoint_speed_'' @ a"
  by simp_all

lemma report_counters:
  "getCounter ''lifetime_services'' (fold report_service m b) = getCounter ''lifetime_services'' b"
  "getCounter ''checkpoint_time'' (fold report_service m b) = getCounter ''checkpoint_time'' b"
  "fb_aliveSince (fold report_service m b) = fb_aliveSince b"
  by (induction m arbitrary: b) (auto simp: report_service_def split: prod.splits)

lemma report_service_counters:
  "name \<notin> fst ` set m \<Longrightarrow>
     getCounter (''checkpoint_count_'' @ name) (fold report_service m b) = getCounter (''checkpoint_count_'' @ name) b \<and>
     getCounter (''checkpoint_speed_'' @ name) (fold report_service m b) = getCounter (''checkpoint_speed_'' @ name) b"
  "distinct (map fst m) \<Longrightarrow> map_of m name = Some (n, d) \<Longrightarrow>
     getCounter (''checkpoint_count_'' @ name) (fold report_service m b) = to_int64 n \<and>
     getCounter (''checkpoint_speed_'' @ name) (fold report_service m b) = (if n = 0 then 0 else to_int64 (d div n))"
proof -
  show none: "name \<notin> fst ` set m \<Longrightarrow>
     getCounter (''checkpoint_count_'' @ name) (fold report_service m b) = getCounter (''checkpoint_count_'' @ name) b \<and>
     getCounter (''checkpoint_speed_'' @ name) (fold report_service m b) = getCounter (''checkpoint_speed_'' @ name) b" for m b
    by (induction m arbitrary: b) (auto simp: report_service_def split: prod.splits)
  show "distinct (map fst m) \<Longrightarrow> map_of m name = Some (n, d) \<Longrightarrow>
     getCounter (''checkpoint_count_'' @ name) (fold report_service m b) = to_int64 n \<and>
     getCounter (''checkpoint_speed_'' @ name) (fold report_service m b) = (if n = 0 then 0 else to_int64 (d div n))"
  proof (induction m arbitrary: b)
    case (Cons e m)
    show ?case
    proof (cases "fst e = name")
      case True
      with Cons.prems have e: "e = (name, n, d)" and m: "name \<notin> fst ` set m" by (cases e; auto)+
      have "getCounter (''checkpoint_count_'' @ name) (report_service e b) = to_int64 n"
        "getCounter (''checkpoint_speed_'' @ name) (report_service e b) = (if n = 0 then 0 else to_int64 (d div n))"
        by (simp_all add: e report_service_def)
      with none [OF m, of "report_service e b"] show ?thesis by (simp only: fold_simps)
    next
      case False
      with Cons show ?thesis by (cases e) auto
    qed
  qed simp
qed

section \<open>The tracker keeps the account\<close>

lemma increment_run:
  assumes "getCounter k b = c" "int64_range (c + 1)"
  shows "\<exists>b'. incrementCounter k 1 b = (Ok (c + 1), b') \<and> getCounter k b' = c + 1 \<and> fb_aliveSince b' = fb_aliveSince b"
proof (cases "smap_find (fb_counters b) k")
  case None
  with assms show ?thesis
    by (simp add: incrementCounter_def getCounter_def run_simps) (simp add: smap_find_def)
next
  case (Some v)
  with assms show ?thesis
    by (simp add: incrementCounter_def getCounter_def checked64_def run_simps) (simp add: smap_find_def)
qed

lemma seqA_return: "seqA m (returnA ()) = m"
  unfolding seqA_def bindA_def returnA_def by (auto simp: fun_eq_iff split: prod.splits outcome.splits)

definition call_duration :: "tracker \<Rightarrow> service_method \<Rightarrow> timeval \<Rightarrow> int" where
  "call_duration tk sm now_time = to_int64 (fst (elapsedUnits (tk_stopwatchUnit tk) (sm_timer sm) now_time))"

text \<open>The state after the counters were updated and before a checkpoint may be reported.\<close>

definition counted_call :: "string \<Rightarrow> int \<Rightarrow> facebook_base \<Rightarrow> tracker \<Rightarrow> tracker" where
  "counted_call name duration b tk =
     tk\<lparr>tk_handler := b, tk_checkpointServices := to_uint64 (tk_checkpointServices tk + 1),
       tk_checkpointDuration := to_uint64 (tk_checkpointDuration tk + duration),
       tk_checkpointServiceDuration := count_service name duration (tk_checkpointServiceDuration tk)\<rparr>"

definition exported :: "int \<Rightarrow> tracker \<Rightarrow> facebook_base" where
  "exported now tk = fold report_service (tk_checkpointServiceDuration tk)
     (setCounter ''checkpoint_time'' (to_int64 (to_uint64 (now - tk_checkpointTime tk))) (tk_handler tk))"

lemma reportCheckpoint_run:
  "reportCheckpoint now tk =
     (Ok (), tk\<lparr>tk_handler := exported now tk, tk_checkpointServiceDuration := [], tk_checkpointTime := now,
                tk_checkpointServices := 0, tk_checkpointDuration := 0,
                tk_log := tk_log tk @ [(4, checkpoint_message now (exported now tk) tk)]\<rparr>)"
  by (simp add: reportCheckpoint_def Let_def log_message_def run_simps exported_def)

lemma finishService_run:
  assumes "tk_featureCheckpoint tk" "\<not> tk_statisticsMutex tk" "\<not> sm_featureLogOnly sm"
    and b: "incrementCounter ''lifetime_services'' 1 (tk_handler tk) = (Ok c, b)"
  shows "\<exists>tk1. tk1 = counted_call (sm_name sm) (call_duration tk sm now_time) b (tk\<lparr>tk_log := tk_log tk1, tk_statisticsMutex := True\<rparr>) \<and>
     finishService sm now_time now now' tk =
       seqA (whenA (60 \<le> to_uint64 (now - tk_checkpointTime tk)) (reportCheckpoint now'))
         (modify (\<lambda>tk. tk\<lparr>tk_statisticsMutex := False\<rparr>)) tk1"
proof -
  obtain e l where el: "elapsedUnits (tk_stopwatchUnit tk) (sm_timer sm) now_time = (e, l)" by fastforce
  define tk0 where "tk0 = tk\<lparr>tk_log := tk_log tk @ [(5, sm_signature sm @ '' finish ['' @ l @ '']'')], tk_statisticsMutex := True\<rparr>"
  have step: "on_handler (incrementCounter ''lifetime_services'' 1) tk0 = (Ok c, tk0\<lparr>tk_handler := b\<rparr>)"
    using b by (simp add: on_handler_def tk0_def)
  have "finishService sm now_time now now' tk =
      seqA (whenA (60 \<le> to_uint64 (now - tk_checkpointTime tk)) (reportCheckpoint now'))
        (modify (\<lambda>tk. tk\<lparr>tk_statisticsMutex := False\<rparr>)) (counted_call (sm_name sm) (to_int64 e) b tk0)"
    using assms(1,3) el
    by (simp add: finishService_def log_message_def run_simps seqA_return Let_def counted_call_def
        bindA_Ok [where m = "on_handler (incrementCounter ''lifetime_services'' 1)", OF step [unfolded tk0_def, simplified]] tk0_def)
  then show ?thesis
    by (intro exI [of _ "counted_call (sm_name sm) (to_int64 e) b tk0"])
      (simp add: counted_call_def tk0_def call_duration_def el)
qed

text \<open>One finished call: the account moves on, and a checkpoint exports the number of calls and the mean duration of each service.\<close>

lemma finishService_tracks:
  assumes tracks: "tracks tk us" and sm: "\<not> sm_featureLogOnly sm" and small: "int (us_total us) < 9223372036854775807"
  shows "\<exists>tk'. finishService sm now_time now now' tk = (Ok (), tk') \<and> tk_stopwatchUnit tk' = tk_stopwatchUnit tk \<and>
     tracks tk' (spec_finish (sm_name sm) (call_duration tk sm now_time) now now' us)"
proof -
  let ?d = "call_duration tk sm now_time"
  let ?recent = "us_recent us @ [(sm_name sm, ?d)]"
  have "int64_range (int (us_total us) + 1)" using small by (simp add: int64_range_def)
  with tracks obtain b where inc: "incrementCounter ''lifetime_services'' 1 (tk_handler tk) = (Ok (int (us_total us) + 1), b)"
    and b: "getCounter ''lifetime_services'' b = int (us_total us) + 1"
    using increment_run by (fastforce simp: tracks_def)
  obtain tk1 where tk1: "tk1 = counted_call (sm_name sm) ?d b (tk\<lparr>tk_log := tk_log tk1, tk_statisticsMutex := True\<rparr>)"
    and run: "finishService sm now_time now now' tk =
       seqA (whenA (60 \<le> to_uint64 (now - tk_checkpointTime tk)) (reportCheckpoint now'))
         (modify (\<lambda>tk. tk\<lparr>tk_statisticsMutex := False\<rparr>)) tk1"
    using finishService_run [OF _ _ sm inc] tracks unfolding tracks_def by blast
  have small': "int (length (us_recent us)) < 9223372036854775807" using tracks small unfolding tracks_def by linarith
  have entries: "smap_find (tk_checkpointServiceDuration tk1) name = service_entry name ?recent" for name
    using count_service_entry [OF _ small'] tracks by (subst tk1) (simp add: counted_call_def tracks_def)
  have now1: "tk_featureCheckpoint tk1" "tk_handler tk1 = b" "tk_checkpointTime tk1 = us_since us"
      "tk_stopwatchUnit tk1 = tk_stopwatchUnit tk" "tk_checkpointServices tk1 = int (length ?recent)"
      "smap_inv (tk_checkpointServiceDuration tk1)"
    using tracks small' count_service_inv by (subst tk1; simp add: counted_call_def tracks_def to_uint64_id)+
  have sum: "to_uint64 (tk_checkpointDuration tk1) = to_uint64 (us_carry us + sum_list (map snd ?recent))"
    using uint64_cong [of "tk_checkpointDuration tk" "us_carry us + sum_list (map snd (us_recent us))" ?d] tracks
    by (subst tk1) (simp add: counted_call_def tracks_def add.assoc)
  show ?thesis
  proof (cases "60 \<le> to_uint64 (now - us_since us)")
    case True
    have "getCounter ''lifetime_services'' (exported now' tk1) = int (us_total us) + 1"
      using b now1(2) by (simp add: exported_def report_counters)
    moreover have "finishService sm now_time now now' tk = modify (\<lambda>tk. tk\<lparr>tk_statisticsMutex := False\<rparr>)
        (snd (reportCheckpoint now' tk1))"
      using True tracks
      by (simp add: run tracks_def run_simps seqA_Ok [where m = "reportCheckpoint now'", OF reportCheckpoint_run] reportCheckpoint_run)
    ultimately show ?thesis
      using True tracks now1
      by (simp add: reportCheckpoint_run run_simps) (simp add: tracks_def spec_finish_def smap_find_def service_entry_def smap_inv_def)
  next
    case False
    with tracks now1 sum entries b show ?thesis
      unfolding run by (simp add: run_simps) (simp add: tracks_def spec_finish_def)
  qed
qed

text \<open>
  C34: The statistics of a tracker are those of the calls it has seen. After any sequence of finished calls, however
  they are spread over checkpoints, the counter of the handler holds their number, and the statistics since the last
  checkpoint the number of calls and the total duration, in all and of each service. Up to the first checkpoint the total
  is too high by \<open>garbage\<close>, what the uninitialised \<^verbatim>\<open>checkpointDuration_\<close> held.
\<close>

theorem tracker_statistics:
  assumes "getCounter ''lifetime_services'' handler = 0" "int (length calls) < 9223372036854775808"
    and "\<forall>(sm, now_time, now, now') \<in> set calls. \<not> sm_featureLogOnly sm"
  shows "\<exists>tk. for_each calls (\<lambda>(sm, now_time, now, now'). finishService sm now_time now now')
      (new_tracker garbage handler True status_check thread_check u start) = (Ok (), tk) \<and>
    tracks tk (fold (\<lambda>(sm, now_time, now, now').
      spec_finish (sm_name sm) (to_int64 (fst (elapsedUnits u (sm_timer sm) now_time))) now now') calls
        \<lparr>us_total = 0, us_recent = [], us_since = start, us_carry = garbage\<rparr>)"
proof -
  have "\<exists>tk'. for_each calls (\<lambda>(sm, now_time, now, now'). finishService sm now_time now now') tk = (Ok (), tk') \<and>
      tracks tk' (fold (\<lambda>(sm, now_time, now, now').
        spec_finish (sm_name sm) (to_int64 (fst (elapsedUnits u (sm_timer sm) now_time))) now now') calls us)"
    if "tracks tk us" "tk_stopwatchUnit tk = u" "int (us_total us) + int (length calls) < 9223372036854775808" for tk us
    using that assms(3)
  proof (induction calls arbitrary: tk us)
    case Nil
    then show ?case by (simp add: run_simps)
  next
    case (Cons call calls)
    obtain sm now_time now now' where call: "call = (sm, now_time, now, now')" by (cases call)
    from finishService_tracks [OF Cons.prems(1), of sm now_time now now'] Cons.prems(3,4) call obtain tk1 where
      tk1: "finishService sm now_time now now' tk = (Ok (), tk1)" "tk_stopwatchUnit tk1 = tk_stopwatchUnit tk"
        "tracks tk1 (spec_finish (sm_name sm) (call_duration tk sm now_time) now now' us)" by auto
    have "us_total (spec_finish x d t t' us) = us_total us + 1" for x d t t' by (simp add: spec_finish_def Let_def)
    with Cons.IH [OF tk1(3)] Cons.prems(2-4) tk1 call show ?case by (simp add: call_duration_def)
  qed
  moreover have "tracks (new_tracker garbage handler True status_check thread_check u start)
      \<lparr>us_total = 0, us_recent = [], us_since = start, us_carry = garbage\<rparr>"
    using assms(1) by (simp add: tracks_def new_tracker_def smap_find_def service_entry_def smap_inv_def)
  ultimately show ?thesis using assms(2) by (simp add: new_tracker_def)
qed

text \<open>Two calls of one service, the second of which is due for a checkpoint.\<close>

definition demo_calls :: "(service_method \<times> timeval \<times> int \<times> int) list" where
  "demo_calls =
     [(\<lparr>sm_name = ''get'', sm_signature = ''get (1)'', sm_featureLogOnly = False, sm_timer = (100, 0)\<rparr>, (100, 4000), 100, 100),
      (\<lparr>sm_name = ''get'', sm_signature = ''get (2)'', sm_featureLogOnly = False, sm_timer = (170, 0)\<rparr>, (170, 8000), 170, 170)]"

theorem tracker_statistics_witness:
  "\<exists>tk. for_each demo_calls (\<lambda>(sm, now_time, now, now'). finishService sm now_time now now')
      (new_tracker 7 (new_facebook_base ''s'' 0) True True True UNIT_MILLISECONDS 100) = (Ok (), tk) \<and>
    tracks tk \<lparr>us_total = 2, us_recent = [], us_since = 170, us_carry = 0\<rparr>"
proof -
  have c: "getCounter ''lifetime_services'' (new_facebook_base ''s'' 0) = 0"
    by (simp add: getCounter_def new_facebook_base_def smap_find_def)
  have calls: "int (length demo_calls) < 9223372036854775808" "\<forall>(sm, now_time, now, now') \<in> set demo_calls. \<not> sm_featureLogOnly sm"
    by (simp_all add: demo_calls_def)
  have "fold (\<lambda>(sm, now_time, now, now').
      spec_finish (sm_name sm) (to_int64 (fst (elapsedUnits UNIT_MILLISECONDS (sm_timer sm) now_time))) now now') demo_calls
        \<lparr>us_total = 0, us_recent = [], us_since = 100, us_carry = 7\<rparr> = \<lparr>us_total = 2, us_recent = [], us_since = 170, us_carry = 0\<rparr>"
    by code_simp
  with tracker_statistics [OF c calls, where garbage = 7 and u = UNIT_MILLISECONDS and start = 100 and status_check = True and thread_check = True]
  show ?thesis by simp
qed

text \<open>
  A checkpoint exports, for every service called since the last one, the number of its calls and their
  mean duration as counters of the handler, and starts a new account.
\<close>

lemma checkpoint_exports:
  assumes tracks: "tracks tk us" and ds: "durations name (us_recent us) = ds" "ds \<noteq> []"
    and small: "int (us_total us) < 9223372036854775808" "0 \<le> sum_list ds" "sum_list ds < 9223372036854775808"
  shows "\<exists>tk'. reportCheckpoint now tk = (Ok (), tk') \<and>
     getCounter (''checkpoint_count_'' @ name) (tk_handler tk') = int (length ds) \<and>
     getCounter (''checkpoint_speed_'' @ name) (tk_handler tk') = sum_list ds div int (length ds) \<and>
     tracks tk' (us\<lparr>us_recent := [], us_since := now, us_carry := 0\<rparr>)"
proof -
  have "length ds \<le> us_total us"
    using tracks length_durations [of name "us_recent us"] ds(1) by (simp add: tracks_def)
  with small(1) have len: "int (length ds) < 9223372036854775808" "0 < int (length ds)" using ds(2) by auto
  have entry: "map_of (tk_checkpointServiceDuration tk) name = Some (int (length ds), sum_list ds)"
    using tracks ds small(2,3) by (cases ds) (auto simp: tracks_def smap_find_def service_entry_def to_uint64_id)
  have keys: "distinct (map fst (tk_checkpointServiceDuration tk))"
    using tracks unfolding tracks_def smap_inv_def by (simp add: strict_sorted_iff)
  have id: "to_int64 i = i" if "0 \<le> i" "i < 9223372036854775808" for i using that by (simp add: to_int64_def)
  have "sum_list ds div int (length ds) \<le> sum_list ds" "0 \<le> sum_list ds div int (length ds)"
    using zdiv_mono2 [of "sum_list ds" 1 "int (length ds)"] len(2) small(2) by (simp_all add: pos_imp_zdiv_nonneg_iff)
  then have "to_int64 (sum_list ds div int (length ds)) = sum_list ds div int (length ds)"
    using small(3) by (intro id) linarith+
  with report_service_counters(2) [OF keys entry] len id
  have "getCounter (''checkpoint_count_'' @ name) (exported now tk) = int (length ds)"
    "getCounter (''checkpoint_speed_'' @ name) (exported now tk) = sum_list ds div int (length ds)"
    by (simp_all add: exported_def)
  moreover have "getCounter ''lifetime_services'' (exported now tk) = int (us_total us)"
    using tracks by (simp add: exported_def report_counters tracks_def)
  ultimately show ?thesis
    using tracks by (simp add: reportCheckpoint_run) (simp add: tracks_def smap_find_def service_entry_def smap_inv_def)
qed

lemma checkpoint_exports_witness:
  "\<exists>tk tk'. tracks tk \<lparr>us_total = 2, us_recent = [(''get'', 4), (''get'', 8)], us_since = 0, us_carry = 0\<rparr> \<and>
     reportCheckpoint 9 tk = (Ok (), tk') \<and>
     getCounter ''checkpoint_count_get'' (tk_handler tk') = 2 \<and> getCounter ''checkpoint_speed_get'' (tk_handler tk') = 6"
proof -
  let ?us = "\<lparr>us_total = 2, us_recent = [(''get'', 4), (''get'', 8)], us_since = 0, us_carry = 0\<rparr>"
  define tk where "tk = (new_tracker 0 (setCounter ''lifetime_services'' 2 (new_facebook_base ''s'' 0)) True True True UNIT_SECONDS 0)
    \<lparr>tk_checkpointServices := 2, tk_checkpointDuration := 12, tk_checkpointServiceDuration := [(''get'', 2, 12)]\<rparr>"
  have "smap_find [(''get'', 2, 12)] name = service_entry name (us_recent ?us)" for name
    by (simp add: smap_find_def service_entry_def durations_def to_uint64_def)
  then have tracks: "tracks tk ?us"
    by (simp add: tracks_def tk_def new_tracker_def smap_inv_def)
  from checkpoint_exports [OF tracks, of "''get''" "[4, 8]" 9] tracks show ?thesis
    by (auto simp: durations_def)
qed

text \<open>
  The first checkpoint of a server reports uninitialised memory: the logged sum of durations is too high by whatever
  \<^verbatim>\<open>checkpointDuration_\<close> held when the tracker was created, since the constructor does not set it.
\<close>

lemma first_checkpoint_garbage:
  assumes "getCounter ''lifetime_services'' handler = 0" "\<not> sm_featureLogOnly sm" "60 \<le> to_uint64 (now - start)"
  shows "\<exists>pre post. \<forall>garbage. \<exists>tk.
     finishService sm now_time now now' (new_tracker garbage handler True status_check thread_check u start) = (Ok (), tk) \<and>
     last (tk_log tk) =
       (4, pre @ show_int (to_uint64 (garbage + to_int64 (fst (elapsedUnits u (sm_timer sm) now_time)))) @ post)"
proof -
  let ?d = "to_int64 (fst (elapsedUnits u (sm_timer sm) now_time))"
  obtain b where inc: "incrementCounter ''lifetime_services'' 1 handler = (Ok 1, b)" and b: "getCounter ''lifetime_services'' b = 1"
    using increment_run [OF assms(1)] by (auto simp: int64_range_def)
  define m where "m = count_service (sm_name sm) ?d []"
  define h where "h = fold report_service m (setCounter ''checkpoint_time'' (to_int64 (to_uint64 (now' - start))) b)"
  define pre where "pre = ''checkpoint_time:'' @ show_int (to_uint64 (now' - start)) @
     '' checkpoint_services:'' @ show_int 1 @ '' checkpoint_speed_sum:''"
  define post where "post = '' lifetime_time:'' @ show_int (to_uint64 (now' - fb_aliveSince h)) @
     '' lifetime_services:'' @ show_int (to_uint64 (getCounter ''lifetime_services'' h))"
  have "\<exists>tk. finishService sm now_time now now' (new_tracker garbage handler True status_check thread_check u start) = (Ok (), tk) \<and>
     last (tk_log tk) = (4, pre @ show_int (to_uint64 (garbage + ?d)) @ post)" for garbage
  proof -
    let ?tk = "new_tracker garbage handler True status_check thread_check u start"
    obtain tk1 where tk1: "tk1 = counted_call (sm_name sm) (call_duration ?tk sm now_time) b (?tk\<lparr>tk_log := tk_log tk1, tk_statisticsMutex := True\<rparr>)"
      and run: "finishService sm now_time now now' ?tk =
         seqA (whenA (60 \<le> to_uint64 (now - tk_checkpointTime ?tk)) (reportCheckpoint now'))
           (modify (\<lambda>tk. tk\<lparr>tk_statisticsMutex := False\<rparr>)) tk1"
      using finishService_run [of ?tk sm 1 b now_time now now'] inc assms(2) by (auto simp: new_tracker_def)
    have fields: "tk_checkpointTime tk1 = start" "tk_checkpointServices tk1 = 1" "tk_threads tk1 = None" "tk_handler tk1 = b"
        "tk_checkpointDuration tk1 = to_uint64 (garbage + ?d)" "tk_checkpointServiceDuration tk1 = m"
      by (subst tk1; simp add: counted_call_def new_tracker_def to_uint64_def call_duration_def m_def)+
    then have "exported now' tk1 = h" by (simp add: exported_def h_def)
    then have "checkpoint_message now' (exported now' tk1) tk1 = pre @ show_int (to_uint64 (garbage + ?d)) @ post"
      by (simp add: checkpoint_message_def fields pre_def post_def)
    moreover have "finishService sm now_time now now' ?tk =
        modify (\<lambda>tk. tk\<lparr>tk_statisticsMutex := False\<rparr>) (snd (reportCheckpoint now' tk1))"
      unfolding run using assms(3)
      by (simp add: new_tracker_def run_simps seqA_Ok [where m = "reportCheckpoint now'", OF reportCheckpoint_run] reportCheckpoint_run)
    ultimately show ?thesis by (simp add: reportCheckpoint_run run_simps)
  qed
  then show ?thesis by blast
qed

lemma first_checkpoint_garbage_witness:
  "\<exists>pre post. \<forall>garbage. \<exists>tk.
     finishService \<lparr>sm_name = ''get'', sm_signature = ''get (1)'', sm_featureLogOnly = False, sm_timer = (160, 0)\<rparr> (160, 4000) 160 160
       (new_tracker garbage (new_facebook_base ''s'' 0) True True True UNIT_MILLISECONDS 100) = (Ok (), tk) \<and>
     last (tk_log tk) = (4, pre @ show_int (to_uint64 (garbage + 4)) @ post)"
proof -
  let ?sm = "\<lparr>sm_name = ''get'', sm_signature = ''get (1)'', sm_featureLogOnly = False, sm_timer = (160, 0)\<rparr>"
  have "getCounter ''lifetime_services'' (new_facebook_base ''s'' 0) = 0"
    by (simp add: getCounter_def new_facebook_base_def smap_find_def)
  moreover have "\<not> sm_featureLogOnly ?sm" "60 \<le> to_uint64 (160 - 100)" by (simp_all add: to_uint64_def)
  moreover have "to_int64 (fst (elapsedUnits UNIT_MILLISECONDS (sm_timer ?sm) (160, 4000))) = 4" by code_simp
  ultimately show ?thesis
    using first_checkpoint_garbage [of "new_facebook_base ''s'' 0" ?sm 160 100 "(160, 4000)" 160 True True UNIT_MILLISECONDS] by simp
qed

end
