(* ===== verification/Stable_Vector.thy ===== *)
theory Stable_Vector
  imports Prelude "HOL-Library.Word"
begin

text \<open>
  The growing vector of client records (\<^verbatim>\<open>StableVector\<close> in \<^verbatim>\<open>contrib/fb303/TClientInfo.h\<close>): levels of doubling size, so
  that elements never move. Indexes are 32-bit words; shifting a one into or beyond the sign bit of an \<^verbatim>\<open>int\<close>
  is undefined.
\<close>

section \<open>The class\<close>

definition kInitialSizePowOf2 :: nat where
  "kInitialSizePowOf2 = 10"

definition kInitialVectorSize :: "32 word" where
  "kInitialVectorSize = push_bit kInitialSizePowOf2 1"

record 'a stable_vector =
  ve_size :: "64 word"
  ve_vectLvl :: nat
  ve_vects :: "'a list list"

text \<open>\<open>d\<close> is the value a new element is constructed with.\<close>

definition new_stable_vector :: "'a \<Rightarrow> 'a stable_vector" where
  "new_stable_vector d = \<lparr>ve_size = 0, ve_vectLvl = 0, ve_vects = [replicate (2 ^ kInitialSizePowOf2) d]\<rparr>"

definition shift_one :: "nat \<Rightarrow> nat outcome" where
  "shift_one n = (if n < 31 then Ok (2 ^ n) else Undefined)"

function expand :: "'a \<Rightarrow> nat \<Rightarrow> 'a stable_vector \<Rightarrow> 'a stable_vector outcome" where
  "expand d level v =
     (if level > ve_vectLvl v
      then bind_outcome (shift_one (ve_vectLvl v + kInitialSizePowOf2)) (\<lambda>n.
             expand d level (v\<lparr>ve_vects := ve_vects v @ [replicate n d], ve_vectLvl := ve_vectLvl v + 1\<rparr>))
      else Ok v)"
  by pat_completeness auto
termination
  by (relation "measure (\<lambda>(d, level, v). level - ve_vectLvl v)") auto

declare expand.simps [simp del]

text \<open>The number of leading zero bits of a word that is not zero.\<close>

definition builtin_clz :: "32 word \<Rightarrow> nat" where
  "builtin_clz w = length (takeWhile (\<lambda>i. \<not> bit w i) (rev [0..<32]))"

definition which :: "'a \<Rightarrow> 32 word \<Rightarrow> 'a stable_vector \<Rightarrow> ((nat \<times> nat) \<times> 'a stable_vector) outcome" where
  "which d n v =
     (let v = (if ve_size v \<le> ucast n then v\<lparr>ve_size := ucast (n + 1)\<rparr> else v)
      in if n < kInitialVectorSize then Ok ((0, unat n), v)
         else
           (let upper = drop_bit kInitialSizePowOf2 n;
                vno = 32 - builtin_clz upper
            in bind_outcome (shift_one (vno + kInitialSizePowOf2 - 1)) (\<lambda>first.
               bind_outcome (if vno > ve_vectLvl v then expand d vno v else Ok v) (\<lambda>v.
                 Ok ((vno, unat (n - of_nat first)), v)))))"

text \<open>A reference is a level and an index in it.\<close>

definition in_vector :: "'a stable_vector \<Rightarrow> nat \<times> nat \<Rightarrow> bool" where
  "in_vector v l \<longleftrightarrow> fst l < length (ve_vects v) \<and> snd l < length (ve_vects v ! fst l)"

definition at_index :: "'a \<Rightarrow> 32 word \<Rightarrow> 'a stable_vector \<Rightarrow> ((nat \<times> nat) \<times> 'a stable_vector) outcome" where
  "at_index d n v =
     bind_outcome (which d n v) (\<lambda>(l, v). if in_vector v l then Ok (l, v) else Undefined)"

definition load :: "'a stable_vector \<Rightarrow> nat \<times> nat \<Rightarrow> 'a" where
  "load v l = ve_vects v ! fst l ! snd l"

definition store :: "nat \<times> nat \<Rightarrow> 'a \<Rightarrow> 'a stable_vector \<Rightarrow> 'a stable_vector" where
  "store l x v = v\<lparr>ve_vects := (ve_vects v)[fst l := (ve_vects v ! fst l)[snd l := x]]\<rparr>"

section \<open>Levels\<close>

text \<open>Where the element of an index lives, and the size of a level.\<close>

definition level_size :: "nat \<Rightarrow> nat" where
  "level_size k = (if k = 0 then 1024 else 2 ^ (k + 9))"

definition place_ok :: "nat \<Rightarrow> nat \<times> nat \<Rightarrow> bool" where
  "place_ok n l \<longleftrightarrow> snd l < level_size (fst l) \<and> n = (if fst l = 0 then snd l else 2 ^ (fst l + 9) + snd l)"

lemma place_functional:
  assumes "place_ok n l" "place_ok n l'"
  shows "l = l'"
proof -
  have same: "fst k = fst k'" if "place_ok n k" "place_ok n k'" "fst k \<le> fst k'" for k k'
  proof (rule ccontr)
    assume "fst k \<noteq> fst k'"
    with that have less: "fst k < fst k'" by simp
    have "n < 2 ^ (fst k + 10)"
      using that(1) by (auto simp: place_ok_def level_size_def power_add split: if_splits)
    also have "\<dots> \<le> 2 ^ (fst k' + 9)" using less by (intro power_increasing) auto
    also have "\<dots> \<le> n" using that(2) less by (simp add: place_ok_def)
    finally show False by simp
  qed
  have "fst l = fst l'" using same [OF assms] same [OF assms(2,1)] by (cases "fst l \<le> fst l'") auto
  with assms show ?thesis by (auto simp: place_ok_def prod_eq_iff split: if_splits)
qed

lemma place_injective: "place_ok n l \<Longrightarrow> place_ok n' l \<Longrightarrow> n = n'"
  by (simp add: place_ok_def)

lemma clz_bits:
  shows "i < builtin_clz w \<Longrightarrow> \<not> bit w (31 - i)" and "builtin_clz w < 32 \<Longrightarrow> bit w (31 - builtin_clz w)"
    and "builtin_clz w \<le> 32"
proof -
  let ?xs = "rev [0..<32]"
  have nth: "?xs ! i = 31 - i" if "i < 32" for i using that by (simp add: rev_nth)
  show len: "builtin_clz w \<le> 32"
    unfolding builtin_clz_def using length_takeWhile_le [of "\<lambda>i. \<not> bit w i" ?xs] by simp
  show "\<not> bit w (31 - i)" if "i < builtin_clz w"
    using nth_length_takeWhile
    using that len set_takeWhileD [OF nth_mem, of i "\<lambda>i. \<not> bit w i" ?xs] takeWhile_nth [of i "\<lambda>i. \<not> bit w i" ?xs] nth [of i]
    unfolding builtin_clz_def by force
  show "bit w (31 - builtin_clz w)" if "builtin_clz w < 32"
    using nth_length_takeWhile [of "\<lambda>i. \<not> bit w i" ?xs] nth [of "builtin_clz w"] that
    unfolding builtin_clz_def by simp
qed

lemma clz_bounds:
  assumes "w \<noteq> 0"
  shows "builtin_clz w < 32 \<and> 2 ^ (31 - builtin_clz w) \<le> unat w \<and> unat w < 2 ^ (32 - builtin_clz w)"
proof -
  have high: "\<not> bit w j" if "32 - builtin_clz w \<le> j" "j < 32" for j
    using clz_bits(1) [of "31 - j" w] clz_bits(3) [of w] that by simp
  have "builtin_clz w \<noteq> 32"
  proof
    assume "builtin_clz w = 32"
    then have "\<not> bit w j" for j using high [of j] bit_imp_le_length [of w j] by force
    with assms show False by (simp add: bit_eq_iff)
  qed
  with clz_bits(3) [of w] have clz: "builtin_clz w < 32" by simp
  have "bit w j \<Longrightarrow> j < 32 - builtin_clz w" for j
    using high [of j] bit_imp_le_length [of w j] by force
  then have "take_bit (32 - builtin_clz w) w = w"
    by (auto simp: bit_eq_iff bit_take_bit_iff)
  then have "unat w = take_bit (32 - builtin_clz w) (unat w)" by (metis unsigned_take_bit_eq)
  then have "unat w < 2 ^ (32 - builtin_clz w)" by (metis take_bit_nat_less_exp)
  moreover have "2 ^ (31 - builtin_clz w) \<le> unat w"
  proof (rule ccontr)
    assume "\<not> 2 ^ (31 - builtin_clz w) \<le> unat w"
    then have "take_bit (31 - builtin_clz w) (unat w) = unat w" by (simp add: take_bit_nat_eq_self)
    moreover have "bit (unat w) (31 - builtin_clz w)" using clz_bits(2) [OF clz] by (simp add: bit_unsigned_iff)
    ultimately show False by (metis bit_take_bit_iff less_irrefl)
  qed
  ultimately show ?thesis using clz by blast
qed

section \<open>The vector refines a map\<close>

definition vector_inv :: "'a stable_vector \<Rightarrow> bool" where
  "vector_inv v \<longleftrightarrow> length (ve_vects v) = ve_vectLvl v + 1 \<and> ve_vectLvl v < 22 \<and>
     (\<forall>k < length (ve_vects v). length (ve_vects v ! k) = level_size k)"

text \<open>The value at every index; an index beyond the allocated levels has the initial value.\<close>

definition place :: "nat \<Rightarrow> nat \<times> nat" where
  "place n = (if n < 1024 then (0, n) else let k = LEAST k. n < 2 ^ (k + 10) in (k, n - 2 ^ (k + 9)))"

definition vector_at :: "'a \<Rightarrow> 'a stable_vector \<Rightarrow> nat \<Rightarrow> 'a" where
  "vector_at d v n = (if in_vector v (place n) then load v (place n) else d)"

lemma place_place_ok: "place_ok n (place n)"
proof (cases "n < 1024")
  case True
  then show ?thesis by (simp add: place_def place_ok_def level_size_def)
next
  case False
  let ?k = "LEAST k. n < 2 ^ (k + 10)"
  have "n < 2 ^ n" by simp
  also have "(2::nat) ^ n \<le> 2 ^ (n + 10)" by (rule power_increasing) simp_all
  finally have upper: "n < 2 ^ (?k + 10)" by (rule LeastI)
  have "?k \<noteq> 0" using upper False by (auto intro: ccontr)
  moreover from this have "\<not> n < 2 ^ (?k - 1 + 10)" by (intro not_less_Least) simp
  ultimately have lower: "2 ^ (?k + 9) \<le> n" by (cases ?k) (simp_all add: add.commute)
  have "n - 2 ^ (?k + 9) < 2 ^ (?k + 9)" using upper lower by (simp add: power_add)
  with False lower \<open>?k \<noteq> 0\<close> show ?thesis by (simp add: place_def place_ok_def level_size_def Let_def)
qed

lemma place_eqI: "place_ok n l \<Longrightarrow> place n = l"
  using place_functional [OF place_place_ok] by blast

lemma expand_grows:
  assumes inv: "vector_inv v" and level: "level < 22"
  shows "\<exists>new. expand d level v = Ok (v\<lparr>ve_vects := ve_vects v @ new, ve_vectLvl := max level (ve_vectLvl v)\<rparr>) \<and>
     vector_inv (v\<lparr>ve_vects := ve_vects v @ new, ve_vectLvl := max level (ve_vectLvl v)\<rparr>) \<and> (\<forall>xs \<in> set new. set xs \<subseteq> {d})"
  using inv
proof (induction "level - ve_vectLvl v" arbitrary: v)
  case 0
  then show ?case by (intro exI [of _ "[]"]) (simp add: expand.simps)
next
  case (Suc n)
  let ?v = "v\<lparr>ve_vects := ve_vects v @ [replicate (2 ^ (ve_vectLvl v + 10)) d], ve_vectLvl := ve_vectLvl v + 1\<rparr>"
  from Suc.hyps(2) have less: "ve_vectLvl v < level" by simp
  have "vector_inv ?v"
    using Suc.prems less level by (auto simp: vector_inv_def nth_append level_size_def less_Suc_eq)
  moreover have "n = level - ve_vectLvl ?v" using Suc.hyps(2) by simp
  ultimately obtain new where
    new: "expand d level ?v = Ok (?v\<lparr>ve_vects := ve_vects ?v @ new, ve_vectLvl := max level (ve_vectLvl ?v)\<rparr>)"
      "vector_inv (?v\<lparr>ve_vects := ve_vects ?v @ new, ve_vectLvl := max level (ve_vectLvl ?v)\<rparr>)" "\<forall>xs \<in> set new. set xs \<subseteq> {d}"
    using Suc.hyps(1) [of ?v] by blast
  have "expand d level v = expand d level ?v"
    using less level by (simp add: expand.simps [of d level v] shift_one_def kInitialSizePowOf2_def)
  moreover have "max level (ve_vectLvl v + 1) = level" "max level (ve_vectLvl v) = level" using less by auto
  ultimately show ?case
    using new by (intro exI [of _ "replicate (2 ^ (ve_vectLvl v + 10)) d # new"]) auto
qed

lemma ucast_64:
  fixes n :: "32 word"
  assumes "unat n < 2 ^ 31"
  shows "unat (ucast n :: 64 word) = unat n" "unat (ucast n + 1 :: 64 word) = unat n + 1" "(ucast (n + 1) :: 64 word) = ucast n + 1"
proof -
  have lt: "unat m < 2 ^ 32" for m :: "32 word" using unsigned_less [of m, where 'a = nat] by simp
  show u: "unat (ucast n :: 64 word) = unat n"
    using lt [of n] by (simp add: unsigned_ucast_eq take_bit_nat_eq_self)
  then show v: "unat (ucast n + 1 :: 64 word) = unat n + 1"
    using assms by (subst unat_add_lem [THEN iffD1]) simp_all
  have "unat (n + 1) = unat n + 1" using assms by (subst unat_add_lem [THEN iffD1]) simp_all
  then have "unat (ucast (n + 1) :: 64 word) = unat n + 1"
    using lt [of "n + 1"] by (simp add: unsigned_ucast_eq take_bit_nat_eq_self)
  with v show "(ucast (n + 1) :: 64 word) = ucast n + 1" by (metis word_unat_eq_iff)
qed

lemma level_of_index:
  fixes n :: "32 word"
  assumes n: "unat n < 2 ^ 31" and big: "1024 \<le> unat n"
  defines "k \<equiv> 32 - builtin_clz (drop_bit kInitialSizePowOf2 n)"
  shows "0 < k \<and> k < 22 \<and> 2 ^ (k + 9) \<le> unat n \<and> unat n < 2 ^ (k + 10)"
proof -
  let ?upper = "drop_bit kInitialSizePowOf2 n"
  have upper: "unat ?upper = unat n div 1024" 
    by (simp add: kInitialSizePowOf2_def drop_bit_eq_div unat_div)
  then have "unat ?upper \<noteq> 0" using big by (simp add: div_eq_0_iff)
  then have "?upper \<noteq> 0" by (metis unat_0)
  from clz_bounds [OF this] upper
  have k: "0 < k" "2 ^ (k - 1) \<le> unat n div 1024" "unat n div 1024 < 2 ^ k" by (auto simp: k_def)
  have "(2::nat) ^ (k - 1) < 2 ^ 21" using k(2) n by (simp add: less_eq_div_iff_mult_less_eq)
  then have "k - 1 < 21" by (simp only: power_strict_increasing_iff one_less_numeral_iff semiring_norm)
  moreover have "2 ^ (k + 9) \<le> unat n"
  proof -
    have "(2::nat) ^ (k + 9) = 2 ^ (k - 1) * 1024" using k(1) by (cases k) (simp_all add: power_add)
    with k(2) show ?thesis by (simp add: less_eq_div_iff_mult_less_eq)
  qed
  moreover have "unat n < 2 ^ (k + 10)" using k(3) by (simp add: div_less_iff_less_mult power_add)
  ultimately show ?thesis using k(1) by simp
qed

lemma unat_of_nat_less: "m < 2 ^ 32 \<Longrightarrow> unat (of_nat m :: 32 word) = m"
  by (simp add: unsigned_of_nat take_bit_nat_eq_self)

lemma which_place:
  assumes inv: "vector_inv v" and n: "unat n < 2 ^ 31"
  shows "\<exists>v'. which d n v = Ok (place (unat n), v') \<and> vector_inv v' \<and> in_vector v' (place (unat n)) \<and>
     ve_size v' = max (ve_size v) (ucast n + 1) \<and>
     (\<exists>new. ve_vects v' = ve_vects v @ new \<and> (\<forall>xs \<in> set new. set xs \<subseteq> {d}))"
proof -
  let ?v = "if ve_size v \<le> ucast n then v\<lparr>ve_size := ucast (n + 1)\<rparr> else v"
  have size: "ve_size ?v = max (ve_size v) (ucast n + 1)"
    using ucast_64 [OF n] by (auto simp: max_def word_le_nat_alt word_unat_eq_iff)
  have inv': "vector_inv ?v" and vects: "ve_vects ?v = ve_vects v" using inv by (simp_all add: vector_inv_def)
  show ?thesis
  proof (cases "n < kInitialVectorSize")
    case True
    then have small: "unat n < 1024" by (simp add: kInitialVectorSize_def kInitialSizePowOf2_def word_less_nat_alt)
    then have "place (unat n) = (0, unat n)" by (simp add: place_def)
    moreover have "in_vector ?v (0, unat n)" using inv' small by (auto simp: in_vector_def vector_inv_def level_size_def)
    ultimately show ?thesis
      using True size inv' vects by (intro exI [of _ ?v]) (simp add: which_def Let_def)
  next
    case False
    then have big: "1024 \<le> unat n" by (simp add: kInitialVectorSize_def kInitialSizePowOf2_def word_less_nat_alt)
    define k where "k = 32 - builtin_clz (drop_bit kInitialSizePowOf2 n)"
    from level_of_index [OF n big, folded k_def] have k: "0 < k" "k < 22" "2 ^ (k + 9) \<le> unat n" "unat n < 2 ^ (k + 10)"
      by blast+
    have "unat (of_nat (2 ^ (k + 9)) :: 32 word) = 2 ^ (k + 9)"
      using k(3) unsigned_less [of n, where 'a = nat] by (intro unat_of_nat_less) simp
    then have index: "unat (n - of_nat (2 ^ (k + 9))) = unat n - 2 ^ (k + 9)"
      using k(3) by (subst unat_sub) (simp_all add: word_le_nat_alt)
    have pl: "place (unat n) = (k, unat n - 2 ^ (k + 9))"
      using k by (intro place_eqI) (simp add: place_ok_def level_size_def power_add)
    obtain v' where v': "(if k > ve_vectLvl ?v then expand d k ?v else Ok ?v) = Ok v'" "vector_inv v'" "k \<le> ve_vectLvl v'"
        "ve_size v' = ve_size ?v" "\<exists>new. ve_vects v' = ve_vects ?v @ new \<and> (\<forall>xs \<in> set new. set xs \<subseteq> {d})"
    proof (cases "k > ve_vectLvl ?v")
      case True
      with expand_grows [OF inv' k(2), of d] that show ?thesis by fastforce
    next
      case False
      with inv' that [of ?v] show ?thesis by simp
    qed
    have "in_vector v' (place (unat n))"
      using v'(2,3) k by (auto simp: in_vector_def vector_inv_def pl level_size_def power_add)
    moreover have shift: "shift_one (k + kInitialSizePowOf2 - 1) = Ok (2 ^ (k + 9))"
      using k(1,2) by (simp add: shift_one_def kInitialSizePowOf2_def)
    have "which d n v = bind_outcome (shift_one (k + kInitialSizePowOf2 - 1)) (\<lambda>first.
        bind_outcome (if k > ve_vectLvl ?v then expand d k ?v else Ok ?v) (\<lambda>v. Ok ((k, unat (n - of_nat first)), v)))"
      using False by (simp only: which_def Let_def k_def if_False)
    then have "which d n v = Ok (place (unat n), v')"
      by (simp only: v'(1) shift bind_outcome.simps index pl)
    ultimately show ?thesis using v' size vects by auto
  qed
qed

section \<open>References into a growing map\<close>

text \<open>
  What users of the vector rely on: a reference obtained for an index designates that index for good, whatever
  is allocated later, and reading and writing through references is reading and writing a map.
\<close>

locale growing_map =
  fixes empty :: 's and index :: "nat \<Rightarrow> 's \<Rightarrow> ('l \<times> 's) outcome" and load :: "'s \<Rightarrow> 'l \<Rightarrow> 'a" and store :: "'l \<Rightarrow> 'a \<Rightarrow> 's \<Rightarrow> 's"
    and inv :: "'s \<Rightarrow> bool" and valid :: "'s \<Rightarrow> 'l \<Rightarrow> bool" and location :: "nat \<Rightarrow> 'l" and view :: "'s \<Rightarrow> nat \<Rightarrow> 'a"
    and initial :: 'a and limit :: nat
  assumes empty_inv: "inv empty" and empty_view: "view empty n = initial"
    and index_returns: "inv s \<Longrightarrow> n < limit \<Longrightarrow> \<exists>s'. index n s = Ok (location n, s') \<and> inv s' \<and> valid s' (location n)"
    and index_view: "inv s \<Longrightarrow> n < limit \<Longrightarrow> index n s = Ok (l, s') \<Longrightarrow> view s' = view s"
    and index_keeps: "inv s \<Longrightarrow> n < limit \<Longrightarrow> index n s = Ok (l, s') \<Longrightarrow> valid s k \<Longrightarrow> valid s' k"
    and load_view: "inv s \<Longrightarrow> valid s (location n) \<Longrightarrow> load s (location n) = view s n"
    and store_inv: "inv s \<Longrightarrow> valid s l \<Longrightarrow> inv (store l x s)"
    and store_valid: "valid (store l x s) k = valid s k"
    and store_view: "inv s \<Longrightarrow> valid s (location n) \<Longrightarrow> view (store (location n) x s) = (view s)(n := x)"
begin

lemma index_run:
  assumes "inv s" "n < limit"
  obtains s' where "index n s = Ok (location n, s')" "inv s'" "valid s' (location n)" "view s' = view s" "\<And>k. valid s k \<Longrightarrow> valid s' k"
  using index_returns [OF assms] index_view [OF assms] index_keeps [OF assms] by blast

lemma load_store: "inv s \<Longrightarrow> valid s (location n) \<Longrightarrow> valid s (location m) \<Longrightarrow>
    load (store (location n) x s) (location m) = (if m = n then x else load s (location m))"
  by (simp add: load_view store_inv store_valid store_view)

text \<open>A reference taken before the map grows can be used after it.\<close>

lemma reference_stable:
  assumes "inv s" "valid s (location n)" "m < limit" "index m s = Ok (l, s')"
  shows "inv s' \<and> valid s' (location n) \<and> load s' (location n) = load s (location n)"
proof -
  from index_returns [OF assms(1,3)] assms(4) have "inv s'" by simp
  with assms index_view [OF assms(1,3,4)] index_keeps [OF assms(1,3,4)] show ?thesis by (simp add: load_view)
qed

end

lemma place_in_vector: "in_vector v (place n) \<Longrightarrow> vector_at d v n = load v (place n)"
  by (simp add: vector_at_def)

lemma store_simps [simp]:
  "in_vector (store l x v) k = in_vector v k" "ve_vectLvl (store l x v) = ve_vectLvl v" "ve_size (store l x v) = ve_size v"
  by (cases "fst l = fst k"; auto simp: store_def in_vector_def)+

lemma store_vector_inv: "vector_inv v \<Longrightarrow> vector_inv (store l x v)"
  unfolding vector_inv_def store_def
  by (auto, metis length_list_update nth_list_update_eq nth_list_update_neq)

lemma load_store_vector: "in_vector v l \<Longrightarrow> load (store l x v) k = (if k = l then x else load v k)"
  by (auto simp: load_def store_def in_vector_def nth_list_update prod_eq_iff)

lemma store_vector_at:
  assumes "in_vector v (place n)"
  shows "vector_at d (store (place n) x v) = (vector_at d v)(n := x)"
proof
  fix m
  have "place m = place n \<longleftrightarrow> m = n" using place_injective place_place_ok by metis
  then show "vector_at d (store (place n) x v) m = ((vector_at d v)(n := x)) m"
    using assms by (auto simp: vector_at_def load_store_vector)
qed

lemma new_vector_at: "vector_inv (new_stable_vector d)" "vector_at d (new_stable_vector d) n = d"
  by (auto simp: new_stable_vector_def vector_inv_def level_size_def kInitialSizePowOf2_def vector_at_def in_vector_def load_def)

lemma new_stable_vector_size: "ve_size (new_stable_vector d) = 0"
  by (simp add: new_stable_vector_def)

lemma grown_vector_at:
  assumes "ve_vects v' = ve_vects v @ new" "\<forall>xs \<in> set new. set xs \<subseteq> {d}"
  shows "in_vector v k \<Longrightarrow> in_vector v' k \<and> load v' k = load v k" and "vector_at d v' = vector_at d v"
proof -
  show old: "in_vector v' k \<and> load v' k = load v k" if "in_vector v k" for k
    using that assms(1) by (auto simp: in_vector_def load_def nth_append)
  have fresh: "load v' k = d" if "in_vector v' k" "\<not> in_vector v k" for k
  proof -
    from that assms(1) have k: "length (ve_vects v) \<le> fst k"
      by (auto simp: in_vector_def nth_append not_less split: if_splits)
    with that(1) assms(1) have "ve_vects v' ! fst k \<in> set new" "snd k < length (ve_vects v' ! fst k)"
      by (auto simp: in_vector_def nth_append)
    with assms(2) show ?thesis by (force simp: load_def)
  qed
  show "vector_at d v' = vector_at d v"
  proof
    fix n
    show "vector_at d v' n = vector_at d v n"
      using old [of "place n"] fresh [of "place n"] by (auto simp: vector_at_def)
  qed
qed

lemma vector_view:
  assumes inv: "vector_inv v" and n: "unat n < 2 ^ 31"
  shows "\<exists>v'. at_index d n v = Ok (place (unat n), v') \<and> vector_inv v' \<and> in_vector v' (place (unat n)) \<and>
     vector_at d v' = vector_at d v \<and> ve_size v' = max (ve_size v) (ucast n + 1) \<and>
     (\<forall>k. in_vector v k \<longrightarrow> in_vector v' k \<and> load v' k = load v k)"
proof -
  from which_place [OF inv n, of d] obtain v' new where v': "which d n v = Ok (place (unat n), v')" "vector_inv v'"
      "in_vector v' (place (unat n))" "ve_size v' = max (ve_size v) (ucast n + 1)"
    and new: "ve_vects v' = ve_vects v @ new" "\<forall>xs \<in> set new. set xs \<subseteq> {d}" by blast
  from grown_vector_at [OF new] v' show ?thesis by (intro exI [of _ v']) (simp add: at_index_def)
qed

text \<open>
  C20: The vector is a map from indexes to values. Indexing below \<open>2 ^ 31\<close>, which covers every file descriptor, always
  returns a reference within the allocated levels; it changes no value, moves no element, so that references taken
  earlier stay valid, and grows the size just enough; and assigning through the reference updates the map at the index
  and nowhere else.
\<close>

theorem stable_vector_refines_map:
  assumes inv: "vector_inv v" and n: "unat n < 2 ^ 31"
  shows "\<exists>l v'. at_index d n v = Ok (l, v') \<and> vector_inv v' \<and> vector_at d v' = vector_at d v \<and>
     ve_size v' = max (ve_size v) (ucast n + 1) \<and> load v' l = vector_at d v (unat n) \<and>
     (\<forall>x. vector_inv (store l x v') \<and> vector_at d (store l x v') = (vector_at d v)(unat n := x)) \<and>
     (\<forall>k. in_vector v k \<longrightarrow> in_vector v' k \<and> load v' k = load v k)"
proof -
  from vector_view [OF inv n, of d] obtain v' where v': "at_index d n v = Ok (place (unat n), v')" "vector_inv v'"
      "in_vector v' (place (unat n))" "vector_at d v' = vector_at d v" "ve_size v' = max (ve_size v) (ucast n + 1)"
      "\<forall>k. in_vector v k \<longrightarrow> in_vector v' k \<and> load v' k = load v k" by blast
  with place_in_vector [OF v'(3), of d] store_vector_inv [OF v'(2)] store_vector_at [OF v'(3), of d] show ?thesis
    by (intro exI [of _ "place (unat n)"] exI [of _ v']) simp
qed

text \<open>A vector in which index 5000 was assigned: it lives on the third level.\<close>

theorem stable_vector_refines_map_witness:
  "\<exists>l v'. at_index (0 :: nat) 5000 (new_stable_vector 0) = Ok (l, v') \<and> ve_size v' = 5001 \<and>
     vector_at 0 (store l 7 v') 5000 = 7 \<and> vector_at 0 (store l 7 v') 4999 = 0"
proof -
  have "unat (5000 :: 32 word) < 2 ^ 31" by simp
  from stable_vector_refines_map [OF new_vector_at(1) this, of "0 :: nat" 0] show ?thesis
    using new_vector_at(2) [of "0 :: nat"] by (auto simp: new_stable_vector_size)
qed

interpretation vector: growing_map "new_stable_vector d" "\<lambda>n. at_index d (of_nat n)" load store vector_inv in_vector place "vector_at d" d "2 ^ 31"
  for d
proof (unfold_locales, goal_cases)
  case (3 s n)
  then have "unat (of_nat n :: 32 word) = n" by (intro unat_of_nat_less) simp
  with which_place [OF 3(1), of "of_nat n" d] 3(2) obtain v' where
    "which d (of_nat n) s = Ok (place n, v')" "vector_inv v'" "in_vector v' (place n)" by auto
  then show ?case by (intro exI [of _ v']) (simp add: at_index_def)
next
  case (4 s n l s')
  then have "unat (of_nat n :: 32 word) < 2 ^ 31" by (simp add: unat_of_nat_less)
  from vector_view [OF 4(1) this, of d] 4(3) show ?case by auto
next
  case (5 s n l s' k)
  then have "unat (of_nat n :: 32 word) < 2 ^ 31" by (simp add: unat_of_nat_less)
  from vector_view [OF 5(1) this, of d] 5(3,4) show ?case by (cases k) auto
qed (simp_all add: new_vector_at place_in_vector store_vector_inv store_vector_at)

end
