(* ===== verification/Client_Info.thy ===== *)
theory Client_Info
  imports Stable_Vector Cpp_Library
begin

text \<open>
  Statistics of the clients of a server (\<^verbatim>\<open>contrib/fb303/TClientInfo.cpp\<close>): a record per file descriptor, kept in a
  \<^verbatim>\<open>StableVector\<close> and updated by the hooks the server calls. Uninitialised members are \<open>None\<close>, the uninitialised
  rest of a character array is an argument of the constructor; the conversion of addresses to text and the printed form of a
  duration are parameters.
\<close>

section \<open>One connection\<close>

datatype ip_family = AF_UNSPEC | AF_INET | AF_INET6 | AF_other int

record sockaddr =
  sa_family :: ip_family
  sa_bytes :: string

type_synonym timespec = "int \<times> int"

record client_conn =
  cn_call :: string
  cn_addr :: sockaddr
  cn_time :: "timespec option"
  cn_ncalls :: "int option"

definition kNameLen :: nat where
  "kNameLen = 32"

definition NUL :: char where
  "NUL = CHR 0x00"

definition eraseAddr :: "client_conn \<Rightarrow> client_conn" where
  "eraseAddr c = c\<lparr>cn_addr := (cn_addr c)\<lparr>sa_family := AF_UNSPEC\<rparr>\<rparr>"

definition eraseCall :: "client_conn \<Rightarrow> client_conn" where
  "eraseCall c = c\<lparr>cn_call := (cn_call c)[0 := NUL]\<rparr>"

text \<open>\<open>garbage\<close> is what the memory of the object held.\<close>

definition new_client_conn :: "string \<Rightarrow> sockaddr \<Rightarrow> client_conn" where
  "new_client_conn garbage addr_garbage =
     eraseCall (eraseAddr \<lparr>cn_call = (take kNameLen (garbage @ replicate kNameLen NUL))[kNameLen - 1 := NUL],
       cn_addr = addr_garbage, cn_time = None, cn_ncalls = None\<rparr>)"

definition initTime :: "timespec \<Rightarrow> client_conn \<Rightarrow> client_conn" where
  "initTime now c = c\<lparr>cn_time := Some now\<rparr>"

definition recordAddr :: "timespec \<Rightarrow> sockaddr option \<Rightarrow> client_conn \<Rightarrow> client_conn" where
  "recordAddr now addr c =
     (let c = (initTime now (eraseAddr c))\<lparr>cn_ncalls := Some 0\<rparr>
      in case addr of
           None \<Rightarrow> c
         | Some a \<Rightarrow> if sa_family a = AF_INET \<or> sa_family a = AF_INET6 then c\<lparr>cn_addr := a\<rparr> else c)"

definition getAddr :: "(ip_family \<Rightarrow> string \<Rightarrow> string option) \<Rightarrow> client_conn \<Rightarrow> string option" where
  "getAddr inet_ntop c =
     (case sa_family (cn_addr c) of
        AF_INET \<Rightarrow> inet_ntop AF_INET (sa_bytes (cn_addr c))
      | AF_INET6 \<Rightarrow> inet_ntop AF_INET6 (sa_bytes (cn_addr c))
      | _ \<Rightarrow> None)"

text \<open>A C string ends at the first null character; \<^verbatim>\<open>strncpy\<close> pads with them and writes no more than \<open>n\<close> characters.\<close>

definition c_text :: "string \<Rightarrow> string" where
  "c_text s = takeWhile (\<lambda>c. c \<noteq> NUL) s"

definition strncpy :: "string \<Rightarrow> string \<Rightarrow> nat \<Rightarrow> string" where
  "strncpy dst src n = take n (c_text src @ replicate n NUL) @ drop n dst"

definition recordCall :: "string \<Rightarrow> client_conn \<Rightarrow> client_conn outcome" where
  "recordCall name c =
     bind_outcome (deref (cn_ncalls c)) (\<lambda>n.
       Ok (c\<lparr>cn_call := strncpy (cn_call c) name (kNameLen - 1), cn_ncalls := Some (to_uint64 (n + 1))\<rparr>))"

definition getCall :: "client_conn \<Rightarrow> string option" where
  "getCall c = (if cn_call c ! 0 = NUL then None else Some (c_text (cn_call c)))"

definition getTime :: "client_conn \<Rightarrow> timespec outcome" where
  "getTime c = deref (cn_time c)"

definition getNCalls :: "client_conn \<Rightarrow> int outcome" where
  "getNCalls c = deref (cn_ncalls c)"

section \<open>The table of connections\<close>

type_synonym client_info = "client_conn stable_vector"

text \<open>\<open>d\<close> is the object the constructor makes.\<close>

definition getConnection :: "client_conn \<Rightarrow> int \<Rightarrow> bool \<Rightarrow> client_info \<Rightarrow> ((nat \<times> nat) option \<times> client_info) outcome" where
  "getConnection d fd grow info =
     (if fd < 0 \<or> \<not> grow \<and> fd \<ge> uint (ve_size info) then Ok (None, info)
      else bind_outcome (at_index d (of_int fd) info) (\<lambda>(l, info). Ok (Some l, info)))"

definition client_info_size :: "client_info \<Rightarrow> 64 word" where
  "client_info_size info = ve_size info"

section \<open>The hooks of the server\<close>

text \<open>
  The contexts the server was given and has not deleted, each with the record it was linked to: \<^verbatim>\<open>callInfo_\<close>, null until
  the first request.
\<close>

record client_server =
  cs_clientInfo :: client_info
  cs_contexts :: "nat \<rightharpoonup> (nat \<times> nat) option"

datatype transport = TSocket int "sockaddr option" | Other_transport

type_synonym 'a hook = "(client_server, 'a) action"

definition createContext :: "nat \<Rightarrow> unit hook" where
  "createContext cid = modify (\<lambda>s. s\<lparr>cs_contexts := (cs_contexts s)(cid \<mapsto> None)\<rparr>)"

text \<open>A method of a record that is reached through a reference.\<close>

definition on_client :: "nat \<times> nat \<Rightarrow> (client_conn \<Rightarrow> client_conn outcome) \<Rightarrow> unit hook" where
  "on_client l f =
     bindA (getsO (\<lambda>s. if in_vector (cs_clientInfo s) l then f (load (cs_clientInfo s) l) else Undefined)) (\<lambda>c.
       modify (\<lambda>s. s\<lparr>cs_clientInfo := store l c (cs_clientInfo s)\<rparr>))"

definition deleteContext :: "nat \<Rightarrow> unit hook" where
  "deleteContext cid =
     bindA (getsO (\<lambda>s. deref (cs_contexts s cid))) (\<lambda>callInfo.
       seqA (case callInfo of None \<Rightarrow> returnA () | Some l \<Rightarrow> on_client l (\<lambda>c. Ok (eraseCall c)))
            (modify (\<lambda>s. s\<lparr>cs_contexts := (cs_contexts s)(cid := None)\<rparr>)))"

definition processContext :: "client_conn \<Rightarrow> timespec \<Rightarrow> nat \<Rightarrow> transport \<Rightarrow> unit hook" where
  "processContext d now cid tr =
     bindA (getsO (\<lambda>s. deref (cs_contexts s cid))) (\<lambda>callInfo.
       if callInfo \<noteq> None then returnA ()
       else (case tr of
          Other_transport \<Rightarrow> returnA ()
        | TSocket fd addr \<Rightarrow>
            if fd < 0 then returnA ()
            else
              bindA (getsO (\<lambda>s. getConnection d fd True (cs_clientInfo s))) (\<lambda>(l, info).
                seqA (modify (\<lambda>s. s\<lparr>cs_clientInfo := info, cs_contexts := (cs_contexts s)(cid \<mapsto> l)\<rparr>))
                  (bindA (getsO (\<lambda>_. deref l)) (\<lambda>l. on_client l (\<lambda>c. Ok (recordAddr now addr c)))))))"

definition getContext :: "string \<Rightarrow> nat option \<Rightarrow> unit hook" where
  "getContext fn_name serverContext =
     (case serverContext of
        None \<Rightarrow> returnA ()
      | Some cid \<Rightarrow>
          bindA (getsO (\<lambda>s. deref (cs_contexts s cid))) (\<lambda>callInfo.
            (case callInfo of None \<Rightarrow> returnA () | Some l \<Rightarrow> on_client l (recordCall fn_name))))"

section \<open>The report\<close>

text \<open>One line; \<^verbatim>\<open>snprintf\<close> writes at most 255 characters into its buffer.\<close>

definition stats_line :: "(timespec \<Rightarrow> timespec \<Rightarrow> string) \<Rightarrow> timespec \<Rightarrow> int \<Rightarrow> string \<Rightarrow> string \<Rightarrow> timespec \<Rightarrow> int \<Rightarrow> string" where
  "stats_line secs now i addrStr callStr start ncalls =
     take 255 (show_int i @ '' '' @ addrStr @ '' '' @ callStr @ '' '' @ secs now start @ '' '' @ show_int ncalls)"

definition client_stats :: "(ip_family \<Rightarrow> string \<Rightarrow> string option) \<Rightarrow> (timespec \<Rightarrow> timespec \<Rightarrow> string) \<Rightarrow> timespec \<Rightarrow> int \<Rightarrow>
    client_conn \<Rightarrow> string list outcome" where
  "client_stats inet_ntop secs now i c =
     (case getCall c of
        None \<Rightarrow> Ok []
      | Some callStr \<Rightarrow>
          (case getAddr inet_ntop c of
             None \<Rightarrow> Ok []
           | Some addrStr \<Rightarrow>
               bind_outcome (getTime c) (\<lambda>start.
               bind_outcome (getNCalls c) (\<lambda>n. Ok [stats_line secs now i addrStr callStr start n]))))"

text \<open>The loop counts with an \<^verbatim>\<open>int\<close>, which must not overflow.\<close>

fun stats_loop :: "(int \<Rightarrow> client_conn \<Rightarrow> string list outcome) \<Rightarrow> client_conn \<Rightarrow> int list \<Rightarrow> string list \<Rightarrow> client_info \<Rightarrow>
    (string list \<times> client_info) outcome" where
  "stats_loop line d [] result info = Ok (result, info)"
| "stats_loop line d (i # is) result info =
     bind_outcome (getConnection d i False info) (\<lambda>(l, info).
     bind_outcome (deref l) (\<lambda>l.
     bind_outcome (line i (load info l)) (\<lambda>out.
       if i = 2147483647 then Undefined else stats_loop line d is (result @ out) info)))"

definition getStatsStrings :: "(ip_family \<Rightarrow> string \<Rightarrow> string option) \<Rightarrow> (timespec \<Rightarrow> timespec \<Rightarrow> string) \<Rightarrow> client_conn \<Rightarrow> timespec \<Rightarrow>
    string list hook" where
  "getStatsStrings inet_ntop secs d now =
     bindA (getsO (\<lambda>s. stats_loop (client_stats inet_ntop secs now) d (map int [0..<unat (client_info_size (cs_clientInfo s))]) [] (cs_clientInfo s)))
       (\<lambda>(result, info). seqA (modify (\<lambda>s. s\<lparr>cs_clientInfo := info\<rparr>)) (returnA result))"

section \<open>What a server can do\<close>

text \<open>
  The events of a server: it creates a context for a connection, announces each request with the transport, the call handler
  is told the name of the function, and the context is deleted in the end. A context is used between its creation and its
  deletion, and a socket has a descriptor below the largest \<^verbatim>\<open>int\<close>.
\<close>

datatype client_event =
    Create nat
  | Process timespec nat transport
  | Call string "nat option"
  | Delete nat
  | Stats timespec

definition no_result :: "'a hook \<Rightarrow> unit hook" where
  "no_result m = bindA m (\<lambda>_. returnA ())"

fun client_hook :: "(ip_family \<Rightarrow> string \<Rightarrow> string option) \<Rightarrow> (timespec \<Rightarrow> timespec \<Rightarrow> string) \<Rightarrow> client_conn \<Rightarrow> client_event \<Rightarrow> unit hook" where
  "client_hook inet_ntop secs d (Create cid) = createContext cid"
| "client_hook inet_ntop secs d (Process now cid tr) = processContext d now cid tr"
| "client_hook inet_ntop secs d (Call name ctx) = getContext name ctx"
| "client_hook inet_ntop secs d (Delete cid) = deleteContext cid"
| "client_hook inet_ntop secs d (Stats now) = no_result (getStatsStrings inet_ntop secs d now)"

fun small_socket :: "transport \<Rightarrow> bool" where
  "small_socket (TSocket fd addr) = (fd < 2147483647)"
| "small_socket Other_transport = True"

fun client_allowed :: "client_event \<Rightarrow> client_server \<Rightarrow> bool" where
  "client_allowed (Create cid) s = (cs_contexts s cid = None)"
| "client_allowed (Process now cid tr) s = (cs_contexts s cid \<noteq> None \<and> small_socket tr)"
| "client_allowed (Call name ctx) s = (case ctx of None \<Rightarrow> True | Some cid \<Rightarrow> cs_contexts s cid \<noteq> None)"
| "client_allowed (Delete cid) s = (cs_contexts s cid \<noteq> None)"
| "client_allowed (Stats now) s = True"

definition new_client_server :: "client_conn \<Rightarrow> client_server" where
  "new_client_server d = \<lparr>cs_clientInfo = new_stable_vector d, cs_contexts = Map.empty\<rparr>"

inductive client_reachable :: "(ip_family \<Rightarrow> string \<Rightarrow> string option) \<Rightarrow> (timespec \<Rightarrow> timespec \<Rightarrow> string) \<Rightarrow> client_conn \<Rightarrow>
    client_server \<Rightarrow> bool" for ntop secs d where
  client_start: "client_reachable ntop secs d (new_client_server d)"
| client_step: "client_reachable ntop secs d s \<Longrightarrow> client_allowed e s \<Longrightarrow>
     client_reachable ntop secs d (snd (client_hook ntop secs d e s))"

section \<open>The invariant\<close>

text \<open>
  A record whose call name is not empty has been initialised, and a linked context refers to an initialised record.
\<close>

definition started :: "client_conn \<Rightarrow> bool" where
  "started c \<longleftrightarrow> cn_time c \<noteq> None \<and> cn_ncalls c \<noteq> None"

definition conn_ok :: "client_conn \<Rightarrow> bool" where
  "conn_ok c \<longleftrightarrow> length (cn_call c) = 32 \<and> cn_call c ! 31 = NUL \<and> (cn_call c ! 0 = NUL \<or> started c)"

definition linked :: "client_conn \<Rightarrow> client_info \<Rightarrow> nat \<times> nat \<Rightarrow> bool" where
  "linked d info l \<longleftrightarrow> (\<exists>n. l = place n \<and> in_vector info l \<and> started (vector_at d info n))"

definition client_inv :: "client_conn \<Rightarrow> client_server \<Rightarrow> bool" where
  "client_inv d s \<longleftrightarrow> vector_inv (cs_clientInfo s) \<and> unat (ve_size (cs_clientInfo s)) \<le> 2147483647 \<and>
     (\<forall>n. conn_ok (vector_at d (cs_clientInfo s) n)) \<and>
     (\<forall>cid l. cs_contexts s cid = Some (Some l) \<longrightarrow> linked d (cs_clientInfo s) l)"

lemma client_invD:
  assumes "client_inv d s"
  shows "vector_inv (cs_clientInfo s)" "unat (ve_size (cs_clientInfo s)) \<le> 2147483647"
    "conn_ok (vector_at d (cs_clientInfo s) n)" "cs_contexts s cid = Some (Some l) \<Longrightarrow> linked d (cs_clientInfo s) l"
  using assms unfolding client_inv_def by blast+

lemma length_strncpy: "length (strncpy dst src n) = n + (length dst - n)"
  by (simp add: strncpy_def)

lemma nth_strncpy: "n \<le> i \<Longrightarrow> i < length dst \<Longrightarrow> strncpy dst src n ! i = dst ! i"
  by (auto simp: strncpy_def nth_append min_def)

lemma new_client_conn_ok: "conn_ok (new_client_conn garbage addr_garbage)"
  by (simp add: conn_ok_def new_client_conn_def eraseCall_def eraseAddr_def kNameLen_def)

lemma eraseCall_ok: "conn_ok c \<Longrightarrow> conn_ok (eraseCall c) \<and> started (eraseCall c) = started c"
  by (simp add: conn_ok_def eraseCall_def started_def)

lemma recordAddr_ok: "conn_ok c \<Longrightarrow> conn_ok (recordAddr now addr c) \<and> started (recordAddr now addr c)"
  by (auto simp: conn_ok_def recordAddr_def Let_def initTime_def eraseAddr_def started_def split: option.splits)

lemma recordCall_ok:
  assumes "conn_ok c" "started c"
  obtains c' where "recordCall name c = Ok c'" "conn_ok c'" "started c'"
  using assms by (auto simp: recordCall_def started_def conn_ok_def kNameLen_def length_strncpy nth_strncpy)

text \<open>Writing a record through a reference keeps the invariant when the new record is initialised if the old one was.\<close>

lemma run_on_client:
  assumes "in_vector (cs_clientInfo s) l" "f (load (cs_clientInfo s) l) = Ok c"
  shows "on_client l f s = (Ok (), s\<lparr>cs_clientInfo := store l c (cs_clientInfo s)\<rparr>)"
  using assms by (simp add: on_client_def run_simps)

lemma store_client_inv:
  assumes inv: "client_inv d s" and l: "l = place n" "in_vector (cs_clientInfo s) l"
    and c: "conn_ok c" "started (load (cs_clientInfo s) l) \<Longrightarrow> started c"
  shows "client_inv d (s\<lparr>cs_clientInfo := store l c (cs_clientInfo s)\<rparr>)"
proof -
  let ?v = "cs_clientInfo s" and ?v' = "store l c (cs_clientInfo s)"
  have view: "vector_at d ?v' = (vector_at d ?v)(n := c)" using store_vector_at l by (metis (no_types))
  have old: "load ?v l = vector_at d ?v n" using place_in_vector l by metis
  have "linked d ?v' k" if "linked d ?v k" for k
  proof -
    from that obtain m where m: "k = place m" "in_vector ?v k" "started (vector_at d ?v m)" by (auto simp: linked_def)
    have "started (vector_at d ?v' m)"
      using m(3) c(2) by (cases "m = n") (simp_all only: view old fun_upd_same fun_upd_other not_False_eq_True)
    with m show ?thesis by (auto simp: linked_def)
  qed
  with client_invD [OF inv] c(1) show ?thesis
    by (auto simp: client_inv_def store_vector_inv view)
qed

lemma on_client_keeps:
  assumes inv: "client_inv d s" and l: "linked d (cs_clientInfo s) l"
    and f: "\<And>c. conn_ok c \<Longrightarrow> started c \<Longrightarrow> \<exists>c'. f c = Ok c' \<and> conn_ok c' \<and> started c'"
  shows "\<exists>c. on_client l f s = (Ok (), s\<lparr>cs_clientInfo := store l c (cs_clientInfo s)\<rparr>) \<and>
     client_inv d (s\<lparr>cs_clientInfo := store l c (cs_clientInfo s)\<rparr>)"
proof -
  from l obtain n where n: "l = place n" "in_vector (cs_clientInfo s) l" "started (load (cs_clientInfo s) l)"
    using place_in_vector by (metis linked_def)
  have "conn_ok (load (cs_clientInfo s) l)" using client_invD(3) [OF inv] place_in_vector n(1,2) by metis
  with f n(3) obtain c where "f (load (cs_clientInfo s) l) = Ok c" "conn_ok c" "started c" by blast
  with run_on_client [OF n(2)] store_client_inv [OF inv n(1,2)] show ?thesis by blast
qed

lemma getConnection_run:
  assumes inv: "client_inv d s" and fd: "0 \<le> fd" "fd < 2147483647" and grow: "grow \<or> fd < uint (ve_size (cs_clientInfo s))"
  obtains info where "getConnection d fd grow (cs_clientInfo s) = Ok (Some (place (nat fd)), info)"
    "client_inv d (s\<lparr>cs_clientInfo := info\<rparr>)" "vector_at d info = vector_at d (cs_clientInfo s)" "in_vector info (place (nat fd))"
    "fd < uint (ve_size (cs_clientInfo s)) \<Longrightarrow> ve_size info = ve_size (cs_clientInfo s)"
    "\<And>k. in_vector (cs_clientInfo s) k \<Longrightarrow> in_vector info k"
proof -
  let ?v = "cs_clientInfo s" and ?n = "of_int fd :: 32 word"
  have n: "unat ?n = nat fd" using fd unat_of_nat_less [of "nat fd"] by (simp add: nat_less_iff)
  with fd have "unat ?n < 2 ^ 31" by (simp add: nat_less_iff)
  from vector_view [OF client_invD(1) [OF inv] this, of d] n obtain info where
    info: "at_index d ?n ?v = Ok (place (nat fd), info)" "vector_inv info" "in_vector info (place (nat fd))"
      "vector_at d info = vector_at d ?v" "ve_size info = max (ve_size ?v) (ucast ?n + 1)"
      "\<And>k. in_vector ?v k \<Longrightarrow> in_vector info k" by metis
  have word: "unat (ucast ?n + 1 :: 64 word) = nat fd + 1" using ucast_64(2) [of ?n] n fd by (simp add: nat_less_iff)
  have size: "ve_size info = ve_size ?v" if "fd < uint (ve_size ?v)"
  proof -
    have "nat fd + 1 \<le> unat (ve_size ?v)" using that fd by (simp add: nat_less_iff Suc_le_eq flip: uint_nat)
    with word info(5) show ?thesis by (simp add: max_def word_le_nat_alt word_unat_eq_iff)
  qed
  have "unat (ve_size info) \<le> 2147483647"
    using client_invD(2) [OF inv] info(5) word fd by (auto simp: max_def)
  moreover have "linked d info l" if "linked d ?v l" for l using that info(6) unfolding linked_def info(4) by blast
  ultimately have "client_inv d (s\<lparr>cs_clientInfo := info\<rparr>)"
    using client_invD [OF inv] info(2,4) by (simp add: client_inv_def)
  moreover have "getConnection d fd grow ?v = Ok (Some (place (nat fd)), info)"
    using fd grow info(1) by (auto simp: getConnection_def)
  ultimately show thesis using that info(3,4,6) size by blast
qed

lemma run_processContext:
  assumes inv: "client_inv d s" and ctx: "cs_contexts s cid = Some None" and fd: "0 \<le> fd" "fd < 2147483647"
  obtains s' where "processContext d now cid (TSocket fd addr) s = (Ok (), s')" "client_inv d s'"
    "cs_contexts s' = (cs_contexts s)(cid \<mapsto> Some (place (nat fd)))"
    "in_vector (cs_clientInfo s') (place (nat fd))"
    "vector_at d (cs_clientInfo s') = (vector_at d (cs_clientInfo s))(nat fd := recordAddr now addr (vector_at d (cs_clientInfo s) (nat fd)))"
proof -
  let ?l = "place (nat fd)" and ?old = "vector_at d (cs_clientInfo s) (nat fd)"
  from getConnection_run [OF inv fd, of True] obtain info where
    info: "getConnection d fd True (cs_clientInfo s) = Ok (Some ?l, info)"
      "client_inv d (s\<lparr>cs_clientInfo := info\<rparr>)" "vector_at d info = vector_at d (cs_clientInfo s)" "in_vector info ?l" by blast
  let ?new = "recordAddr now addr ?old" and ?s = "s\<lparr>cs_clientInfo := info, cs_contexts := (cs_contexts s)(cid \<mapsto> Some ?l)\<rparr>"
  let ?s' = "?s\<lparr>cs_clientInfo := store ?l ?new info\<rparr>"
  have load: "load info ?l = ?old" using place_in_vector [OF info(4), of d] info(3) by simp
  have new: "conn_ok ?new" "started ?new" using recordAddr_ok client_invD(3) [OF inv] by blast+
  have view: "vector_at d (store ?l ?new info) = (vector_at d (cs_clientInfo s))(nat fd := ?new)"
    using store_vector_at [OF info(4)] info(3) by simp
  have "client_inv d (s\<lparr>cs_clientInfo := store ?l ?new info\<rparr>)"
    using store_client_inv [OF info(2) refl, of "nat fd" ?new] info(4) new by simp
  then have "client_inv d ?s'"
    using new(2) info(4) by (auto simp: client_inv_def linked_def view)
  moreover have "on_client ?l (\<lambda>c. Ok (recordAddr now addr c)) ?s = (Ok (), ?s')"
    using run_on_client [of ?s ?l] info(4) load by simp
  then have "processContext d now cid (TSocket fd addr) s = (Ok (), ?s')"
    using ctx fd info(1) by (simp add: processContext_def run_simps)
  ultimately show thesis using that view info(4) by simp
qed

section \<open>The report of a state\<close>

text \<open>The lines of the records that have a call and an address, in the order of the descriptors.\<close>

definition report_line :: "(ip_family \<Rightarrow> string \<Rightarrow> string option) \<Rightarrow> (timespec \<Rightarrow> timespec \<Rightarrow> string) \<Rightarrow> timespec \<Rightarrow> (nat \<Rightarrow> client_conn) \<Rightarrow>
    nat \<Rightarrow> string list" where
  "report_line ntop secs now conn i =
     (case (getCall (conn i), getAddr ntop (conn i)) of
        (Some name, Some addr) \<Rightarrow> [stats_line secs now (int i) addr name (the (cn_time (conn i))) (the (cn_ncalls (conn i)))]
      | _ \<Rightarrow> [])"

lemma client_stats_line:
  assumes "conn_ok (conn i)"
  shows "client_stats ntop secs now (int i) (conn i) = Ok (report_line ntop secs now conn i)"
  using assms
  by (auto simp: client_stats_def report_line_def getCall_def getTime_def getNCalls_def conn_ok_def started_def split: option.splits)

lemma stats_loop_run:
  assumes "client_inv d s" and "\<forall>i \<in> set is. i < unat (ve_size (cs_clientInfo s))"
  shows "\<exists>info. stats_loop (client_stats ntop secs now) d (map int is) result (cs_clientInfo s) =
       Ok (result @ concat (map (report_line ntop secs now (vector_at d (cs_clientInfo s))) is), info) \<and>
     client_inv d (s\<lparr>cs_clientInfo := info\<rparr>) \<and> vector_at d info = vector_at d (cs_clientInfo s)"
  using assms
proof (induction "is" arbitrary: result s)
  case Nil
  then show ?case by simp
next
  case (Cons i "is")
  let ?v = "cs_clientInfo s" and ?lines = "report_line ntop secs now (vector_at d (cs_clientInfo s))"
  from Cons.prems client_invD(2) [OF Cons.prems(1)] have i: "0 \<le> int i" "int i < 2147483647"
    by simp_all
  have size: "int i < uint (ve_size ?v)" using Cons.prems(2) unfolding uint_nat by (simp only: of_nat_less_iff list.set ball_simps)
  obtain info where
    info: "getConnection d (int i) False ?v = Ok (Some (place i), info)" "client_inv d (s\<lparr>cs_clientInfo := info\<rparr>)"
      "vector_at d info = vector_at d ?v" "in_vector info (place i)" "ve_size info = ve_size ?v"
    using getConnection_run [OF Cons.prems(1) i disjI2 [OF size]] size unfolding nat_int by metis
  have "client_stats ntop secs now (int i) (load info (place i)) = Ok (?lines i)"
    using client_stats_line [OF client_invD(3) [OF Cons.prems(1)]] place_in_vector [OF info(4), of d, symmetric] info(3) by simp
  with info(1) i(2) have step: "stats_loop (client_stats ntop secs now) d (map int (i # is)) result ?v =
      stats_loop (client_stats ntop secs now) d (map int is) (result @ ?lines i) info" by simp
  from Cons.IH [OF info(2), of "result @ ?lines i"] Cons.prems(2) info(3,5) step show ?case by simp
qed

lemma run_getStatsStrings:
  assumes "client_inv d s"
  obtains info where
    "getStatsStrings ntop secs d now s = (Ok (concat (map (report_line ntop secs now (vector_at d (cs_clientInfo s)))
       [0..<unat (ve_size (cs_clientInfo s))])), s\<lparr>cs_clientInfo := info\<rparr>)"
    "client_inv d (s\<lparr>cs_clientInfo := info\<rparr>)" "vector_at d info = vector_at d (cs_clientInfo s)"
proof -
  from stats_loop_run [OF assms, of "[0..<unat (ve_size (cs_clientInfo s))]" ntop secs now "[]"] obtain info where
    "stats_loop (client_stats ntop secs now) d (map int [0..<unat (ve_size (cs_clientInfo s))]) [] (cs_clientInfo s) =
       Ok (concat (map (report_line ntop secs now (vector_at d (cs_clientInfo s))) [0..<unat (ve_size (cs_clientInfo s))]), info)"
    "client_inv d (s\<lparr>cs_clientInfo := info\<rparr>)" "vector_at d info = vector_at d (cs_clientInfo s)" by auto
  then show thesis by (intro that [of info]) (simp_all add: getStatsStrings_def client_info_size_def run_simps)
qed

section \<open>Every hook keeps the invariant\<close>

lemma processContext_keeps:
  assumes inv: "client_inv d s" and ctx: "cs_contexts s cid = Some ci" and small: "small_socket tr"
  shows "\<exists>s'. processContext d now cid tr s = (Ok (), s') \<and> client_inv d s'"
proof (cases "\<exists>fd addr. tr = TSocket fd addr \<and> 0 \<le> fd \<and> ci = None")
  case True
  then obtain fd addr where tr: "tr = TSocket fd addr" "0 \<le> fd" "ci = None" by blast
  with small have fd: "fd < 2147483647" by simp
  from run_processContext [OF inv _ tr(2) fd] ctx tr show ?thesis by metis
next
  case False
  with ctx have "processContext d now cid tr s = (Ok (), s)"
    by (cases tr; auto simp: processContext_def run_simps)
  with inv show ?thesis by simp
qed

lemma getContext_keeps:
  assumes inv: "client_inv d s" and live: "\<And>cid. ctx = Some cid \<Longrightarrow> cs_contexts s cid \<noteq> None"
  shows "\<exists>s'. getContext name ctx s = (Ok (), s') \<and> client_inv d s'"
proof (cases "\<exists>cid l. ctx = Some cid \<and> cs_contexts s cid = Some (Some l)")
  case True
  then obtain cid l where ctx: "ctx = Some cid" "cs_contexts s cid = Some (Some l)" by blast
  then have run: "getContext name ctx s = on_client l (recordCall name) s" by (simp add: getContext_def run_simps)
  show ?thesis
    unfolding run using on_client_keeps [OF inv client_invD(4) [OF inv ctx(2)], of "recordCall name"] recordCall_ok by metis
next
  case False
  with live have "getContext name ctx s = (Ok (), s)"
    by (cases ctx; auto simp: getContext_def run_simps split: option.splits)
  with inv show ?thesis by simp
qed

lemma deleteContext_keeps:
  assumes inv: "client_inv d s" and ctx: "cs_contexts s cid = Some ci"
  shows "\<exists>s'. deleteContext cid s = (Ok (), s') \<and> client_inv d s'"
proof -
  have drop: "client_inv d (t\<lparr>cs_contexts := (cs_contexts t)(cid := None)\<rparr>)" if "client_inv d t" for t
    using that by (auto simp: client_inv_def)
  show ?thesis
  proof (cases ci)
    case None
    with ctx drop [OF inv] show ?thesis by (simp add: deleteContext_def run_simps)
  next
    case (Some l)
    from on_client_keeps [OF inv client_invD(4) [OF inv ctx [unfolded Some]], of "\<lambda>c. Ok (eraseCall c)"] eraseCall_ok
    obtain c where c: "on_client l (\<lambda>c. Ok (eraseCall c)) s = (Ok (), s\<lparr>cs_clientInfo := store l c (cs_clientInfo s)\<rparr>)"
      "client_inv d (s\<lparr>cs_clientInfo := store l c (cs_clientInfo s)\<rparr>)" by blast
    from drop [OF c(2)] show ?thesis using ctx Some c(1) by (simp add: deleteContext_def run_simps)
  qed
qed

lemma hook_keeps:
  assumes inv: "client_inv d s" and allowed: "client_allowed e s"
  shows "\<exists>s'. client_hook ntop secs d e s = (Ok (), s') \<and> client_inv d s'"
proof (cases e)
  case (Create cid)
  with inv show ?thesis by (auto simp: createContext_def run_simps client_inv_def)
next
  case (Process now cid tr)
  with allowed obtain ci where "cs_contexts s cid = Some ci" "small_socket tr" by auto
  from processContext_keeps [OF inv this] Process show ?thesis by simp
next
  case (Call name ctx)
  with allowed have "\<And>cid. ctx = Some cid \<Longrightarrow> cs_contexts s cid \<noteq> None" by auto
  from getContext_keeps [OF inv this] Call show ?thesis by simp
next
  case (Delete cid)
  with allowed deleteContext_keeps [OF inv] show ?thesis by auto
next
  case (Stats now)
  from run_getStatsStrings [OF inv, of ntop secs now] show ?thesis
    unfolding Stats client_hook.simps no_result_def by (metis bindA_Ok run_steps(1))
qed

lemma new_client_server_inv: "conn_ok d \<Longrightarrow> client_inv d (new_client_server d)"
  using new_vector_at [of d] by (simp add: client_inv_def new_client_server_def new_stable_vector_size)

lemma client_reachable_inv: "client_reachable ntop secs d s \<Longrightarrow> conn_ok d \<Longrightarrow> client_inv d s"
proof (induction rule: client_reachable.induct)
  case client_start
  then show ?case by (rule new_client_server_inv)
next
  case (client_step s e)
  with hook_keeps [of d s e ntop secs] show ?case by fastforce
qed

text \<open>
  C19: Whatever sequence of connections, requests and disconnections a server goes through, no hook dereferences
  a dangling or null record, reads an uninitialised member or indexes the table out of range, whatever the memory of a
  fresh record held; and the statistics can be asked for at any time and are the lines of the records that have a call and an
  address, each with the start time and the number of calls the record really has.
\<close>

theorem client_statistics_defined:
  assumes reach: "client_reachable ntop secs (new_client_conn garbage addr_garbage) s"
  shows "(\<forall>e. client_allowed e s \<longrightarrow> fst (client_hook ntop secs (new_client_conn garbage addr_garbage) e s) = Ok ()) \<and>
     fst (getStatsStrings ntop secs (new_client_conn garbage addr_garbage) now s) =
       Ok (concat (map (report_line ntop secs now (vector_at (new_client_conn garbage addr_garbage) (cs_clientInfo s)))
         [0..<unat (client_info_size (cs_clientInfo s))])) \<and>
     (\<forall>i. getCall (vector_at (new_client_conn garbage addr_garbage) (cs_clientInfo s) i) \<noteq> None \<longrightarrow>
       started (vector_at (new_client_conn garbage addr_garbage) (cs_clientInfo s) i))"
proof -
  let ?d = "new_client_conn garbage addr_garbage"
  from client_reachable_inv [OF reach new_client_conn_ok] have inv: "client_inv ?d s" .
  have "fst (client_hook ntop secs ?d e s) = Ok ()" if "client_allowed e s" for e
    using hook_keeps [OF inv that, of ntop secs] by auto
  moreover have "fst (getStatsStrings ntop secs ?d now s) =
      Ok (concat (map (report_line ntop secs now (vector_at ?d (cs_clientInfo s))) [0..<unat (client_info_size (cs_clientInfo s))]))"
    using run_getStatsStrings [OF inv, of ntop secs now] unfolding client_info_size_def by (metis fst_conv)
  moreover have "started (vector_at ?d (cs_clientInfo s) i)" if "getCall (vector_at ?d (cs_clientInfo s) i) \<noteq> None" for i
    using client_invD(3) [OF inv, of i] that by (auto simp: getCall_def conn_ok_def)
  ultimately show ?thesis by blast
qed

text \<open>A server with no client, and one to which a request on socket 5 was announced.\<close>

theorem client_statistics_defined_witness:
  "fst (getStatsStrings (\<lambda>_ _. None) (\<lambda>_ _. []) (new_client_conn [] \<lparr>sa_family = AF_UNSPEC, sa_bytes = []\<rparr>) (1, 0)
     (new_client_server (new_client_conn [] \<lparr>sa_family = AF_UNSPEC, sa_bytes = []\<rparr>))) = Ok []"
  using client_statistics_defined [where now = "(1, 0)", OF client_start, of "[]" "\<lparr>sa_family = AF_UNSPEC, sa_bytes = []\<rparr>" "\<lambda>_ _. None" "\<lambda>_ _. []"]
  by (simp add: new_client_server_def new_stable_vector_size client_info_size_def)

section \<open>What is reported of a connection\<close>

lemma c_text_strncpy:
  assumes "length dst = n + 1" "dst ! n = NUL"
  shows "c_text (strncpy dst src n) = take n (c_text src)"
proof -
  have rest: "drop n dst = [NUL]" using assms Cons_nth_drop_Suc [of n dst] by simp
  have "takeWhile (\<lambda>c. c \<noteq> NUL) (take n (c_text src @ replicate n NUL) @ [NUL]) = take n (c_text src)"
  proof -
    have no_nul: "c \<noteq> NUL" if "c \<in> set (take n (c_text src))" for c
      using that by (auto simp: c_text_def dest: in_set_takeD set_takeWhileD)
    have "takeWhile (\<lambda>c. c \<noteq> NUL) (replicate k NUL @ [NUL]) = []" for k by (cases k) simp_all
    with no_nul show ?thesis by (simp add: takeWhile_append2)
  qed
  then show ?thesis by (simp add: strncpy_def c_text_def [of "_ @ _"] rest)
qed

lemma getCall_text: "cn_call c \<noteq> [] \<Longrightarrow> getCall c = (if c_text (cn_call c) = [] then None else Some (c_text (cn_call c)))"
  by (cases "cn_call c") (simp_all add: getCall_def c_text_def)

definition call_text :: "string \<Rightarrow> string option" where
  "call_text name = (if c_text name = [] then None else Some (take 31 (c_text name)))"

lemma recordCall_run:
  assumes c: "conn_ok c" "started c" and k: "cn_ncalls c = Some k"
  obtains c' where "recordCall name c = Ok c'" "conn_ok c'" "started c'" "cn_ncalls c' = Some (to_uint64 (k + 1))"
    "cn_time c' = cn_time c" "getCall c' = call_text name" "cn_addr c' = cn_addr c"
proof -
  let ?c = "c\<lparr>cn_call := strncpy (cn_call c) name 31, cn_ncalls := Some (to_uint64 (k + 1))\<rparr>"
  have run: "recordCall name c = Ok ?c" using k by (simp add: recordCall_def kNameLen_def)
  moreover have call: "length (cn_call c) = 31 + 1" "cn_call c ! 31 = NUL" using c(1) by (simp_all add: conn_ok_def)
  then have "cn_call ?c \<noteq> []" by (auto simp: strncpy_def)
  then have "getCall ?c = call_text name"
    using getCall_text [of ?c] c_text_strncpy [OF call, of name] by (simp add: call_text_def)
  moreover from recordCall_ok [OF c, of name] run have "conn_ok ?c" "started ?c" by auto
  ultimately show thesis using that [of ?c] by simp
qed

lemma getContext_run:
  assumes inv: "client_inv d s" and ctx: "cs_contexts s cid = Some (Some (place n))" and k: "cn_ncalls (vector_at d (cs_clientInfo s) n) = Some k"
  obtains s' c' where "getContext name (Some cid) s = (Ok (), s')" "client_inv d s'" "cs_contexts s' = cs_contexts s"
    "vector_at d (cs_clientInfo s') = (vector_at d (cs_clientInfo s))(n := c')" "cn_ncalls c' = Some (to_uint64 (k + 1))"
    "cn_time c' = cn_time (vector_at d (cs_clientInfo s) n)" "getCall c' = call_text name" "cn_addr c' = cn_addr (vector_at d (cs_clientInfo s) n)"
proof -
  let ?v = "cs_clientInfo s"
  from client_invD(4) [OF inv ctx] obtain m where "place n = place m" "in_vector ?v (place n)" "started (vector_at d ?v m)"
    unfolding linked_def by blast
  moreover from this(1) have "m = n" using place_injective place_place_ok by metis
  ultimately have n: "in_vector ?v (place n)" "started (vector_at d ?v n)" by blast+
  from recordCall_run [OF client_invD(3) [OF inv] n(2) k, of name] obtain c' where
    c': "recordCall name (vector_at d ?v n) = Ok c'" "conn_ok c'" "started c'" "cn_ncalls c' = Some (to_uint64 (k + 1))"
      "cn_time c' = cn_time (vector_at d ?v n)" "getCall c' = call_text name" "cn_addr c' = cn_addr (vector_at d ?v n)" by blast
  let ?s = "s\<lparr>cs_clientInfo := store (place n) c' ?v\<rparr>"
  have "getContext name (Some cid) s = (Ok (), ?s)"
    using run_on_client [OF n(1), of "recordCall name"] c'(1) place_in_vector [OF n(1), of d] ctx
    by (simp add: getContext_def run_simps)
  moreover from store_client_inv [OF inv refl n(1) c'(2)] c'(3) have "client_inv d ?s" by blast
  moreover have "vector_at d (cs_clientInfo ?s) = (vector_at d ?v)(n := c')" using store_vector_at [OF n(1)] by simp
  ultimately show thesis using that [of ?s c'] c' by simp
qed

lemma getContexts_run:
  assumes "client_inv d s" "cs_contexts s cid = Some (Some (place n))"
    "cn_ncalls (vector_at d (cs_clientInfo s) n) = Some (to_uint64 k)"
  shows "\<exists>s' c'. for_each names (\<lambda>name. getContext name (Some cid)) s = (Ok (), s') \<and>
     vector_at d (cs_clientInfo s') = (vector_at d (cs_clientInfo s))(n := c') \<and>
     cn_ncalls c' = Some (to_uint64 (k + int (length names))) \<and>
     cn_time c' = cn_time (vector_at d (cs_clientInfo s) n) \<and> cn_addr c' = cn_addr (vector_at d (cs_clientInfo s) n) \<and>
     getCall c' = (if names = [] then getCall (vector_at d (cs_clientInfo s) n) else call_text (last names))"
  using assms
proof (induction names arbitrary: s k)
  case Nil
  then show ?case
    by (intro exI [of _ s] exI [of _ "vector_at d (cs_clientInfo s) n"]) (simp add: returnA_def)
next
  case (Cons name names)
  let ?rest = "for_each names (\<lambda>name. getContext name (Some cid))"
  from getContext_run [OF Cons.prems, of name] obtain s1 c1 where
    s1: "getContext name (Some cid) s = (Ok (), s1)" "client_inv d s1" "cs_contexts s1 = cs_contexts s"
      "vector_at d (cs_clientInfo s1) = (vector_at d (cs_clientInfo s))(n := c1)" "cn_ncalls c1 = Some (to_uint64 (to_uint64 k + 1))"
      "cn_time c1 = cn_time (vector_at d (cs_clientInfo s) n)" "getCall c1 = call_text name"
      "cn_addr c1 = cn_addr (vector_at d (cs_clientInfo s) n)" by blast
  have "to_uint64 (to_uint64 k + 1) = to_uint64 (k + 1)" by (simp add: to_uint64_def mod_simps)
  with s1(3-5) Cons.prems(2) have next_call: "cs_contexts s1 cid = Some (Some (place n))"
    "cn_ncalls (vector_at d (cs_clientInfo s1) n) = Some (to_uint64 (k + 1))" by simp_all
  from Cons.IH [OF s1(2) next_call] obtain s' c' where
    s': "?rest s1 = (Ok (), s')" "vector_at d (cs_clientInfo s') = (vector_at d (cs_clientInfo s1))(n := c')"
      "cn_ncalls c' = Some (to_uint64 (k + 1 + int (length names)))" "cn_time c' = cn_time (vector_at d (cs_clientInfo s1) n)"
      "cn_addr c' = cn_addr (vector_at d (cs_clientInfo s1) n)"
      "getCall c' = (if names = [] then getCall (vector_at d (cs_clientInfo s1) n) else call_text (last names))" by blast
  have "k + 1 + int (length names) = k + int (length (name # names))" by simp
  with s' s1(4,6-8) show ?case
    by (intro exI [of _ s'] exI [of _ c']) (simp add: seqA_Ok [where m = "getContext name (Some cid)", OF s1(1)])
qed

text \<open>
  When a request arrives on a socket and calls are made in its context, the record of the socket's descriptor,
  wherever the table keeps it, names the last call (its first 31 characters), counts the calls modulo \<open>2 ^ 64\<close>, and has the time and
  the address of the connection; the records of all other descriptors are as they were.
\<close>

lemma client_calls_recorded:
  assumes reach: "client_reachable ntop secs (new_client_conn garbage addr_garbage) s" and ctx: "cs_contexts s cid = Some None"
    and fd: "0 \<le> fd" "fd < 2147483647" and names: "names \<noteq> []" and addr: "sa_family addr = AF_INET \<or> sa_family addr = AF_INET6"
  shows "\<exists>s' c'. seqA (processContext (new_client_conn garbage addr_garbage) now cid (TSocket fd (Some addr)))
       (for_each names (\<lambda>name. getContext name (Some cid))) s = (Ok (), s') \<and>
     vector_at (new_client_conn garbage addr_garbage) (cs_clientInfo s') =
       (vector_at (new_client_conn garbage addr_garbage) (cs_clientInfo s))(nat fd := c') \<and>
     getCall c' = call_text (last names) \<and> getNCalls c' = Ok (int (length names) mod 2 ^ 64) \<and> getTime c' = Ok now \<and>
     getAddr ntop c' = ntop (sa_family addr) (sa_bytes addr)"
proof -
  let ?d = "new_client_conn garbage addr_garbage"
  let ?old = "vector_at ?d (cs_clientInfo s) (nat fd)"
  from client_reachable_inv [OF reach new_client_conn_ok] have inv: "client_inv ?d s" .
  from run_processContext [OF inv ctx fd, of now "Some addr"] obtain s1 where
    s1: "processContext ?d now cid (TSocket fd (Some addr)) s = (Ok (), s1)" "client_inv ?d s1"
      "cs_contexts s1 = (cs_contexts s)(cid \<mapsto> Some (place (nat fd)))"
      "vector_at ?d (cs_clientInfo s1) = (vector_at ?d (cs_clientInfo s))(nat fd := recordAddr now (Some addr) ?old)" by metis
  let ?c = "recordAddr now (Some addr) ?old"
  have c: "cn_ncalls ?c = Some (to_uint64 0)" "cn_time ?c = Some now" "cn_addr ?c = addr"
    using addr by (auto simp: recordAddr_def Let_def initTime_def to_uint64_def)
  from getContexts_run [OF s1(2), of cid "nat fd" 0 names] s1(3,4) c names obtain s' c' where
    s': "for_each names (\<lambda>name. getContext name (Some cid)) s1 = (Ok (), s')"
      "vector_at ?d (cs_clientInfo s') = (vector_at ?d (cs_clientInfo s))(nat fd := c')"
      "cn_ncalls c' = Some (to_uint64 (int (length names)))" "cn_time c' = Some now" "cn_addr c' = addr"
      "getCall c' = call_text (last names)" by auto
  then show ?thesis
    using addr
    by (intro exI [of _ s'] exI [of _ c'])
      (auto simp: seqA_Ok [where m = "processContext ?d now cid (TSocket fd (Some addr))", OF s1(1)] getNCalls_def getTime_def getAddr_def to_uint64_def)
qed

text \<open>Two calls on socket 5000 of a fresh server.\<close>

lemma client_calls_recorded_witness:
  "\<exists>s' c'. seqA (processContext (new_client_conn [] \<lparr>sa_family = AF_UNSPEC, sa_bytes = []\<rparr>) (7, 0) 1
         (TSocket 5000 (Some \<lparr>sa_family = AF_INET, sa_bytes = ''abcd''\<rparr>)))
       (for_each [''getName'', ''aliveSince''] (\<lambda>name. getContext name (Some 1)))
       (snd (createContext 1 (new_client_server (new_client_conn [] \<lparr>sa_family = AF_UNSPEC, sa_bytes = []\<rparr>)))) = (Ok (), s') \<and>
     vector_at (new_client_conn [] \<lparr>sa_family = AF_UNSPEC, sa_bytes = []\<rparr>) (cs_clientInfo s') 5000 = c' \<and>
     getCall c' = Some ''aliveSince'' \<and> getNCalls c' = Ok 2"
proof -
  let ?d = "new_client_conn [] \<lparr>sa_family = AF_UNSPEC, sa_bytes = []\<rparr>"
  let ?s = "snd (createContext 1 (new_client_server ?d))"
  have "client_reachable (\<lambda>_ _. None) (\<lambda>_ _. []) ?d ?s"
    using client_step [OF client_start, of "Create 1"] by (simp add: new_client_server_def)
  moreover have "cs_contexts ?s 1 = Some None" by (simp add: createContext_def run_steps)
  moreover have "call_text (last [''getName'', ''aliveSince'']) = Some ''aliveSince''" by code_simp
  ultimately show ?thesis
    using client_calls_recorded [of "\<lambda>_ _. None" "\<lambda>_ _. []" "[]" "\<lparr>sa_family = AF_UNSPEC, sa_bytes = []\<rparr>" ?s 1 5000 "[''getName'', ''aliveSince'']"
        "\<lparr>sa_family = AF_INET, sa_bytes = ''abcd''\<rparr>" "(7, 0)"]
    by force
qed

end
